(* ===== verification/Prelude.thy ===== *)
theory Prelude
  imports Main "HOL-Library.Word" "HOL-Library.AList"
begin

text \<open>
  What the components of the Recast MCP development share: the names of the machine types, the
  arithmetic of the Rust standard library the services call (\<open>saturating_sub\<close>,
  \<open>compare_exchange\<close>), the part of \<open>str\<close> they call, hash maps as partial functions,
  a generic reachability rule for the step relations, and the development's rewrite collections.

  A Rust \<open>String\<close> is its UTF-8 byte sequence: HOL's \<open>string\<close>, one \<open>char\<close> per byte.
  \<open>len()\<close> is then \<open>length\<close>, comparison with an ASCII literal and search for an ASCII
  pattern are byte operations (UTF-8 is self-synchronising), and \<open>chars()\<close> is the split
  into the byte groups of the scalar values (\<open>utf8_chars\<close>).
\<close>

section \<open>Machine types\<close>

type_synonym u8 = "8 word"
type_synonym u16 = "16 word"
type_synonym u32 = "32 word"
type_synonym u64 = "64 word"
type_synonym uuid = "128 word"

named_theorems str_simps \<open>evaluation of the string operations\<close>
named_theorems res_simps \<open>the result combinators\<close>

section \<open>Results\<close>

text \<open>\<open>Result<T, E>\<close> is \<open>'e + 't\<close>, \<open>Err\<close> on the left. \<open>?\<close> is \<open>and_then\<close>.\<close>

definition and_then :: "'e + 'a \<Rightarrow> ('a \<Rightarrow> 'e + 'b) \<Rightarrow> 'e + 'b" where
  "and_then r f = (case r of Inl e \<Rightarrow> Inl e | Inr a \<Rightarrow> f a)"

definition ok_or :: "'e \<Rightarrow> 'a option \<Rightarrow> 'e + 'a" where
  "ok_or e x = (case x of None \<Rightarrow> Inl e | Some a \<Rightarrow> Inr a)"

definition map_err :: "('e \<Rightarrow> 'f) \<Rightarrow> 'e + 'a \<Rightarrow> 'f + 'a" where
  "map_err f r = (case r of Inl e \<Rightarrow> Inl (f e) | Inr a \<Rightarrow> Inr a)"

definition is_ok :: "'e + 'a \<Rightarrow> bool" where
  "is_ok r = (case r of Inl _ \<Rightarrow> False | Inr _ \<Rightarrow> True)"

lemma and_then_simps [simp, res_simps]:
  "and_then (Inl e) f = Inl e" "and_then (Inr a) f = f a"
  by (simp_all add: and_then_def)

lemma ok_or_simps [simp, res_simps]: "ok_or e None = Inl e" "ok_or e (Some a) = Inr a"
  by (simp_all add: ok_or_def)

lemma map_err_simps [simp, res_simps]: "map_err f (Inl e) = Inl (f e)" "map_err f (Inr a) = Inr a"
  by (simp_all add: map_err_def)

lemma is_ok_simps [simp, res_simps]: "\<not> is_ok (Inl e)" "is_ok (Inr a)"
  by (simp_all add: is_ok_def)

lemma and_then_eq_Inr [res_simps]: "and_then r f = Inr b \<longleftrightarrow> (\<exists>a. r = Inr a \<and> f a = Inr b)"
  by (cases r) auto

lemma and_then_eq_Inl [res_simps]:
  "and_then r f = Inl e \<longleftrightarrow> r = Inl e \<or> (\<exists>a. r = Inr a \<and> f a = Inl e)"
  by (cases r) auto

lemma ok_or_eq_Inr [res_simps]: "ok_or e x = Inr a \<longleftrightarrow> x = Some a"
  by (cases x) auto

lemma ok_or_eq_Inl [res_simps]: "ok_or e x = Inl e' \<longleftrightarrow> x = None \<and> e' = e"
  by (cases x) auto

lemma is_ok_iff: "is_ok r \<longleftrightarrow> (\<exists>a. r = Inr a)"
  by (cases r) auto

text \<open>\<open>iter().map(f).collect::<Result<Vec<_>, _>>()\<close>: the first error stops the loop.\<close>

fun collect_results :: "('a \<Rightarrow> 'e + 'b) \<Rightarrow> 'a list \<Rightarrow> 'e + 'b list" where
  "collect_results f [] = Inr []"
| "collect_results f (x # xs) =
     and_then (f x) (\<lambda>y. and_then (collect_results f xs) (\<lambda>ys. Inr (y # ys)))"

lemma collect_results_cong [fundef_cong]:
  "xs = ys \<Longrightarrow> (\<And>x. x \<in> set ys \<Longrightarrow> f x = g x) \<Longrightarrow> collect_results f xs = collect_results g ys"
  by (induction xs arbitrary: ys) auto

lemma collect_results_length: "collect_results f xs = Inr ys \<Longrightarrow> length ys = length xs"
  by (induction xs arbitrary: ys) (auto simp: res_simps)

section \<open>Counting\<close>

text \<open>The number of the list's elements with a property, and what one update does to it.\<close>

definition count_if :: "('a \<Rightarrow> bool) \<Rightarrow> 'a list \<Rightarrow> nat" where
  "count_if P xs = length (filter P xs)"

lemma count_if_simps [simp]:
  "count_if P [] = 0" "count_if P (x # xs) = (if P x then Suc (count_if P xs) else count_if P xs)"
  by (simp_all add: count_if_def)

lemma count_if_update: "i < length xs \<Longrightarrow>
    count_if P (xs[i := v]) + (if P (xs ! i) then 1 else 0) = count_if P xs + (if P v then 1 else 0)"
proof (induction xs arbitrary: i)
  case (Cons x xs)
  then show ?case by (cases i) (auto split: if_splits)
qed simp

lemma count_if_mono: "(\<And>x. P x \<Longrightarrow> Q x) \<Longrightarrow> count_if P xs \<le> count_if Q xs"
  by (induction xs) (auto intro: le_SucI)

lemma count_if_pos: "i < length xs \<Longrightarrow> P (xs ! i) \<Longrightarrow> 0 < count_if P xs"
  using count_if_update [of i xs P "xs ! i"] nth_mem [of i xs]
  by (auto simp: count_if_def filter_empty_conv)

lemma count_if_eq_0: "count_if P xs = 0 \<longleftrightarrow> (\<forall>x \<in> set xs. \<not> P x)"
  by (induction xs) auto

lemma count_if_replicate [simp]: "count_if P (replicate n x) = (if P x then n else 0)"
  by (induction n) auto

section \<open>Integer arithmetic of the standard library\<close>

definition i64_min :: int where "i64_min = - (2 ^ 63)"
definition i64_max :: int where "i64_max = 2 ^ 63 - 1"

text \<open>\<open>i64\<close> values are \<open>int\<close> in the range \<open>i64_min .. i64_max\<close>.\<close>

definition saturating_sub_i64 :: "int \<Rightarrow> int \<Rightarrow> int" where
  "saturating_sub_i64 a b = max i64_min (min i64_max (a - b))"

definition saturating_sub :: "'a::len word \<Rightarrow> 'a word \<Rightarrow> 'a word" where
  "saturating_sub a b = (if a < b then 0 else a - b)"

lemma unat_saturating_sub: "unat (saturating_sub a b) = unat a - unat b"
  by (simp add: saturating_sub_def unat_sub word_less_nat_alt not_less word_le_nat_alt)

text \<open>\<open>AtomicX::compare_exchange\<close> on the cell's value: whether it succeeded, and the new value.\<close>

definition compare_exchange :: "'a \<Rightarrow> 'a \<Rightarrow> 'a \<Rightarrow> bool \<times> 'a" where
  "compare_exchange expected new cur = (if cur = expected then (True, new) else (False, cur))"

lemma compare_exchange_simps [simp]:
  "compare_exchange v n v = (True, n)"
  "c \<noteq> v \<Longrightarrow> compare_exchange v n c = (False, c)"
  by (simp_all add: compare_exchange_def)

section \<open>Strings\<close>

definition starts_with :: "string \<Rightarrow> string \<Rightarrow> bool" where
  "starts_with p s = (take (length p) s = p)"

definition ends_with :: "string \<Rightarrow> string \<Rightarrow> bool" where
  "ends_with p s = (length p \<le> length s \<and> drop (length s - length p) s = p)"

definition strip_prefix :: "string \<Rightarrow> string \<Rightarrow> string option" where
  "strip_prefix p s = (if starts_with p s then Some (drop (length p) s) else None)"

lemma starts_with_iff: "starts_with p s \<longleftrightarrow> (\<exists>r. s = p @ r)"
  by (auto simp: starts_with_def) (metis append_take_drop_id)

lemma starts_with_append [simp, str_simps]: "starts_with p (p @ r)"
  by (simp add: starts_with_def)

lemma strip_prefix_append [simp, str_simps]: "strip_prefix p (p @ r) = Some r"
  by (simp add: strip_prefix_def)

lemma strip_prefix_eq_Some: "strip_prefix p s = Some r \<longleftrightarrow> s = p @ r"
  by (auto simp: strip_prefix_def starts_with_iff split: if_splits)

fun contains_str :: "string \<Rightarrow> string \<Rightarrow> bool" where
  "contains_str p [] = (p = [])"
| "contains_str p (c # s) = (starts_with p (c # s) \<or> contains_str p s)"

text \<open>\<open>str::find\<close> with a substring and with a set of characters: the byte offset.\<close>

fun find_str :: "string \<Rightarrow> string \<Rightarrow> nat option" where
  "find_str p [] = (if p = [] then Some 0 else None)"
| "find_str p (c # s) = (if starts_with p (c # s) then Some 0 else map_option Suc (find_str p s))"

fun find_char :: "(char \<Rightarrow> bool) \<Rightarrow> string \<Rightarrow> nat option" where
  "find_char P [] = None"
| "find_char P (c # s) = (if P c then Some 0 else map_option Suc (find_char P s))"

text \<open>
  \<open>str::replace\<close>: non-overlapping occurrences, left to right. The services only call it with
  a non-empty pattern; the equation for the empty pattern is not used.
\<close>

function replace_str :: "string \<Rightarrow> string \<Rightarrow> string \<Rightarrow> string" where
  "replace_str p r s =
     (if p = [] then s
      else case s of [] \<Rightarrow> []
      | c # cs \<Rightarrow> if starts_with p s then r @ replace_str p r (drop (length p) s)
                 else c # replace_str p r cs)"
  by pat_completeness auto
termination
  by (relation "measure (\<lambda>(p, r, s). length s)") auto

declare replace_str.simps [simp del]

lemma replace_str_Nil [simp]: "replace_str p r [] = []"
  by (subst replace_str.simps) simp

lemma replace_str_hit: "p \<noteq> [] \<Longrightarrow> replace_str p r (p @ s) = r @ replace_str p r s"
  by (cases p) (simp, subst replace_str.simps, simp add: starts_with_def)

lemma replace_str_miss:
  "p \<noteq> [] \<Longrightarrow> \<not> starts_with p (c # s) \<Longrightarrow> replace_str p r (c # s) = c # replace_str p r s"
  by (subst replace_str.simps) simp

text \<open>\<open>trim_start_matches\<close> and \<open>trim_end_matches\<close> with one ASCII character.\<close>

definition trim_start_char :: "char \<Rightarrow> string \<Rightarrow> string" where
  "trim_start_char c s = dropWhile (\<lambda>x. x = c) s"

definition trim_end_char :: "char \<Rightarrow> string \<Rightarrow> string" where
  "trim_end_char c s = rev (dropWhile (\<lambda>x. x = c) (rev s))"

subsection \<open>Scalar values\<close>

text \<open>
  \<open>str::chars\<close>: a byte of the form \<open>10xxxxxx\<close> continues the scalar value before it. Each
  scalar value is kept as its own bytes, so that \<open>concat (utf8_chars s) = s\<close>.
\<close>

definition is_cont_byte :: "char \<Rightarrow> bool" where
  "is_cont_byte c = (let n = (of_char c :: nat) in 128 \<le> n \<and> n < 192)"

function utf8_chars :: "string \<Rightarrow> string list" where
  "utf8_chars [] = []"
| "utf8_chars (c # s) = (c # takeWhile is_cont_byte s) # utf8_chars (dropWhile is_cont_byte s)"
  by pat_completeness auto
termination
  by (relation "measure length") (auto simp: le_imp_less_Suc length_dropWhile_le)

lemma concat_utf8_chars [simp]: "concat (utf8_chars s) = s"
  by (induction s rule: utf8_chars.induct) simp_all

definition is_ascii_str :: "string \<Rightarrow> bool" where
  "is_ascii_str s = (\<forall>c \<in> set s. (of_char c :: nat) < 128)"

lemma is_ascii_str_simps [simp]:
  "is_ascii_str []" "is_ascii_str (c # s) \<longleftrightarrow> (of_char c :: nat) < 128 \<and> is_ascii_str s"
  by (simp_all add: is_ascii_str_def)

lemma utf8_chars_ascii: "is_ascii_str s \<Longrightarrow> utf8_chars s = map (\<lambda>c. [c]) s"
proof (induction s)
  case (Cons c s)
  have "takeWhile is_cont_byte s = [] \<and> dropWhile is_cont_byte s = s"
    using Cons.prems by (cases s) (auto simp: is_cont_byte_def Let_def)
  with Cons show ?case by simp
qed simp

lemma length_utf8_chars_le: "length (utf8_chars s) \<le> length s"
  by (induction s rule: utf8_chars.induct)
    (auto intro: le_trans [OF _ length_dropWhile_le] le_SucI)

text \<open>\<open>s.chars().take(n).collect::<String>()\<close>.\<close>

definition take_chars :: "nat \<Rightarrow> string \<Rightarrow> string" where
  "take_chars n s = concat (take n (utf8_chars s))"

lemma utf8_chars_append:
  "t = [] \<or> \<not> is_cont_byte (hd t) \<Longrightarrow> utf8_chars (s @ t) = utf8_chars s @ utf8_chars t"
proof (induction s rule: utf8_chars.induct)
  case (2 c s)
  have t: "takeWhile is_cont_byte t = []" "dropWhile is_cont_byte t = t"
    using 2(2) by (cases t; auto)+
  show ?case
  proof (cases "\<forall>x \<in> set s. is_cont_byte x")
    case True
    then have "takeWhile is_cont_byte (s @ t) = s" "dropWhile is_cont_byte (s @ t) = t"
      using t by (simp_all add: takeWhile_append dropWhile_append)
    with True show ?thesis by (simp add: takeWhile_eq_all_conv [THEN iffD2] dropWhile_eq_Nil_conv [THEN iffD2])
  next
    case False
    then have "takeWhile is_cont_byte (s @ t) = takeWhile is_cont_byte s"
      "dropWhile is_cont_byte (s @ t) = dropWhile is_cont_byte s @ t"
      by (auto simp: takeWhile_append1 dropWhile_append1)
    with 2 show ?thesis by simp
  qed
qed simp

lemma hd_dropWhile_cont: "dropWhile is_cont_byte s = [] \<or> \<not> is_cont_byte (hd (dropWhile is_cont_byte s))"
  using hd_dropWhile by blast

lemma concat_take_start:
  "concat (take m (utf8_chars s)) = [] \<or> hd (concat (take m (utf8_chars s))) = hd s"
  by (cases m; cases s) auto

lemma utf8_chars_take: "utf8_chars (concat (take n (utf8_chars s))) = take n (utf8_chars s)"
proof (induction s arbitrary: n rule: utf8_chars.induct)
  case (2 c s)
  let ?d = "dropWhile is_cont_byte s"
  show ?case
  proof (cases n)
    case (Suc m)
    let ?r = "concat (take m (utf8_chars ?d))"
    have r: "?r = [] \<or> \<not> is_cont_byte (hd ?r)"
    proof (cases "?d = []")
      case True
      then have "?r = []" by (simp only: utf8_chars.simps take_Nil concat.simps)
      then show ?thesis by (rule disjI1)
    next
      case False
      then show ?thesis using concat_take_start [of m ?d] hd_dropWhile_cont [of s] by metis
    qed
    have "utf8_chars ((c # takeWhile is_cont_byte s) @ ?r) =
        utf8_chars (c # takeWhile is_cont_byte s) @ utf8_chars ?r"
      by (rule utf8_chars_append [OF r])
    moreover have "takeWhile is_cont_byte (takeWhile is_cont_byte s) = takeWhile is_cont_byte s"
      "dropWhile is_cont_byte (takeWhile is_cont_byte s) = []"
      by (auto simp: takeWhile_eq_all_conv dest: set_takeWhileD)
    ultimately show ?thesis using Suc 2 by simp
  qed simp
qed simp

text \<open>\<open>[String]::join\<close>.\<close>

fun join :: "string \<Rightarrow> string list \<Rightarrow> string" where
  "join sep [] = []"
| "join sep [x] = x"
| "join sep (x # y # xs) = x @ sep @ join sep (y # xs)"

text \<open>\<open>str::split\<close> with a character, the inverse of \<open>join\<close> on parts without it.\<close>

fun split_on :: "char \<Rightarrow> string \<Rightarrow> string list" where
  "split_on c [] = [[]]"
| "split_on c (x # xs) =
     (if x = c then [] # split_on c xs
      else case split_on c xs of p # ps \<Rightarrow> (x # p) # ps | [] \<Rightarrow> [[x]])"

lemma split_on_free: "c \<notin> set s \<Longrightarrow> split_on c s = [s]"
  by (induction s) auto

lemma split_on_part: "c \<notin> set s \<Longrightarrow> split_on c (s @ c # t) = s # split_on c t"
  by (induction s) auto

lemma split_on_join: "xs \<noteq> [] \<Longrightarrow> \<forall>x \<in> set xs. c \<notin> set x \<Longrightarrow> split_on c (join [c] xs) = xs"
  by (induction "[c]" xs rule: join.induct) (simp_all add: split_on_free split_on_part)

subsection \<open>Whitespace\<close>

text \<open>\<open>str::trim\<close>: the characters with the Unicode property White_Space, by their UTF-8 bytes.\<close>

definition is_whitespace :: "string \<Rightarrow> bool" where
  "is_whitespace ch =
     (let b = map (of_char :: char \<Rightarrow> nat) ch in
      (case b of
         [x] \<Rightarrow> 9 \<le> x \<and> x \<le> 13 \<or> x = 32
       | [x, y] \<Rightarrow> x = 194 \<and> (y = 133 \<or> y = 160)
       | [x, y, z] \<Rightarrow>
           x = 225 \<and> y = 154 \<and> z = 128 \<or>
           x = 226 \<and> y = 128 \<and> (128 \<le> z \<and> z \<le> 138 \<or> z = 168 \<or> z = 169 \<or> z = 175) \<or>
           x = 226 \<and> y = 129 \<and> z = 159 \<or>
           x = 227 \<and> y = 128 \<and> z = 128
       | _ \<Rightarrow> False))"

definition trim :: "string \<Rightarrow> string" where
  "trim s = concat (rev (dropWhile is_whitespace (rev (dropWhile is_whitespace (utf8_chars s)))))"

lemma contains_char: "contains_str [c] s \<longleftrightarrow> c \<in> set s"
  by (induction s) (auto simp: starts_with_def)

subsection \<open>Decimal numbers\<close>

text \<open>\<open>Display\<close> of an unsigned integer.\<close>

fun show_nat :: "nat \<Rightarrow> string" where
  "show_nat n =
     (if n < 10 then [char_of (48 + n)] else show_nat (n div 10) @ [char_of (48 + n mod 10)])"

declare show_nat.simps [simp del]

subsection \<open>Bytes that may not be UTF-8\<close>

text \<open>
  \<open>String::from_utf8_lossy\<close>: a maximal prefix of a sequence that cannot be completed is replaced by
  one U+FFFD. \<open>utf8_step bs\<close> says whether the bytes start with a scalar value and how many bytes
  that value, or the broken prefix, has.
\<close>

definition in_range :: "nat \<Rightarrow> nat \<Rightarrow> nat list \<Rightarrow> nat \<Rightarrow> bool" where
  "in_range lo hi bs i = (i < length bs \<and> lo \<le> bs ! i \<and> bs ! i \<le> hi)"

definition utf8_step :: "nat list \<Rightarrow> bool \<times> nat" where
  "utf8_step bs =
     (let b = hd bs; cont = in_range 128 191 bs in
      if b < 128 then (True, 1)
      else if 194 \<le> b \<and> b \<le> 223 then (if cont 1 then (True, 2) else (False, 1))
      else if 224 \<le> b \<and> b \<le> 239 then
        (if \<not> in_range (if b = 224 then 160 else 128) (if b = 237 then 159 else 191) bs 1 then (False, 1)
         else if \<not> cont 2 then (False, 2) else (True, 3))
      else if 240 \<le> b \<and> b \<le> 244 then
        (if \<not> in_range (if b = 240 then 144 else 128) (if b = 244 then 143 else 191) bs 1 then (False, 1)
         else if \<not> cont 2 then (False, 2) else if \<not> cont 3 then (False, 3) else (True, 4))
      else (False, 1))"

lemma utf8_step_pos: "0 < snd (utf8_step bs)"
  by (simp add: utf8_step_def Let_def)

function from_utf8_lossy :: "nat list \<Rightarrow> string" where
  "from_utf8_lossy bs =
     (if bs = [] then []
      else let (ok, n) = utf8_step bs in
        (if ok then map char_of (take n bs) else map char_of [239, 191, 189 :: nat]) @ from_utf8_lossy (drop n bs))"
  by pat_completeness auto
termination
proof (relation "measure length")
  fix bs :: "nat list" and x ok n
  assume "bs \<noteq> []" "x = utf8_step bs" "(ok, n) = x"
  then show "(drop n bs, bs) \<in> measure length" using utf8_step_pos [of bs] by (cases "utf8_step bs") auto
qed simp

declare from_utf8_lossy.simps [simp del]

lemma from_utf8_lossy_ascii: "\<forall>b \<in> set bs. b < 128 \<Longrightarrow> from_utf8_lossy bs = map char_of bs"
  by (induction bs) (subst from_utf8_lossy.simps, simp add: utf8_step_def Let_def)+

section \<open>ASCII case\<close>

definition ascii_upper_char :: "char \<Rightarrow> char" where
  "ascii_upper_char c =
     (let n = (of_char c :: nat) in if 97 \<le> n \<and> n \<le> 122 then char_of (n - 32) else c)"

definition ascii_lower_char :: "char \<Rightarrow> char" where
  "ascii_lower_char c =
     (let n = (of_char c :: nat) in if 65 \<le> n \<and> n \<le> 90 then char_of (n + 32) else c)"

definition to_ascii_lowercase :: "string \<Rightarrow> string" where
  "to_ascii_lowercase s = map ascii_lower_char s"

definition to_ascii_uppercase :: "string \<Rightarrow> string" where
  "to_ascii_uppercase s = map ascii_upper_char s"

definition eq_ignore_ascii_case :: "string \<Rightarrow> string \<Rightarrow> bool" where
  "eq_ignore_ascii_case a b = (to_ascii_lowercase a = to_ascii_lowercase b)"

definition is_ascii_alphabetic :: "char \<Rightarrow> bool" where
  "is_ascii_alphabetic c =
     (let n = (of_char c :: nat) in 65 \<le> n \<and> n \<le> 90 \<or> 97 \<le> n \<and> n \<le> 122)"

definition is_ascii_digit :: "char \<Rightarrow> bool" where
  "is_ascii_digit c = (let n = (of_char c :: nat) in 48 \<le> n \<and> n \<le> 57)"

definition is_ascii_alphanumeric :: "char \<Rightarrow> bool" where
  "is_ascii_alphanumeric c = (is_ascii_alphabetic c \<or> is_ascii_digit c)"

section \<open>Reachable states\<close>

text \<open>The states a step relation reaches from a set of initial states.\<close>

inductive reach :: "('s \<Rightarrow> bool) \<Rightarrow> ('s \<Rightarrow> 's \<Rightarrow> bool) \<Rightarrow> 's \<Rightarrow> bool" for init step where
  reach_init: "init s \<Longrightarrow> reach init step s"
| reach_step: "reach init step s \<Longrightarrow> step s t \<Longrightarrow> reach init step t"

lemma reach_invariant:
  assumes "reach init step s"
    and "\<And>s. init s \<Longrightarrow> I s"
    and "\<And>s t. I s \<Longrightarrow> step s t \<Longrightarrow> I t"
  shows "I s"
  using assms by (induction rule: reach.induct) auto

end
