(* ===== verification/Circuit_Breaker.thy ===== *)
theory Circuit_Breaker
  imports Prelude
begin

text \<open>
  The per-server circuit breaker of the gateway (\<open>services/gateway/src/circuit_breaker.rs\<close>):
  the atomics of \<open>CircuitBreaker\<close> as the fields of a record, one definition per method, the
  registry, an abstract three-state machine, and the contract \<open>breaker_contract\<close> under which
  clients use a breaker. Here each method runs without interference; the interleaving of the
  atomic accesses is the subject of the theory \<open>Breaker_Race\<close>.

  \<open>now_unix_secs\<close> is the argument \<open>now\<close>. \<open>publish_metrics\<close> writes two Prometheus
  gauges; the field \<open>cb_gauges\<close> holds what was last written.
\<close>

section \<open>Data\<close>

definition FAILURE_THRESHOLD :: u32 where "FAILURE_THRESHOLD = 5"
definition HALF_OPEN_SUCCESS_THRESHOLD :: u32 where "HALF_OPEN_SUCCESS_THRESHOLD = 3"
definition OPEN_DURATION_SECS :: int where "OPEN_DURATION_SECS = 30"
definition DEFAULT_RETRY_AFTER_MS :: u64 where "DEFAULT_RETRY_AFTER_MS = 30000"

definition STATE_CLOSED :: u32 where "STATE_CLOSED = 0"
definition STATE_OPEN :: u32 where "STATE_OPEN = 1"
definition STATE_HALF_OPEN :: u32 where "STATE_HALF_OPEN = 2"

lemmas cb_consts = FAILURE_THRESHOLD_def HALF_OPEN_SUCCESS_THRESHOLD_def OPEN_DURATION_SECS_def
  DEFAULT_RETRY_AFTER_MS_def STATE_CLOSED_def STATE_OPEN_def STATE_HALF_OPEN_def

datatype breaker_state = Closed | Open | HalfOpen

datatype circuit_error = CircuitError_Open (retry_after_ms: u64)

record circuit_breaker =
  cb_server_id :: uuid
  cb_state :: u32
  cb_consecutive_failures :: u32
  cb_consecutive_successes :: u32
  cb_open_since_secs :: int
  cb_probe_in_progress :: bool
  cb_retry_after_ms :: u64
  cb_gauges :: "(u32 \<times> u32) option"

section \<open>Operations\<close>

definition cb_new :: "uuid \<Rightarrow> circuit_breaker" where
  "cb_new sid =
     \<lparr>cb_server_id = sid, cb_state = STATE_CLOSED, cb_consecutive_failures = 0,
      cb_consecutive_successes = 0, cb_open_since_secs = 0, cb_probe_in_progress = False,
      cb_retry_after_ms = DEFAULT_RETRY_AFTER_MS, cb_gauges = None\<rparr>"

definition cb_observe :: "circuit_breaker \<Rightarrow> breaker_state" where
  "cb_observe b =
     (if cb_state b = STATE_CLOSED then Closed
      else if cb_state b = STATE_OPEN then Open
      else if cb_state b = STATE_HALF_OPEN then HalfOpen
      else Closed)"

definition publish_metrics :: "circuit_breaker \<Rightarrow> circuit_breaker" where
  "publish_metrics b = b\<lparr>cb_gauges := Some (cb_state b, cb_consecutive_failures b)\<rparr>"

definition try_acquire_probe :: "circuit_breaker \<Rightarrow> (circuit_error + unit) \<times> circuit_breaker" where
  "try_acquire_probe b =
     (case compare_exchange False True (cb_probe_in_progress b) of
        (True, p) \<Rightarrow> (Inr (), b\<lparr>cb_probe_in_progress := p\<rparr>)
      | (False, _) \<Rightarrow> (Inl (CircuitError_Open (cb_retry_after_ms b)), b))"

definition cb_check :: "int \<Rightarrow> circuit_breaker \<Rightarrow> (circuit_error + unit) \<times> circuit_breaker" where
  "cb_check now b =
     (if cb_state b = STATE_CLOSED then (Inr (), b)
      else if cb_state b = STATE_OPEN then
        (let open_since = cb_open_since_secs b;
             elapsed = saturating_sub_i64 now open_since
         in if elapsed \<ge> OPEN_DURATION_SECS then
              (case compare_exchange STATE_OPEN STATE_HALF_OPEN (cb_state b) of
                 (True, s) \<Rightarrow>
                   try_acquire_probe (publish_metrics
                     (b\<lparr>cb_state := s, cb_consecutive_successes := 0, cb_probe_in_progress := False\<rparr>))
               | (False, current) \<Rightarrow>
                   if current = STATE_HALF_OPEN then try_acquire_probe b
                   else (Inl (CircuitError_Open (cb_retry_after_ms b)), b))
            else (Inl (CircuitError_Open (cb_retry_after_ms b)), b))
      else if cb_state b = STATE_HALF_OPEN then try_acquire_probe b
      else (Inr (), b))"

definition cb_on_success :: "circuit_breaker \<Rightarrow> circuit_breaker" where
  "cb_on_success b =
     (if cb_state b = STATE_CLOSED then
        publish_metrics (b\<lparr>cb_consecutive_failures := 0\<rparr>)
      else if cb_state b = STATE_HALF_OPEN then
        (let successes = cb_consecutive_successes b + 1;
             b1 = b\<lparr>cb_consecutive_successes := successes\<rparr>
         in if successes \<ge> HALF_OPEN_SUCCESS_THRESHOLD then
              (case compare_exchange STATE_HALF_OPEN STATE_CLOSED (cb_state b1) of
                 (True, s) \<Rightarrow>
                   publish_metrics
                     (b1\<lparr>cb_state := s, cb_consecutive_failures := 0, cb_probe_in_progress := False,
                         cb_retry_after_ms := DEFAULT_RETRY_AFTER_MS\<rparr>)
               | (False, _) \<Rightarrow> b1)
            else b1\<lparr>cb_probe_in_progress := False\<rparr>)
      else b)"

definition cb_on_failure :: "int \<Rightarrow> u64 option \<Rightarrow> circuit_breaker \<Rightarrow> circuit_breaker" where
  "cb_on_failure now retry b0 =
     (let b = (case retry of Some ms \<Rightarrow> b0\<lparr>cb_retry_after_ms := ms\<rparr> | None \<Rightarrow> b0)
      in if cb_state b = STATE_CLOSED then
           (let failures = cb_consecutive_failures b + 1;
                b1 = publish_metrics (b\<lparr>cb_consecutive_failures := failures\<rparr>)
            in if failures \<ge> FAILURE_THRESHOLD then
                 (case compare_exchange STATE_CLOSED STATE_OPEN (cb_state b1) of
                    (True, s) \<Rightarrow> publish_metrics (b1\<lparr>cb_state := s, cb_open_since_secs := now\<rparr>)
                  | (False, _) \<Rightarrow> b1)
               else b1)
         else if cb_state b = STATE_HALF_OPEN then
           (case compare_exchange STATE_HALF_OPEN STATE_OPEN (cb_state b) of
              (True, s) \<Rightarrow>
                publish_metrics
                  (b\<lparr>cb_state := s, cb_open_since_secs := now, cb_consecutive_failures := 1,
                     cb_probe_in_progress := False\<rparr>)
            | (False, _) \<Rightarrow> b)
         else b)"

section \<open>The registry\<close>

record circuit_breaker_registry =
  breakers :: "(uuid \<times> circuit_breaker) list"

definition registry_new :: circuit_breaker_registry where
  "registry_new = \<lparr>breakers = []\<rparr>"

text \<open>
  \<open>get\<close> hands out a clone of the \<open>Arc\<close>: later changes through it reach the map's entry.
  \<open>registry_put\<close> writes such a change back to the shared breaker.
\<close>

definition registry_get :: "circuit_breaker_registry \<Rightarrow> uuid \<Rightarrow> circuit_breaker \<times> circuit_breaker_registry" where
  "registry_get r sid =
     (case map_of (breakers r) sid of
        Some b \<Rightarrow> (b, r)
      | None \<Rightarrow> (cb_new sid, r\<lparr>breakers := AList.update sid (cb_new sid) (breakers r)\<rparr>))"

definition registry_put :: "circuit_breaker_registry \<Rightarrow> uuid \<Rightarrow> circuit_breaker \<Rightarrow> circuit_breaker_registry" where
  "registry_put r sid b = r\<lparr>breakers := AList.update sid b (breakers r)\<rparr>"

definition registry_remove :: "circuit_breaker_registry \<Rightarrow> uuid \<Rightarrow> circuit_breaker_registry" where
  "registry_remove r sid = r\<lparr>breakers := AList.delete sid (breakers r)\<rparr>"

definition registry_len :: "circuit_breaker_registry \<Rightarrow> nat" where
  "registry_len r = length (breakers r)"

definition registry_is_empty :: "circuit_breaker_registry \<Rightarrow> bool" where
  "registry_is_empty r = (breakers r = [])"

definition registry_wf :: "circuit_breaker_registry \<Rightarrow> bool" where
  "registry_wf r = distinct (map fst (breakers r))"

lemma registry_wf_ops:
  "registry_wf registry_new"
  "registry_wf r \<Longrightarrow> registry_wf (snd (registry_get r sid))"
  "registry_wf r \<Longrightarrow> registry_wf (registry_put r sid b)"
  "registry_wf r \<Longrightarrow> registry_wf (registry_remove r sid)"
  by (auto simp: registry_wf_def registry_new_def registry_get_def registry_put_def
      registry_remove_def distinct_update distinct_delete split: option.split)

lemma registry_lookup:
  "map_of (breakers (snd (registry_get r sid))) sid = Some (fst (registry_get r sid))"
  "sid' \<noteq> sid \<Longrightarrow> map_of (breakers (snd (registry_get r sid))) sid' = map_of (breakers r) sid'"
  "map_of (breakers (registry_put r sid b)) = (map_of (breakers r))(sid \<mapsto> b)"
  by (auto simp: registry_get_def registry_put_def update_conv' split: option.split)

section \<open>The abstract machine\<close>

text \<open>Closed with a failure count, open since a time, or half open with the number of
  successful probes and whether a probe is in flight.\<close>

datatype spec_breaker = SClosed nat | SOpen int | SHalfOpen nat bool

fun spec_check :: "int \<Rightarrow> spec_breaker \<Rightarrow> bool \<times> spec_breaker" where
  "spec_check now (SClosed n) = (True, SClosed n)"
| "spec_check now (SOpen t) = (if now - t \<ge> 30 then (True, SHalfOpen 0 True) else (False, SOpen t))"
| "spec_check now (SHalfOpen k p) = (\<not> p, SHalfOpen k True)"

fun spec_success :: "spec_breaker \<Rightarrow> spec_breaker" where
  "spec_success (SClosed n) = SClosed 0"
| "spec_success (SOpen t) = SOpen t"
| "spec_success (SHalfOpen k p) = (if 3 \<le> Suc k then SClosed 0 else SHalfOpen (Suc k) False)"

fun spec_failure :: "int \<Rightarrow> spec_breaker \<Rightarrow> spec_breaker" where
  "spec_failure now (SClosed n) = (if 5 \<le> Suc n then SOpen now else SClosed (Suc n))"
| "spec_failure now (SOpen t) = SOpen t"
| "spec_failure now (SHalfOpen k p) = SOpen now"

definition cb_abs :: "circuit_breaker \<Rightarrow> spec_breaker" where
  "cb_abs b =
     (if cb_state b = STATE_CLOSED then SClosed (unat (cb_consecutive_failures b))
      else if cb_state b = STATE_OPEN then SOpen (cb_open_since_secs b)
      else SHalfOpen (unat (cb_consecutive_successes b)) (cb_probe_in_progress b))"

definition cb_inv :: "circuit_breaker \<Rightarrow> bool" where
  "cb_inv b =
     (cb_state b \<le> STATE_HALF_OPEN \<and>
      (cb_state b = STATE_CLOSED \<longrightarrow> cb_consecutive_failures b < FAILURE_THRESHOLD) \<and>
      (cb_state b = STATE_HALF_OPEN \<longrightarrow> cb_consecutive_successes b < HALF_OPEN_SUCCESS_THRESHOLD) \<and>
      (case cb_gauges b of
         None \<Rightarrow> cb_state b = STATE_CLOSED \<and> cb_consecutive_failures b = 0
       | Some g \<Rightarrow> g = (cb_state b, cb_consecutive_failures b)))"

lemma saturating_elapsed: "saturating_sub_i64 a b \<ge> 30 \<longleftrightarrow> a - b \<ge> 30"
  by (auto simp: saturating_sub_i64_def i64_min_def i64_max_def)

lemma state_cases: "(s :: u32) \<le> 2 \<Longrightarrow> s = 0 \<or> s = 1 \<or> s = 2"
  by unat_arith

lemma unat_inc_small: "(w :: u32) < 5 \<Longrightarrow> unat (w + 1) = Suc (unat w)"
  by (simp add: unat_word_ariths word_less_nat_alt)

lemmas cb_ops = cb_check_def cb_on_success_def cb_on_failure_def try_acquire_probe_def
  publish_metrics_def

section \<open>The contract of a breaker\<close>

text \<open>
  What a client may rely on: the operations keep an invariant and follow the abstract machine.
  Everything the executor needs is proved once here.
\<close>

datatype breaker_event = Ev_Check int | Ev_Success | Ev_Failure int "u64 option"

fun spec_step :: "breaker_event \<Rightarrow> spec_breaker \<Rightarrow> spec_breaker" where
  "spec_step (Ev_Check now) a = snd (spec_check now a)"
| "spec_step Ev_Success a = spec_success a"
| "spec_step (Ev_Failure now r) a = spec_failure now a"

locale breaker_contract =
  fixes check :: "int \<Rightarrow> 'b \<Rightarrow> (circuit_error + unit) \<times> 'b"
    and on_success :: "'b \<Rightarrow> 'b"
    and on_failure :: "int \<Rightarrow> u64 option \<Rightarrow> 'b \<Rightarrow> 'b"
    and abs :: "'b \<Rightarrow> spec_breaker"
    and inv :: "'b \<Rightarrow> bool"
  assumes check_inv: "inv b \<Longrightarrow> inv (snd (check now b))"
    and check_abs: "inv b \<Longrightarrow> is_ok (fst (check now b)) = fst (spec_check now (abs b))
      \<and> abs (snd (check now b)) = snd (spec_check now (abs b))"
    and success_inv: "inv b \<Longrightarrow> inv (on_success b)"
    and success_abs: "inv b \<Longrightarrow> abs (on_success b) = spec_success (abs b)"
    and failure_inv: "inv b \<Longrightarrow> inv (on_failure now r b)"
    and failure_abs: "inv b \<Longrightarrow> abs (on_failure now r b) = spec_failure now (abs b)"
begin

fun step :: "breaker_event \<Rightarrow> 'b \<Rightarrow> 'b" where
  "step (Ev_Check now) b = snd (check now b)"
| "step Ev_Success b = on_success b"
| "step (Ev_Failure now r) b = on_failure now r b"

lemma step_inv: "inv b \<Longrightarrow> inv (step e b)"
  by (cases e) (simp_all add: check_inv success_inv failure_inv)

lemma step_abs: "inv b \<Longrightarrow> abs (step e b) = spec_step e (abs b)"
  by (cases e) (simp_all add: check_abs success_abs failure_abs)

lemma run_refines:
  "inv b \<Longrightarrow> inv (fold step es b) \<and> abs (fold step es b) = fold spec_step es (abs b)"
  by (induction es arbitrary: b) (simp_all add: step_inv step_abs)

lemma stuck_probe: "inv b \<Longrightarrow> abs b = SHalfOpen k True \<Longrightarrow>
    \<not> is_ok (fst (check now b)) \<and> abs (snd (check now b)) = SHalfOpen k True"
  using check_abs [of b now] by simp

lemma refused_in_window: "inv b \<Longrightarrow> abs b = SOpen t \<Longrightarrow> now - t < 30 \<Longrightarrow>
    \<not> is_ok (fst (check now b)) \<and> abs (snd (check now b)) = SOpen t"
  using check_abs [of b now] by simp

lemma admits_one_probe: "inv b \<Longrightarrow> abs b = SOpen t \<Longrightarrow> now - t \<ge> 30 \<Longrightarrow>
    is_ok (fst (check now b)) \<and> abs (snd (check now b)) = SHalfOpen 0 True
      \<and> \<not> is_ok (fst (check later (snd (check now b))))"
  using check_abs [of b now] check_abs [of "snd (check now b)" later] check_inv [of b now] by simp

end

section \<open>The model meets the contract\<close>

lemma cb_check_inv: "cb_inv b \<Longrightarrow> cb_inv (snd (cb_check now b))"
  by (auto simp: cb_inv_def cb_ops cb_consts Let_def compare_exchange_def split: option.splits)

lemma cb_success_inv: "cb_inv b \<Longrightarrow> cb_inv (cb_on_success b)"
  by (auto simp: cb_inv_def cb_ops cb_consts Let_def compare_exchange_def not_le split: option.splits)

lemma cb_failure_inv: "cb_inv b \<Longrightarrow> cb_inv (cb_on_failure now r b)"
  by (auto simp: cb_inv_def cb_ops cb_consts Let_def compare_exchange_def not_le split: option.splits)

lemma cb_check_abs:
  assumes "cb_inv b"
  shows "is_ok (fst (cb_check now b)) = fst (spec_check now (cb_abs b))
    \<and> cb_abs (snd (cb_check now b)) = snd (spec_check now (cb_abs b))"
proof -
  from assms have "cb_state b \<le> 2" by (simp add: cb_inv_def cb_consts)
  then consider "cb_state b = 0" | "cb_state b = 1" | "cb_state b = 2"
    using state_cases by blast
  then show ?thesis
    by cases (simp_all add: cb_abs_def cb_ops cb_consts Let_def saturating_elapsed
        compare_exchange_def split: bool.split)
qed

lemma cb_success_abs:
  assumes "cb_inv b"
  shows "cb_abs (cb_on_success b) = spec_success (cb_abs b)"
proof -
  from assms have "cb_state b \<le> 2" by (simp add: cb_inv_def cb_consts)
  then consider "cb_state b = 0" | "cb_state b = 1"
    | "cb_state b = 2" "cb_consecutive_successes b < 3"
    using state_cases assms by (auto simp: cb_inv_def cb_consts)
  then show ?thesis
  proof cases
    case 3
    then have "unat (cb_consecutive_successes b + 1) = Suc (unat (cb_consecutive_successes b))"
      by (intro unat_inc_small) (auto simp: word_less_nat_alt)
    with 3 show ?thesis
      by (simp add: cb_abs_def cb_ops cb_consts Let_def word_le_nat_alt)
  qed (simp_all add: cb_abs_def cb_ops cb_consts)
qed

lemma cb_failure_abs:
  assumes "cb_inv b"
  shows "cb_abs (cb_on_failure now r b) = spec_failure now (cb_abs b)"
proof -
  from assms have "cb_state b \<le> 2" by (simp add: cb_inv_def cb_consts)
  then consider "cb_state b = 0" "cb_consecutive_failures b < 5"
    | "cb_state b = 1" | "cb_state b = 2"
    using state_cases assms by (auto simp: cb_inv_def cb_consts)
  then show ?thesis
  proof cases
    case 1
    with unat_inc_small [of "cb_consecutive_failures b"] show ?thesis
      by (simp add: cb_abs_def cb_ops cb_consts Let_def word_le_nat_alt split: option.split)
  qed (simp_all add: cb_abs_def cb_ops cb_consts split: option.split)
qed

interpretation cb: breaker_contract cb_check cb_on_success cb_on_failure cb_abs cb_inv
  by unfold_locales
    (simp_all add: cb_check_inv cb_check_abs cb_success_inv cb_success_abs cb_failure_inv
      cb_failure_abs)

lemma cb_new_inv [simp]: "cb_inv (cb_new sid)" "cb_abs (cb_new sid) = SClosed 0"
  by (simp_all add: cb_inv_def cb_abs_def cb_new_def cb_consts)

section \<open>Properties of the breaker\<close>

text \<open>A call of one of the three methods, as a step of the concrete breaker.\<close>

fun cb_step :: "breaker_event \<Rightarrow> circuit_breaker \<Rightarrow> circuit_breaker" where
  "cb_step (Ev_Check now) b = snd (cb_check now b)"
| "cb_step Ev_Success b = cb_on_success b"
| "cb_step (Ev_Failure now r) b = cb_on_failure now r b"

lemma cb_step_eq: "cb_step = cb.step"
  by (intro ext, rename_tac e b, case_tac e) simp_all

lemma cb_run:
  "cb_inv (fold cb_step es (cb_new sid))"
  "cb_abs (fold cb_step es (cb_new sid)) = fold spec_step es (SClosed 0)"
  using cb.run_refines [of "cb_new sid" es] by (simp_all add: cb_step_eq)

fun is_failure :: "breaker_event \<Rightarrow> bool" where
  "is_failure (Ev_Failure _ _) = True"
| "is_failure _ = False"

lemma spec_failures:
  "list_all is_failure es \<Longrightarrow> n < 5 \<Longrightarrow>
   (\<exists>t. fold spec_step es (SClosed n) =
      (if n + length es < 5 then SClosed (n + length es) else SOpen t))"
proof (induction es arbitrary: n)
  case (Cons e es)
  then obtain now r where e: "e = Ev_Failure now r" by (cases e) auto
  have open_stays: "fold spec_step es (SOpen t) = SOpen t" if "list_all is_failure es" for t
    using that by (induction es) (auto elim: is_failure.elims)
  from Cons e open_stays [of now] Cons.IH [of "Suc n"] show ?case
    by (cases "Suc n < 5") auto
qed simp

lemma observe_abs:
  "cb_inv b \<Longrightarrow> cb_observe b =
     (case cb_abs b of SClosed _ \<Rightarrow> Closed | SOpen _ \<Rightarrow> Open | SHalfOpen _ _ \<Rightarrow> HalfOpen)"
  using state_cases [of "cb_state b"]
  by (auto simp: cb_inv_def cb_observe_def cb_abs_def cb_consts)

text \<open>
  C27: Every sequence of \<open>check\<close>, \<open>on_success\<close> and \<open>on_failure\<close> calls on a new breaker
  follows the abstract machine closed -- open -- half open, a following \<open>check\<close> admits the
  call exactly when the machine does, and the gauges, once published, always show the breaker's
  current state code and failure count.
\<close>

theorem breaker_refines_machine:
  "cb_abs (fold cb_step es (cb_new sid)) = fold spec_step es (SClosed 0) \<and>
   is_ok (fst (cb_check now (fold cb_step es (cb_new sid)))) =
     fst (spec_check now (fold spec_step es (SClosed 0))) \<and>
   cb_gauges (fold cb_step es (cb_new sid)) \<in>
     {None, Some (cb_state (fold cb_step es (cb_new sid)),
                  cb_consecutive_failures (fold cb_step es (cb_new sid)))}"
  using cb_run [of es sid] cb_check_abs [OF cb_run(1) [of es sid], of now]
  by (auto simp: cb_inv_def split: option.splits)

text \<open>
  From a new breaker, a run of consecutive failures opens the circuit exactly at the fifth:
  fewer leave it closed, and from the fifth on it is open.
\<close>

theorem breaker_opens_at_threshold:
  assumes "list_all is_failure es"
  shows "cb_observe (fold cb_step es (cb_new sid)) = (if length es < 5 then Closed else Open)"
  using spec_failures [OF assms, of 0] observe_abs [OF cb_run(1) [of es sid]] cb_run(2) [of es sid]
  by (auto split: if_splits)

theorem breaker_opens_at_threshold_witness:
  "cb_observe (fold cb_step (replicate 5 (Ev_Failure 100 None)) (cb_new 7)) = Open"
  by (subst breaker_opens_at_threshold) (simp_all add: eval_nat_numeral)

text \<open>
  An open breaker refuses every call for thirty seconds. At the first call after that, and
  however its answer is used later, exactly that call is admitted as a probe: the next one is
  refused until the probe's outcome is recorded.
\<close>

theorem breaker_open_window:
  assumes b: "b = fold cb_step es (cb_new sid)" and "cb_observe b = Open"
  shows "(now - cb_open_since_secs b < 30 \<longrightarrow>
            \<not> is_ok (fst (cb_check now b)) \<and> snd (cb_check now b) = b) \<and>
         (30 \<le> now - cb_open_since_secs b \<longrightarrow>
            is_ok (fst (cb_check now b)) \<and> cb_observe (snd (cb_check now b)) = HalfOpen \<and>
            \<not> is_ok (fst (cb_check later (snd (cb_check now b)))))"
proof -
  have inv: "cb_inv b" by (simp add: b cb_run)
  have abs: "cb_abs b = SOpen (cb_open_since_secs b)"
    using assms(2) inv by (auto simp: cb_observe_def cb_abs_def split: if_splits)
  have same: "snd (cb_check now b) = b" if "now - cb_open_since_secs b < 30"
    using assms(2) that
    by (auto simp: cb_observe_def cb_check_def cb_consts saturating_elapsed Let_def split: if_splits)
  show ?thesis
    using cb.refused_in_window [OF inv abs, of now] same
      cb.admits_one_probe [OF inv abs, of now later] observe_abs [OF cb_check_inv [OF inv]]
    by auto
qed

theorem breaker_open_window_witness:
  "let b = fold cb_step (replicate 5 (Ev_Failure 100 None)) (cb_new 7) in
   cb_observe b = Open \<and> cb_open_since_secs b = 100 \<and>
   \<not> is_ok (fst (cb_check 129 b)) \<and> is_ok (fst (cb_check 130 b)) \<and>
   \<not> is_ok (fst (cb_check 131 (snd (cb_check 130 b))))"
proof -
  define b where "b = fold cb_step (replicate 5 (Ev_Failure 100 None)) (cb_new 7)"
  have o: "cb_observe b = Open" and t: "cb_open_since_secs b = 100"
    unfolding b_def by code_simp+
  show ?thesis
    using breaker_open_window [OF b_def o, of 129 0] breaker_open_window [OF b_def o, of 130 131] o t
    unfolding b_def [symmetric] Let_def by simp
qed

end
