(* ===== verification/Breaker_Race.thy ===== *)
theory Breaker_Race
  imports Circuit_Breaker
begin

text \<open>
  The circuit breaker under concurrent callers. A caller's program counter walks through the
  atomic accesses of \<open>check\<close>, \<open>on_success\<close> and \<open>on_failure\<close> in the order of
  \<open>services/gateway/src/circuit_breaker.rs\<close>; one step of the system is one access of one
  caller (sequential consistency, which the acquire/release orderings of the source do not
  exceed). The gauges of \<open>publish_metrics\<close> are not part of this model: they are written only
  for observation. A caller left alone computes exactly what the methods of
  \<open>Circuit_Breaker\<close> compute; interleaved callers do not.
\<close>

section \<open>One atomic access of one caller\<close>

datatype pc =
    Idle
  | C_Load | C_OpenSince | C_Cas | C_ResetSuccesses | C_ResetProbe | C_Reload | C_Probe | C_Err
  | C_Done "circuit_error + unit"
  | S_Load | S_ClosedStore | S_Inc | S_Cas | S_StoreFailures | S_StoreProbe | S_StoreRetry | S_Release
  | F_Retry "u64 option" | F_Load | F_Inc | F_Cas | F_StoreSince
  | F_HalfCas | F_HalfSince | F_HalfFailures | F_HalfProbe
  | Finished

fun micro_check :: "int \<Rightarrow> pc \<Rightarrow> circuit_breaker \<Rightarrow> pc \<times> circuit_breaker" where
  "micro_check now C_Load b =
     (if cb_state b = STATE_CLOSED then C_Done (Inr ())
      else if cb_state b = STATE_OPEN then C_OpenSince
      else if cb_state b = STATE_HALF_OPEN then C_Probe
      else C_Done (Inr ()), b)"
| "micro_check now C_OpenSince b =
     (if saturating_sub_i64 now (cb_open_since_secs b) \<ge> OPEN_DURATION_SECS then C_Cas else C_Err, b)"
| "micro_check now C_Cas b =
     (case compare_exchange STATE_OPEN STATE_HALF_OPEN (cb_state b) of
        (True, s) \<Rightarrow> (C_ResetSuccesses, b\<lparr>cb_state := s\<rparr>)
      | (False, _) \<Rightarrow> (C_Reload, b))"
| "micro_check now C_ResetSuccesses b = (C_ResetProbe, b\<lparr>cb_consecutive_successes := 0\<rparr>)"
| "micro_check now C_ResetProbe b = (C_Probe, b\<lparr>cb_probe_in_progress := False\<rparr>)"
| "micro_check now C_Reload b = (if cb_state b = STATE_HALF_OPEN then C_Probe else C_Err, b)"
| "micro_check now C_Probe b =
     (case compare_exchange False True (cb_probe_in_progress b) of
        (True, p) \<Rightarrow> (C_Done (Inr ()), b\<lparr>cb_probe_in_progress := p\<rparr>)
      | (False, _) \<Rightarrow> (C_Err, b))"
| "micro_check now C_Err b = (C_Done (Inl (CircuitError_Open (cb_retry_after_ms b))), b)"
| "micro_check now p b = (p, b)"

fun micro_success :: "pc \<Rightarrow> circuit_breaker \<Rightarrow> pc \<times> circuit_breaker" where
  "micro_success S_Load b =
     (if cb_state b = STATE_CLOSED then S_ClosedStore
      else if cb_state b = STATE_HALF_OPEN then S_Inc
      else Finished, b)"
| "micro_success S_ClosedStore b = (Finished, b\<lparr>cb_consecutive_failures := 0\<rparr>)"
| "micro_success S_Inc b =
     (let successes = cb_consecutive_successes b + 1
      in (if successes \<ge> HALF_OPEN_SUCCESS_THRESHOLD then S_Cas else S_Release,
          b\<lparr>cb_consecutive_successes := successes\<rparr>))"
| "micro_success S_Cas b =
     (case compare_exchange STATE_HALF_OPEN STATE_CLOSED (cb_state b) of
        (True, s) \<Rightarrow> (S_StoreFailures, b\<lparr>cb_state := s\<rparr>)
      | (False, _) \<Rightarrow> (Finished, b))"
| "micro_success S_StoreFailures b = (S_StoreProbe, b\<lparr>cb_consecutive_failures := 0\<rparr>)"
| "micro_success S_StoreProbe b = (S_StoreRetry, b\<lparr>cb_probe_in_progress := False\<rparr>)"
| "micro_success S_StoreRetry b = (Finished, b\<lparr>cb_retry_after_ms := DEFAULT_RETRY_AFTER_MS\<rparr>)"
| "micro_success S_Release b = (Finished, b\<lparr>cb_probe_in_progress := False\<rparr>)"
| "micro_success p b = (p, b)"

fun micro_failure :: "int \<Rightarrow> pc \<Rightarrow> circuit_breaker \<Rightarrow> pc \<times> circuit_breaker" where
  "micro_failure now (F_Retry r) b =
     (F_Load, case r of Some ms \<Rightarrow> b\<lparr>cb_retry_after_ms := ms\<rparr> | None \<Rightarrow> b)"
| "micro_failure now F_Load b =
     (if cb_state b = STATE_CLOSED then F_Inc
      else if cb_state b = STATE_HALF_OPEN then F_HalfCas
      else Finished, b)"
| "micro_failure now F_Inc b =
     (let failures = cb_consecutive_failures b + 1
      in (if failures \<ge> FAILURE_THRESHOLD then F_Cas else Finished,
          b\<lparr>cb_consecutive_failures := failures\<rparr>))"
| "micro_failure now F_Cas b =
     (case compare_exchange STATE_CLOSED STATE_OPEN (cb_state b) of
        (True, s) \<Rightarrow> (F_StoreSince, b\<lparr>cb_state := s\<rparr>)
      | (False, _) \<Rightarrow> (Finished, b))"
| "micro_failure now F_StoreSince b = (Finished, b\<lparr>cb_open_since_secs := now\<rparr>)"
| "micro_failure now F_HalfCas b =
     (case compare_exchange STATE_HALF_OPEN STATE_OPEN (cb_state b) of
        (True, s) \<Rightarrow> (F_HalfSince, b\<lparr>cb_state := s\<rparr>)
      | (False, _) \<Rightarrow> (Finished, b))"
| "micro_failure now F_HalfSince b = (F_HalfFailures, b\<lparr>cb_open_since_secs := now\<rparr>)"
| "micro_failure now F_HalfFailures b = (F_HalfProbe, b\<lparr>cb_consecutive_failures := 1\<rparr>)"
| "micro_failure now F_HalfProbe b = (Finished, b\<lparr>cb_probe_in_progress := False\<rparr>)"
| "micro_failure now p b = (p, b)"

section \<open>A caller left alone\<close>

text \<open>The longest method makes seven accesses; a finished caller stays where it is.\<close>

definition micro_steps :: nat where "micro_steps = 7"

definition alone :: "(pc \<Rightarrow> circuit_breaker \<Rightarrow> pc \<times> circuit_breaker) \<Rightarrow> pc \<Rightarrow> circuit_breaker \<Rightarrow> pc \<times> circuit_breaker" where
  "alone m p b = ((\<lambda>(p, b). m p b) ^^ micro_steps) (p, b)"

definition no_gauges :: "circuit_breaker \<Rightarrow> circuit_breaker" where
  "no_gauges b = b\<lparr>cb_gauges := None\<rparr>"

lemma alone_unfold:
  "alone m p b =
     (let f = (\<lambda>(p, b). m p b) in f (f (f (f (f (f (f (p, b))))))))"
  by (simp add: alone_def micro_steps_def eval_nat_numeral Let_def)

lemma no_gauges_simps [simp]:
  "cb_state (no_gauges b) = cb_state b"
  "cb_open_since_secs (no_gauges b) = cb_open_since_secs b"
  "cb_probe_in_progress (no_gauges b) = cb_probe_in_progress b"
  "cb_retry_after_ms (no_gauges b) = cb_retry_after_ms b"
  "cb_consecutive_failures (no_gauges b) = cb_consecutive_failures b"
  "cb_consecutive_successes (no_gauges b) = cb_consecutive_successes b"
  by (simp_all add: no_gauges_def)

lemma alone_check:
  "alone (micro_check now) C_Load (no_gauges b) =
     (C_Done (fst (cb_check now b)), no_gauges (snd (cb_check now b)))"
  by (simp add: alone_unfold Let_def cb_ops cb_consts compare_exchange_def no_gauges_def)

lemma alone_success:
  "alone micro_success S_Load (no_gauges b) = (Finished, no_gauges (cb_on_success b))"
  by (simp add: alone_unfold Let_def cb_ops cb_consts compare_exchange_def no_gauges_def)

lemma alone_failure:
  "alone (micro_failure now) (F_Retry r) (no_gauges b) = (Finished, no_gauges (cb_on_failure now r b))"
  by (simp add: alone_unfold Let_def cb_ops cb_consts compare_exchange_def no_gauges_def
      split: option.split)

text \<open>
  A caller that is not interleaved with others ends, after at most seven atomic accesses, with
  the answer and the breaker that \<open>check\<close>, \<open>on_success\<close> and \<open>on_failure\<close> compute as
  uninterrupted methods (the observation-only gauges apart).
\<close>

theorem breaker_alone_is_sequential:
  "alone (micro_check now) C_Load (no_gauges b) =
     (C_Done (fst (cb_check now b)), no_gauges (snd (cb_check now b))) \<and>
   alone micro_success S_Load (no_gauges b) = (Finished, no_gauges (cb_on_success b)) \<and>
   alone (micro_failure now) (F_Retry r) (no_gauges b) = (Finished, no_gauges (cb_on_failure now r b))"
  by (intro conjI alone_check alone_success alone_failure)

section \<open>Interleaved callers\<close>

record breaker_sys =
  bs_breaker :: circuit_breaker
  bs_pcs :: "nat \<Rightarrow> pc"

definition set_caller :: "nat \<Rightarrow> pc \<times> circuit_breaker \<Rightarrow> breaker_sys \<Rightarrow> breaker_sys" where
  "set_caller i r s = s\<lparr>bs_breaker := snd r, bs_pcs := (bs_pcs s)(i := fst r)\<rparr>"

inductive breaker_sys_step :: "breaker_sys \<Rightarrow> breaker_sys \<Rightarrow> bool" where
  begin_check: "bs_pcs s i = Idle \<Longrightarrow>
     breaker_sys_step s (set_caller i (C_Load, bs_breaker s) s)"
| check_access: "breaker_sys_step s (set_caller i (micro_check now (bs_pcs s i) (bs_breaker s)) s)"
| begin_success: "bs_pcs s i = C_Done (Inr ()) \<Longrightarrow>
     breaker_sys_step s (set_caller i (S_Load, bs_breaker s) s)"
| success_access: "breaker_sys_step s (set_caller i (micro_success (bs_pcs s i) (bs_breaker s)) s)"
| begin_failure: "bs_pcs s i = C_Done (Inr ()) \<Longrightarrow>
     breaker_sys_step s (set_caller i (F_Retry r, bs_breaker s) s)"
| failure_access: "breaker_sys_step s (set_caller i (micro_failure now (bs_pcs s i) (bs_breaker s)) s)"
| return_refused: "bs_pcs s i = C_Done (Inl e) \<Longrightarrow>
     breaker_sys_step s (set_caller i (Idle, bs_breaker s) s)"
| return_recorded: "bs_pcs s i = Finished \<Longrightarrow>
     breaker_sys_step s (set_caller i (Idle, bs_breaker s) s)"

inductive_simps breaker_sys_step_iff: "breaker_sys_step s t"

text \<open>Everybody is idle and the breaker is one that uninterrupted calls can produce.\<close>

definition quiet :: "breaker_event list \<Rightarrow> uuid \<Rightarrow> breaker_sys" where
  "quiet es sid = \<lparr>bs_breaker = no_gauges (fold cb_step es (cb_new sid)), bs_pcs = (\<lambda>_. Idle)\<rparr>"

lemma micro_state_valid:
  assumes "cb_state b \<le> 2"
  shows "cb_state (snd (micro_check now p b)) \<le> 2" "cb_state (snd (micro_success p b)) \<le> 2"
    "cb_state (snd (micro_failure now p b)) \<le> 2"
  using assms
  by (cases p; simp add: Let_def compare_exchange_def cb_consts split: option.split)+

text \<open>Under any interleaving of any number of callers the state word stays a valid code.\<close>

lemma interleaved_state_valid:
  assumes "reach (\<lambda>s. s = quiet es sid) breaker_sys_step s"
  shows "cb_state (bs_breaker s) \<le> STATE_HALF_OPEN"
  using assms
proof (rule reach_invariant)
  show "cb_state (bs_breaker s) \<le> STATE_HALF_OPEN" if "s = quiet es sid" for s
    using that cb_run(1) [of es sid] by (simp add: quiet_def cb_inv_def)
  show "cb_state (bs_breaker t) \<le> STATE_HALF_OPEN"
    if "cb_state (bs_breaker s) \<le> STATE_HALF_OPEN" "breaker_sys_step s t" for s t
    using that(2,1)
    by cases (simp_all add: set_caller_def STATE_HALF_OPEN_def micro_state_valid)
qed

section \<open>Two probes in one half-open window\<close>

definition check_by :: "nat \<Rightarrow> int \<Rightarrow> breaker_sys \<Rightarrow> breaker_sys" where
  "check_by i now s =
     set_caller i (if bs_pcs s i = Idle then (C_Load, bs_breaker s)
                   else micro_check now (bs_pcs s i) (bs_breaker s)) s"

lemma reach_check_by: "reach init breaker_sys_step s \<Longrightarrow>
    reach init breaker_sys_step (check_by i now s)"
  by (auto simp: check_by_def intro: reach_step breaker_sys_step.intros)

lemma reach_schedule: "reach init breaker_sys_step s \<Longrightarrow>
    reach init breaker_sys_step (fold (\<lambda>i. check_by i now) is s)"
  by (induction "is" arbitrary: s) (auto intro: reach_check_by)

text \<open>
  The half-open state does not bound the probes to one when callers interleave. After five
  failures the circuit is open; thirty seconds later caller 0 wins the exchange to half open,
  caller 1 then sees half open and takes the probe slot, and caller 0's reset of the slot frees it
  again for itself: both hold an admitted probe while the circuit is half open.
\<close>

theorem breaker_two_probes:
  "\<exists>s. reach (\<lambda>s. s = quiet (replicate 5 (Ev_Failure 100 None)) 7) breaker_sys_step s \<and>
       cb_observe (bs_breaker s) = HalfOpen \<and>
       bs_pcs s 0 = C_Done (Inr ()) \<and> bs_pcs s 1 = C_Done (Inr ())"
proof -
  let ?q = "quiet (replicate 5 (Ev_Failure 100 None)) 7"
  let ?s = "fold (\<lambda>i. check_by i 130) [0, 0, 0, 0, 1, 1, 1, 0, 0, 0] ?q"
  have "reach (\<lambda>s. s = ?q) breaker_sys_step ?s"
    by (intro reach_schedule reach_init refl)
  moreover have "cb_observe (bs_breaker ?s) = HalfOpen \<and>
      bs_pcs ?s 0 = C_Done (Inr ()) \<and> bs_pcs ?s 1 = C_Done (Inr ())"
    by code_simp
  ultimately show ?thesis by blast
qed

end
