(* ===== verification/Json.thy ===== *)
theory Json
  imports Prelude "HOL-Library.List_Lexorder" "HOL-Library.Char_ord"
begin

text \<open>
  JSON values as the services handle them (\<open>serde_json::Value\<close>, built without
  \<open>preserve_order\<close>): an object is a list of fields with strictly ascending keys, which is what
  a \<open>BTreeMap\<close> iterates over. A number is one of serde's three forms; a float is kept as its
  IEEE 754 bit pattern. Parsing and printing of JSON text belong to serde_json and are parameters
  of the definitions that use them.
\<close>

section \<open>Values\<close>

datatype json_number = PosInt u64 | NegInt int | Float u64

datatype json =
    Null
  | Bool bool
  | Number json_number
  | String string
  | Array "json list"
  | Object "(string \<times> json) list"

lemma size_json_array [termination_simp]: "x \<in> set xs \<Longrightarrow> size x < Suc (size_list size xs)"
  by (metis le_imp_less_Suc order_refl size_list_estimation')

lemma size_json_object [termination_simp]:
  "(k, v) \<in> set kvs \<Longrightarrow> size v < Suc (size_list (size_prod (\<lambda>_. 0) size) kvs)"
  by (induction kvs) auto

section \<open>Ordered maps\<close>

fun obj_get :: "string \<Rightarrow> (string \<times> 'a) list \<Rightarrow> 'a option" where
  "obj_get k [] = None"
| "obj_get k ((k', v) # kvs) = (if k = k' then Some v else obj_get k kvs)"

fun obj_insert :: "string \<Rightarrow> 'a \<Rightarrow> (string \<times> 'a) list \<Rightarrow> (string \<times> 'a) list" where
  "obj_insert k v [] = [(k, v)]"
| "obj_insert k v ((k', v') # kvs) =
     (if k < k' then (k, v) # (k', v') # kvs
      else if k = k' then (k, v) # kvs
      else (k', v') # obj_insert k v kvs)"

definition obj_remove :: "string \<Rightarrow> (string \<times> 'a) list \<Rightarrow> (string \<times> 'a) list" where
  "obj_remove k kvs = filter (\<lambda>(k', _). k' \<noteq> k) kvs"

definition obj_ok :: "(string \<times> 'a) list \<Rightarrow> bool" where
  "obj_ok kvs = sorted_wrt (<) (map fst kvs)"

definition obj_of :: "(string \<times> 'a) list \<Rightarrow> (string \<times> 'a) list" where
  "obj_of kvs = fold (\<lambda>(k, v). obj_insert k v) kvs []"

lemma obj_get_insert [simp]:
  "obj_ok kvs \<Longrightarrow> obj_get k' (obj_insert k v kvs) = (if k' = k then Some v else obj_get k' kvs)"
  by (induction k v kvs rule: obj_insert.induct) (auto simp: obj_ok_def)

lemma obj_keys_insert [simp]: "fst ` set (obj_insert k v kvs) = insert k (fst ` set kvs)"
  by (induction k v kvs rule: obj_insert.induct) auto

lemma obj_ok_insert [simp]: "obj_ok kvs \<Longrightarrow> obj_ok (obj_insert k v kvs)"
proof (induction k v kvs rule: obj_insert.induct)
  case (2 k v k' v' kvs)
  have "k' < x" if "x \<in> fst ` set (obj_insert k v kvs)" "\<not> k < k'" "k \<noteq> k'" for x
    using that 2(2) by (auto simp: obj_ok_def)
  with 2 show ?case by (auto simp: obj_ok_def)
qed (simp add: obj_ok_def)

lemma obj_ok_Nil [simp]: "obj_ok []"
  by (simp add: obj_ok_def)

lemma obj_get_remove [simp]: "obj_get k' (obj_remove k kvs) = (if k' = k then None else obj_get k' kvs)"
  by (induction kvs) (auto simp: obj_remove_def)

lemma obj_ok_remove [simp]: "obj_ok kvs \<Longrightarrow> obj_ok (obj_remove k kvs)"
  by (induction kvs) (auto simp: obj_ok_def obj_remove_def)

text \<open>
  What the clients of serde's \<open>Map\<close> rely on. A loop of inserts gives each key the last value
  inserted for it, and does not disturb the others.
\<close>

locale string_map =
  fixes get :: "string \<Rightarrow> 'm \<Rightarrow> 'a option"
    and ins :: "string \<Rightarrow> 'a \<Rightarrow> 'm \<Rightarrow> 'm"
    and rem :: "string \<Rightarrow> 'm \<Rightarrow> 'm"
    and empty :: 'm
    and ok :: "'m \<Rightarrow> bool"
  assumes empty_ok: "ok empty" and get_empty: "get k empty = None"
    and ins_ok: "ok m \<Longrightarrow> ok (ins k v m)" and rem_ok: "ok m \<Longrightarrow> ok (rem k m)"
    and get_ins: "ok m \<Longrightarrow> get k' (ins k v m) = (if k' = k then Some v else get k' m)"
    and get_rem: "ok m \<Longrightarrow> get k' (rem k m) = (if k' = k then None else get k' m)"
begin

lemma fold_ins_ok: "ok m \<Longrightarrow> ok (fold (\<lambda>(k, v). ins k v) kvs m)"
  by (induction kvs arbitrary: m) (auto simp: ins_ok)

lemma get_fold_ins:
  "ok m \<Longrightarrow> get k (fold (\<lambda>(k, v). ins k v) kvs m) =
     (case map_of (rev kvs) k of Some v \<Rightarrow> Some v | None \<Rightarrow> get k m)"
proof (induction kvs arbitrary: m)
  case (Cons kv kvs)
  obtain a v where kv: "kv = (a, v)" by (cases kv)
  show ?case
    using Cons by (auto simp: kv ins_ok get_ins map_add_def split: option.splits)
qed simp

end

interpretation obj: string_map obj_get obj_insert obj_remove "[]" obj_ok
  by unfold_locales simp_all

lemma obj_ok_of [simp]: "obj_ok (obj_of kvs)"
  unfolding obj_of_def by (rule obj.fold_ins_ok) simp

lemma obj_get_of: "obj_get k (obj_of kvs) = map_of (rev kvs) k"
  unfolding obj_of_def by (subst obj.get_fold_ins) (simp_all split: option.split)

lemma obj_insert_last: "\<forall>k' \<in> fst ` set kvs. k' < k \<Longrightarrow> obj_insert k v kvs = kvs @ [(k, v)]"
  by (induction kvs) auto

lemma fold_obj_insert_sorted:
  "obj_ok (acc @ kvs) \<Longrightarrow> fold (\<lambda>(k, v). obj_insert k v) kvs acc = acc @ kvs"
proof (induction kvs arbitrary: acc)
  case (Cons kv kvs)
  obtain k v where kv: "kv = (k, v)" by (cases kv)
  have "obj_insert k v acc = acc @ [(k, v)]"
    using Cons.prems by (intro obj_insert_last) (auto simp: kv obj_ok_def sorted_wrt_append)
  with Cons show ?case by (simp add: kv)
qed simp

text \<open>Rebuilding an object field by field in its own order gives the same object.\<close>

lemma obj_of_sorted: "obj_ok kvs \<Longrightarrow> obj_of kvs = kvs"
  unfolding obj_of_def using fold_obj_insert_sorted [of "[]" kvs] by simp

lemma obj_get_map: "obj_get k (map (\<lambda>(k, v). (k, f v)) kvs) = map_option f (obj_get k kvs)"
  by (induction kvs) auto

lemma obj_get_mem: "obj_get k kvs = Some v \<Longrightarrow> (k, v) \<in> set kvs"
  by (induction kvs) (auto split: if_splits)

lemma obj_get_in_iff: "(\<exists>v. obj_get k kvs = Some v) \<longleftrightarrow> k \<in> fst ` set kvs"
  by (induction kvs) auto

section \<open>Well-formed values\<close>

fun json_ok :: "json \<Rightarrow> bool" where
  "json_ok (Array xs) = (\<forall>x \<in> set xs. json_ok x)"
| "json_ok (Object kvs) = (obj_ok kvs \<and> (\<forall>kv \<in> set kvs. json_ok (snd kv)))"
| "json_ok (Number (NegInt i)) = (i64_min \<le> i \<and> i < 0)"
| "json_ok _ = True"

section \<open>Accessors\<close>

fun value_get :: "string \<Rightarrow> json \<Rightarrow> json option" where
  "value_get k (Object kvs) = obj_get k kvs"
| "value_get k _ = None"

fun as_str :: "json \<Rightarrow> string option" where
  "as_str (String s) = Some s"
| "as_str _ = None"

fun as_array :: "json \<Rightarrow> json list option" where
  "as_array (Array xs) = Some xs"
| "as_array _ = None"

fun as_object :: "json \<Rightarrow> (string \<times> json) list option" where
  "as_object (Object kvs) = Some kvs"
| "as_object _ = None"

fun as_bool :: "json \<Rightarrow> bool option" where
  "as_bool (Bool b) = Some b"
| "as_bool _ = None"

text \<open>\<open>json!\<close> object literals.\<close>

definition json_obj :: "(string \<times> json) list \<Rightarrow> json" where
  "json_obj kvs = Object (obj_of kvs)"

text \<open>\<open>json!(n)\<close> of a signed integer.\<close>

definition json_int :: "int \<Rightarrow> json" where
  "json_int i = Number (if i < 0 then NegInt i else PosInt (word_of_int i))"

end
