(* ===== verification/Config_Cache.thy ===== *)
theory Config_Cache
  imports Json
begin

text \<open>
  The gateway's configuration cache (\<open>services/gateway/src/cache.rs\<close>): the moka cache as an
  association list, the slug index beside it, the eviction listener, the database queries with
  their column lists, and the contract \<open>config_store\<close> the router and the hot-reload task use.

  Of moka only the container is used: a key holds the value inserted last until it is invalidated
  or evicted; an eviction for age or size is the separate operation \<open>cache_evict\<close>, which may
  happen at any moment. Timestamps are microseconds. Prometheus counters are not modelled (the
  cache's own counters are).
\<close>

section \<open>Data\<close>

definition CACHE_MAX_CAPACITY :: u64 where "CACHE_MAX_CAPACITY = 500000"
definition CACHE_TTI_SECS :: u64 where "CACHE_TTI_SECS = 3600"

record server_config =
  sc_id :: uuid
  sc_user_id :: uuid
  sc_name :: string
  sc_slug :: string
  sc_description :: "string option"
  sc_config_json :: json
  sc_status :: string
  sc_config_version :: int
  sc_token_hash :: "string option"
  sc_token_prefix :: "string option"
  sc_max_connections :: u32
  sc_created_at :: int
  sc_updated_at :: int

record cache_stats =
  cs_total_entries :: u64
  cs_hit_count :: u64
  cs_miss_count :: u64
  cs_eviction_count :: u64

datatype removal_cause = Expired | Explicit | Replaced | Size

record config_cache =
  cc_inner :: "(uuid \<times> server_config) list"
  cc_slug_index :: "(string \<times> uuid) list"
  cc_hit_count :: u64
  cc_miss_count :: u64
  cc_eviction_count :: u64
  cc_cache_loaded :: bool

section \<open>Rows of the database\<close>

text \<open>
  A row returned by a query: the selected columns by name. \<open>try_get\<close> fails on a column that
  is missing, null where the target type is not an \<open>Option\<close>, or of another type.
\<close>

datatype pg_value =
  Pg_Uuid uuid | Pg_Text "string option" | Pg_Int4 int | Pg_Int8 int | Pg_Jsonb json | Pg_Timestamptz int

datatype sqlx_error = ColumnNotFound string | ColumnDecode string | Database string

type_synonym pg_row = "(string \<times> pg_value) list"

definition try_get :: "(pg_value \<Rightarrow> 'a option) \<Rightarrow> pg_row \<Rightarrow> string \<Rightarrow> sqlx_error + 'a" where
  "try_get dec row col =
     and_then (ok_or (ColumnNotFound col) (map_of row col)) (\<lambda>v. ok_or (ColumnDecode col) (dec v))"

fun pg_uuid where "pg_uuid (Pg_Uuid u) = Some u" | "pg_uuid _ = None"
fun pg_text where "pg_text (Pg_Text t) = t" | "pg_text _ = None"
fun pg_opt_text where "pg_opt_text (Pg_Text t) = Some t" | "pg_opt_text _ = None"
fun pg_int4 where "pg_int4 (Pg_Int4 i) = Some i" | "pg_int4 _ = None"
fun pg_int8 where "pg_int8 (Pg_Int8 i) = Some i" | "pg_int8 _ = None"
fun pg_jsonb where "pg_jsonb (Pg_Jsonb j) = Some j" | "pg_jsonb _ = None"
fun pg_timestamptz where "pg_timestamptz (Pg_Timestamptz t) = Some t" | "pg_timestamptz _ = None"

definition row_to_server_config :: "pg_row \<Rightarrow> sqlx_error + server_config" where
  "row_to_server_config row =
     (let max_connections =
        (case try_get pg_int4 row ''max_connections'' of Inr n \<Rightarrow> n | Inl _ \<Rightarrow> 50)
      in and_then (try_get pg_uuid row ''id'') (\<lambda>i.
         and_then (try_get pg_uuid row ''user_id'') (\<lambda>u.
         and_then (try_get pg_text row ''name'') (\<lambda>n.
         and_then (try_get pg_text row ''slug'') (\<lambda>s.
         and_then (try_get pg_opt_text row ''description'') (\<lambda>d.
         and_then (try_get pg_jsonb row ''config_json'') (\<lambda>j.
         and_then (try_get pg_text row ''status'') (\<lambda>st.
         and_then (try_get pg_int8 row ''config_version'') (\<lambda>v.
         and_then (try_get pg_opt_text row ''token_hash'') (\<lambda>th.
         and_then (try_get pg_opt_text row ''token_prefix'') (\<lambda>tp.
         and_then (try_get pg_timestamptz row ''created_at'') (\<lambda>c.
         and_then (try_get pg_timestamptz row ''updated_at'') (\<lambda>up.
           Inr \<lparr>sc_id = i, sc_user_id = u, sc_name = n, sc_slug = s, sc_description = d,
                sc_config_json = j, sc_status = st, sc_config_version = v, sc_token_hash = th,
                sc_token_prefix = tp, sc_max_connections = word_of_int (max max_connections 0),
                sc_created_at = c, sc_updated_at = up\<rparr>)))))))))))))"

text \<open>The table \<open>mcp_servers\<close> and the projection of a row to the columns of a \<open>SELECT\<close>.\<close>

record mcp_server =
  db_id :: uuid
  db_user_id :: uuid
  db_name :: string
  db_slug :: string
  db_description :: "string option"
  db_config_json :: json
  db_status :: string
  db_config_version :: int
  db_token_hash :: "string option"
  db_token_prefix :: "string option"
  db_max_connections :: int
  db_created_at :: int
  db_updated_at :: int

definition all_columns :: "mcp_server \<Rightarrow> pg_row" where
  "all_columns r =
     [(''id'', Pg_Uuid (db_id r)), (''user_id'', Pg_Uuid (db_user_id r)),
      (''name'', Pg_Text (Some (db_name r))), (''slug'', Pg_Text (Some (db_slug r))),
      (''description'', Pg_Text (db_description r)), (''config_json'', Pg_Jsonb (db_config_json r)),
      (''status'', Pg_Text (Some (db_status r))), (''config_version'', Pg_Int8 (db_config_version r)),
      (''token_hash'', Pg_Text (db_token_hash r)), (''token_prefix'', Pg_Text (db_token_prefix r)),
      (''max_connections'', Pg_Int4 (db_max_connections r)),
      (''created_at'', Pg_Timestamptz (db_created_at r)),
      (''updated_at'', Pg_Timestamptz (db_updated_at r))]"

definition select_columns :: "string list \<Rightarrow> mcp_server \<Rightarrow> pg_row" where
  "select_columns cols r = filter (\<lambda>(c, _). c \<in> set cols) (all_columns r)"

definition cache_columns :: "string list" where
  "cache_columns =
     [''id'', ''user_id'', ''name'', ''slug'', ''description'', ''config_json'', ''status'',
      ''config_version'', ''token_hash'', ''token_prefix'', ''max_connections'', ''created_at'',
      ''updated_at'']"

definition is_active :: "mcp_server \<Rightarrow> bool" where
  "is_active r = (db_status r = ''active'')"

text \<open>\<open>SELECT cols FROM mcp_servers WHERE id = $1 AND status = 'active'\<close>, and without the id.\<close>

definition select_active_by_id :: "string list \<Rightarrow> mcp_server list \<Rightarrow> uuid \<Rightarrow> pg_row option" where
  "select_active_by_id cols tbl sid =
     map_option (select_columns cols) (find (\<lambda>r. db_id r = sid \<and> is_active r) tbl)"

definition select_active :: "string list \<Rightarrow> mcp_server list \<Rightarrow> pg_row list" where
  "select_active cols tbl = map (select_columns cols) (filter is_active tbl)"

section \<open>Operations\<close>

definition cache_new :: config_cache where
  "cache_new =
     \<lparr>cc_inner = [], cc_slug_index = [], cc_hit_count = 0, cc_miss_count = 0,
      cc_eviction_count = 0, cc_cache_loaded = False\<rparr>"

definition eviction_listener :: "server_config \<Rightarrow> removal_cause \<Rightarrow> config_cache \<Rightarrow> config_cache" where
  "eviction_listener value cause c0 =
     (let c = c0\<lparr>cc_eviction_count := cc_eviction_count c0 + 1\<rparr>
      in if cause \<noteq> Replaced then
           (let still_owned =
              (case map_of (cc_slug_index c) (sc_slug value) of Some v \<Rightarrow> v = sc_id value | None \<Rightarrow> False)
            in if still_owned then c\<lparr>cc_slug_index := AList.delete (sc_slug value) (cc_slug_index c)\<rparr>
               else c)
         else c)"

definition is_loaded :: "config_cache \<Rightarrow> bool" where
  "is_loaded c = cc_cache_loaded c"

definition entry_count :: "config_cache \<Rightarrow> u64" where
  "entry_count c = of_nat (length (cc_inner c))"

definition cache_get :: "uuid \<Rightarrow> config_cache \<Rightarrow> server_config option \<times> config_cache" where
  "cache_get sid c =
     (let result = map_of (cc_inner c) sid
      in (result,
          if result \<noteq> None then c\<lparr>cc_hit_count := cc_hit_count c + 1\<rparr>
          else c\<lparr>cc_miss_count := cc_miss_count c + 1\<rparr>))"

text \<open>moka's \<open>insert\<close>, \<open>invalidate\<close> and an eviction, each with the listener's call.\<close>

definition inner_insert :: "uuid \<Rightarrow> server_config \<Rightarrow> config_cache \<Rightarrow> config_cache" where
  "inner_insert sid cfg c =
     (let c1 = c\<lparr>cc_inner := AList.update sid cfg (cc_inner c)\<rparr>
      in case map_of (cc_inner c) sid of
           Some old \<Rightarrow> eviction_listener old Replaced c1
         | None \<Rightarrow> c1)"

definition inner_discard :: "removal_cause \<Rightarrow> uuid \<Rightarrow> config_cache \<Rightarrow> config_cache" where
  "inner_discard cause sid c =
     (case map_of (cc_inner c) sid of
        Some old \<Rightarrow> eviction_listener old cause (c\<lparr>cc_inner := AList.delete sid (cc_inner c)\<rparr>)
      | None \<Rightarrow> c)"

definition cache_evict :: "removal_cause \<Rightarrow> uuid \<Rightarrow> config_cache \<Rightarrow> config_cache" where
  "cache_evict cause sid c = (if cause \<in> {Expired, Size} then inner_discard cause sid c else c)"

definition cache_upsert :: "server_config \<Rightarrow> config_cache \<Rightarrow> config_cache" where
  "cache_upsert cfg c =
     inner_insert (sc_id cfg) cfg
       (c\<lparr>cc_slug_index := AList.update (sc_slug cfg) (sc_id cfg) (cc_slug_index c)\<rparr>)"

definition cache_remove :: "uuid \<Rightarrow> config_cache \<Rightarrow> config_cache" where
  "cache_remove sid c =
     inner_discard Explicit sid
       (case map_of (cc_inner c) sid of
          Some cfg \<Rightarrow>
            if map_of (cc_slug_index c) (sc_slug cfg) = Some sid
            then c\<lparr>cc_slug_index := AList.delete (sc_slug cfg) (cc_slug_index c)\<rparr> else c
        | None \<Rightarrow> c)"

definition slug_to_id :: "string \<Rightarrow> config_cache \<Rightarrow> uuid option" where
  "slug_to_id slug c = map_of (cc_slug_index c) slug"

definition cache_stats_of :: "config_cache \<Rightarrow> cache_stats" where
  "cache_stats_of c =
     \<lparr>cs_total_entries = entry_count c, cs_hit_count = cc_hit_count c,
      cs_miss_count = cc_miss_count c, cs_eviction_count = cc_eviction_count c\<rparr>"

text \<open>The database is the table, or the error every query returns.\<close>

definition get_or_fetch ::
  "sqlx_error + mcp_server list \<Rightarrow> uuid \<Rightarrow> config_cache \<Rightarrow> (sqlx_error + server_config option) \<times> config_cache" where
  "get_or_fetch db sid c0 =
     (case map_of (cc_inner c0) sid of
        Some cfg \<Rightarrow> (Inr (Some cfg), c0\<lparr>cc_hit_count := cc_hit_count c0 + 1\<rparr>)
      | None \<Rightarrow>
          let c = c0\<lparr>cc_miss_count := cc_miss_count c0 + 1\<rparr>
          in case db of
               Inl e \<Rightarrow> (Inl e, c)
             | Inr tbl \<Rightarrow>
                 (case select_active_by_id cache_columns tbl sid of
                    None \<Rightarrow> (Inr None, c)
                  | Some row \<Rightarrow>
                      (case row_to_server_config row of
                         Inl e \<Rightarrow> (Inl e, c)
                       | Inr cfg \<Rightarrow> (Inr (Some cfg), cache_upsert cfg c))))"

fun load_rows :: "pg_row list \<Rightarrow> config_cache \<Rightarrow> (sqlx_error + unit) \<times> config_cache" where
  "load_rows [] c = (Inr (), c)"
| "load_rows (row # rows) c =
     (case row_to_server_config row of
        Inl e \<Rightarrow> (Inl e, c)
      | Inr cfg \<Rightarrow> load_rows rows (cache_upsert cfg c))"

definition load_all :: "sqlx_error + mcp_server list \<Rightarrow> config_cache \<Rightarrow> (sqlx_error + nat) \<times> config_cache" where
  "load_all db c =
     (case db of
        Inl e \<Rightarrow> (Inl e, c)
      | Inr tbl \<Rightarrow>
          let rows = select_active cache_columns tbl
          in case load_rows rows c of
               (Inl e, c1) \<Rightarrow> (Inl e, c1)
             | (Inr _, c1) \<Rightarrow> (Inr (length rows), c1\<lparr>cc_cache_loaded := True\<rparr>))"

section \<open>The contract of the store\<close>

locale config_store =
  fixes lookup :: "'c \<Rightarrow> uuid \<Rightarrow> server_config option"
    and slugs :: "'c \<Rightarrow> string \<Rightarrow> uuid option"
    and upsert :: "server_config \<Rightarrow> 'c \<Rightarrow> 'c"
    and discard :: "uuid \<Rightarrow> 'c \<Rightarrow> 'c"
  assumes lookup_upsert: "lookup (upsert cfg c) = (lookup c)(sc_id cfg \<mapsto> cfg)"
    and slugs_upsert: "slugs (upsert cfg c) = (slugs c)(sc_slug cfg \<mapsto> sc_id cfg)"
    and lookup_discard: "lookup (discard i c) = (lookup c)(i := None)"
    and slugs_discard: "slugs (discard i c) s =
      (case lookup c i of
         Some cfg \<Rightarrow> if s = sc_slug cfg \<and> slugs c s \<in> {Some i, Some (sc_id cfg)} then None else slugs c s
       | None \<Rightarrow> slugs c s)"
begin

text \<open>
  If every server keeps its slug and no two servers share one, the index and the store agree:
  a slug leads to a server exactly when that server is stored under it.
\<close>

definition coherent :: "(uuid \<Rightarrow> string) \<Rightarrow> 'c \<Rightarrow> bool" where
  "coherent f c \<longleftrightarrow>
     (\<forall>i cfg. lookup c i = Some cfg \<longrightarrow> sc_id cfg = i \<and> sc_slug cfg = f i) \<and>
     (\<forall>s i. slugs c s = Some i \<longleftrightarrow> s = f i \<and> lookup c i \<noteq> None)"

lemma coherent_upsert:
  assumes "inj f" "coherent f c" "sc_slug cfg = f (sc_id cfg)"
  shows "coherent f (upsert cfg c)"
  using assms by (auto simp: coherent_def lookup_upsert slugs_upsert inj_eq)

lemma coherent_discard:
  assumes f: "inj f" and co: "coherent f c"
  shows "coherent f (discard i c)"
proof (cases "lookup c i")
  case None
  then have "slugs (discard i c) = slugs c" "lookup (discard i c) = lookup c"
    by (auto simp: slugs_discard lookup_discard fun_eq_iff)
  with co show ?thesis by (simp add: coherent_def)
next
  case (Some cfg)
  then have cfg: "sc_id cfg = i" "sc_slug cfg = f i" "slugs c (f i) = Some i"
    using co by (auto simp: coherent_def)
  then have "slugs (discard i c) = (slugs c)(f i := None)"
    using Some by (auto simp: slugs_discard fun_eq_iff)
  with co f cfg show ?thesis
    by (auto simp: coherent_def lookup_discard inj_eq)
qed

lemma lookup_upserts:
  "lookup (fold upsert cfgs c) i =
     (case map_of (rev (map (\<lambda>cfg. (sc_id cfg, cfg)) cfgs)) i of Some v \<Rightarrow> Some v | None \<Rightarrow> lookup c i)"
proof (induction cfgs arbitrary: c)
  case (Cons a cfgs)
  then show ?case by (auto simp: lookup_upsert map_add_def split: option.splits)
qed simp

end

definition cache_lookup :: "config_cache \<Rightarrow> uuid \<Rightarrow> server_config option" where
  "cache_lookup c i = map_of (cc_inner c) i"

definition cache_slugs :: "config_cache \<Rightarrow> string \<Rightarrow> uuid option" where
  "cache_slugs c s = slug_to_id s c"

lemma listener_frame [simp]:
  "cc_inner (eviction_listener v cause c) = cc_inner c"
  "cc_cache_loaded (eviction_listener v cause c) = cc_cache_loaded c"
  "map_of (cc_slug_index (eviction_listener v cause c)) s =
     (if cause \<noteq> Replaced \<and> s = sc_slug v \<and> map_of (cc_slug_index c) s = Some (sc_id v) then None
      else map_of (cc_slug_index c) s)"
  by (auto simp: eviction_listener_def Let_def delete_conv' split: option.splits)

interpretation store: config_store cache_lookup cache_slugs cache_upsert cache_remove
  by unfold_locales
    (auto simp: cache_lookup_def cache_slugs_def slug_to_id_def cache_upsert_def cache_remove_def
      inner_insert_def inner_discard_def update_conv' delete_conv' Let_def fun_eq_iff
      split: option.splits)

lemma evict_simps:
  "cause \<in> {Expired, Size} \<Longrightarrow> cache_lookup (cache_evict cause i c) = (cache_lookup c)(i := None)"
  "cause \<in> {Expired, Size} \<Longrightarrow> cache_slugs (cache_evict cause i c) s =
      (case cache_lookup c i of
         Some cfg \<Rightarrow> if s = sc_slug cfg \<and> cache_slugs c s = Some (sc_id cfg) then None
                     else cache_slugs c s
       | None \<Rightarrow> cache_slugs c s)"
  by (auto simp: cache_lookup_def cache_slugs_def slug_to_id_def cache_evict_def inner_discard_def
      delete_conv' fun_eq_iff split: option.splits)

text \<open>The configuration a table row stands for.\<close>

definition config_of_row :: "mcp_server \<Rightarrow> server_config" where
  "config_of_row r =
     \<lparr>sc_id = db_id r, sc_user_id = db_user_id r, sc_name = db_name r, sc_slug = db_slug r,
      sc_description = db_description r, sc_config_json = db_config_json r,
      sc_status = db_status r, sc_config_version = db_config_version r,
      sc_token_hash = db_token_hash r, sc_token_prefix = db_token_prefix r,
      sc_max_connections = word_of_int (max (db_max_connections r) 0),
      sc_created_at = db_created_at r, sc_updated_at = db_updated_at r\<rparr>"

lemma config_of_row_simps [simp]:
  "sc_id (config_of_row r) = db_id r" "sc_slug (config_of_row r) = db_slug r"
  "sc_config_version (config_of_row r) = db_config_version r"
  by (simp_all add: config_of_row_def)

lemma row_to_server_config_cache [simp]:
  "row_to_server_config (select_columns cache_columns r) = Inr (config_of_row r)"
  by (simp add: row_to_server_config_def select_columns_def cache_columns_def all_columns_def
      try_get_def Let_def config_of_row_def)

definition active_row :: "mcp_server list \<Rightarrow> uuid \<Rightarrow> mcp_server option" where
  "active_row tbl sid = find (\<lambda>r. db_id r = sid \<and> is_active r) tbl"

lemma cache_lookup_counters [simp]:
  "cache_lookup (c\<lparr>cc_hit_count := n\<rparr>) = cache_lookup c"
  "cache_lookup (c\<lparr>cc_miss_count := n\<rparr>) = cache_lookup c"
  "cache_lookup (c\<lparr>cc_cache_loaded := b\<rparr>) = cache_lookup c"
  "cache_slugs (c\<lparr>cc_hit_count := n\<rparr>) = cache_slugs c"
  "cache_slugs (c\<lparr>cc_miss_count := n\<rparr>) = cache_slugs c"
  "cache_slugs (c\<lparr>cc_cache_loaded := b\<rparr>) = cache_slugs c"
  by (simp_all add: cache_lookup_def cache_slugs_def slug_to_id_def fun_eq_iff)

lemma cache_new_lookup [simp]: "cache_lookup cache_new i = None" "cache_slugs cache_new s = None"
  by (simp_all add: cache_lookup_def cache_slugs_def slug_to_id_def cache_new_def)

lemma load_rows_select:
  "load_rows (map (select_columns cache_columns) rs) c = (Inr (), fold cache_upsert (map config_of_row rs) c)"
  by (induction rs arbitrary: c) simp_all

section \<open>Properties\<close>

datatype cache_op =
  Op_Upsert server_config | Op_Remove uuid | Op_Evict removal_cause uuid | Op_Get uuid

fun cache_do :: "cache_op \<Rightarrow> config_cache \<Rightarrow> config_cache" where
  "cache_do (Op_Upsert cfg) c = cache_upsert cfg c"
| "cache_do (Op_Remove i) c = cache_remove i c"
| "cache_do (Op_Evict cause i) c = cache_evict cause i c"
| "cache_do (Op_Get i) c = snd (cache_get i c)"

fun keeps_slug :: "(uuid \<Rightarrow> string) \<Rightarrow> cache_op \<Rightarrow> bool" where
  "keeps_slug f (Op_Upsert cfg) = (sc_slug cfg = f (sc_id cfg))"
| "keeps_slug f _ = True"

lemma coherent_evict:
  assumes "inj f" "store.coherent f c"
  shows "store.coherent f (cache_evict cause i c)"
proof (cases "cause \<in> {Expired, Size}")
  case True
  have "cache_lookup (cache_evict cause i c) = cache_lookup (cache_remove i c)"
    using True by (simp add: evict_simps store.lookup_discard)
  moreover have "cache_slugs (cache_evict cause i c) = cache_slugs (cache_remove i c)"
    using True assms(2)
    by (auto simp: evict_simps store.slugs_discard store.coherent_def fun_eq_iff split: option.split)
  ultimately show ?thesis
    using store.coherent_discard [OF assms, of i] by (simp add: store.coherent_def)
qed (use assms in \<open>simp add: cache_evict_def\<close>)

lemma coherent_do:
  assumes "inj f" "keeps_slug f op" "store.coherent f c"
  shows "store.coherent f (cache_do op c)"
proof (cases op)
  case (Op_Get i)
  have "cache_lookup (snd (cache_get i c)) = cache_lookup c"
    "cache_slugs (snd (cache_get i c)) = cache_slugs c"
    by (simp_all add: cache_get_def Let_def)
  with assms Op_Get show ?thesis by (simp add: store.coherent_def)
qed (use assms in \<open>simp_all add: store.coherent_upsert store.coherent_discard coherent_evict\<close>)


definition sample_row :: mcp_server where
  "sample_row =
     \<lparr>db_id = 7, db_user_id = 1, db_name = ''Weather'', db_slug = ''weather'', db_description = None,
      db_config_json = Object [], db_status = ''active'', db_config_version = 1,
      db_token_hash = None, db_token_prefix = None, db_max_connections = 200, db_created_at = 0,
      db_updated_at = 0\<rparr>"

definition slug_of_sample :: "uuid \<Rightarrow> string" where
  "slug_of_sample i = (if i = 7 then ''weather'' else replicate (Suc (unat i)) CHR ''x'')"

lemma inj_slug_of_sample: "inj slug_of_sample"
proof (rule injI)
  fix x y
  assume "slug_of_sample x = slug_of_sample y"
  then show "x = y"
    by (auto simp: slug_of_sample_def split: if_splits dest: arg_cong [where f = length])
      (simp add: word_unat_eq_iff)
qed


text \<open>
  A server whose slug changes stays reachable under the old one: \<open>upsert\<close> writes the new
  slug and leaves the old entry of the index, and a later \<open>remove\<close> only deletes the entry of the
  current slug. The old slug then resolves to an id that is no longer in the cache.
\<close>

theorem renamed_slug_stays:
  assumes "sc_slug new \<noteq> sc_slug old" "sc_id new = sc_id old"
  shows "slug_to_id (sc_slug old) (cache_upsert new (cache_upsert old c)) = Some (sc_id old) \<and>
    slug_to_id (sc_slug old) (cache_remove (sc_id old) (cache_upsert new (cache_upsert old c))) = Some (sc_id old) \<and>
    fst (cache_get (sc_id old) (cache_remove (sc_id old) (cache_upsert new (cache_upsert old c)))) = None"
proof -
  let ?c = "cache_upsert new (cache_upsert old c)"
  have "cache_slugs ?c (sc_slug old) = Some (sc_id old)" "cache_lookup ?c (sc_id old) = Some new"
    using assms by (simp_all add: store.slugs_upsert store.lookup_upsert)
  moreover from this have "cache_slugs (cache_remove (sc_id old) ?c) (sc_slug old) = Some (sc_id old)"
    using assms by (simp add: store.slugs_discard)
  moreover have "cache_lookup (cache_remove (sc_id old) ?c) (sc_id old) = None"
    by (simp add: store.lookup_discard)
  ultimately show ?thesis by (simp add: cache_slugs_def cache_lookup_def cache_get_def Let_def)
qed

theorem renamed_slug_stays_witness:
  "slug_to_id ''weather''
     (cache_upsert (config_of_row (sample_row\<lparr>db_slug := ''climate''\<rparr>))
        (cache_upsert (config_of_row sample_row) cache_new)) = Some 7"
  using renamed_slug_stays [of "config_of_row (sample_row\<lparr>db_slug := ''climate''\<rparr>)"
      "config_of_row sample_row" cache_new]
  by (simp add: sample_row_def)

lemma map_of_rev_distinct: "distinct (map fst xs) \<Longrightarrow> map_of (rev xs) = map_of xs"
  by (rule map_of_inject_set [THEN iffD2]) (simp_all flip: rev_map)

lemma map_of_configs:
  "distinct (map db_id rs) \<Longrightarrow>
   map_of (map (\<lambda>cfg. (sc_id cfg, cfg)) (map config_of_row (filter is_active rs))) i =
     map_option config_of_row (active_row rs i)"
  by (induction rs) (auto simp: active_row_def)

lemma lookup_load:
  assumes "distinct (map db_id tbl)"
  shows "cache_lookup (fold cache_upsert (map config_of_row (filter is_active tbl)) cache_new) i =
    map_option config_of_row (active_row tbl i)"
proof -
  have "distinct (map fst (map (\<lambda>cfg. (sc_id cfg, cfg)) (map config_of_row (filter is_active tbl))))"
    using assms by (simp add: o_def distinct_map_filter)
  from map_of_rev_distinct [OF this] map_of_configs [OF assms, of i] show ?thesis
    unfolding store.lookup_upserts by (simp split: option.split)
qed

text \<open>
  \<open>load_all\<close> on a new cache and a reachable database returns the number of active rows,
  marks the cache loaded, and makes a lookup answer for exactly the active servers, with the row's
  values (the connection limit clamped at zero).
\<close>

theorem load_all_warms_cache:
  assumes "distinct (map db_id tbl)"
  shows "\<exists>c. load_all (Inr tbl) cache_new = (Inr (length (filter is_active tbl)), c) \<and> is_loaded c \<and>
    (\<forall>i. fst (cache_get i c) = map_option config_of_row (active_row tbl i))"
  using lookup_load [OF assms]
  by (simp add: load_all_def select_active_def load_rows_select is_loaded_def cache_get_def Let_def
      flip: cache_lookup_def)

theorem load_all_warms_cache_witness:
  "\<exists>c. load_all (Inr [sample_row, sample_row\<lparr>db_id := 8, db_status := ''draft''\<rparr>]) cache_new = (Inr 1, c) \<and>
     fst (cache_get 7 c) = Some (config_of_row sample_row) \<and> fst (cache_get 8 c) = None"
  using load_all_warms_cache [of "[sample_row, sample_row\<lparr>db_id := 8, db_status := ''draft''\<rparr>]"]
  by (auto simp: sample_row_def is_active_def active_row_def)

text \<open>
  \<open>get_or_fetch\<close> answers from the cache when the id is there. Otherwise it answers with the
  active row of the database, which a following \<open>get\<close> then finds in the cache, with
  \<open>None\<close> when there is no active row, and with the database's error when the query fails.
\<close>

theorem get_or_fetch_serves:
  "(let (r, c') = get_or_fetch (Inr tbl) i c in
     \<exists>x. r = Inr x \<and> fst (cache_get i c') = x \<and>
       x = (case fst (cache_get i c) of Some cfg \<Rightarrow> Some cfg
            | None \<Rightarrow> map_option config_of_row (active_row tbl i))) \<and>
   fst (get_or_fetch (Inl e) i c) =
     (case fst (cache_get i c) of Some cfg \<Rightarrow> Inr (Some cfg) | None \<Rightarrow> Inl e)"
proof -
  have id: "active_row tbl i = Some r \<Longrightarrow> db_id r = i" for r
    by (auto simp: active_row_def find_Some_iff)
  have "cache_lookup (cache_upsert (config_of_row r) c') i = Some (config_of_row r)"
    if "active_row tbl i = Some r" for r c'
    using id [OF that] by (simp add: store.lookup_upsert)
  then show ?thesis
    by (auto simp: get_or_fetch_def cache_get_def select_active_by_id_def Let_def
        simp flip: active_row_def cache_lookup_def split: option.splits)
qed

end
