(* ===== verification/Hot_Reload.thy ===== *)
theory Hot_Reload
  imports Config_Cache "HOL-Library.Multiset"
begin

text \<open>
  Hot reload of the configuration (\<open>services/gateway/src/hot_reload.rs\<close>): notifications of the
  database trigger, batching and coalescing, their application to the cache with version ordering,
  the replay after a reconnect, the reconnect loop with its backoff, and the supervisor that restarts
  it after a panic.

  Each query of the task may see another state of the database: \<open>db k\<close> is what query number
  \<open>k\<close> sees, the table or an error. \<open>serde_json::from_str\<close> on a payload is the parameter
  \<open>parse\<close>. Times are milliseconds for the batch window, seconds for the backoff and
  microseconds for row timestamps.
\<close>

section \<open>Data\<close>

definition PG_CHANNEL :: string where "PG_CHANNEL = ''mcp_server_changes''"
definition BACKOFF_INITIAL_SECS :: u64 where "BACKOFF_INITIAL_SECS = 1"
definition BACKOFF_MAX_SECS :: u64 where "BACKOFF_MAX_SECS = 30"
definition BATCH_WINDOW_MS :: nat where "BATCH_WINDOW_MS = 100"
definition COALESCE_THRESHOLD :: nat where "COALESCE_THRESHOLD = 20"

record notification_payload =
  np_server_id :: uuid
  np_op :: string
  np_config_version :: int

datatype op_kind = Op_Insert | Op_Update | Op_Delete

definition op_kind_of :: "notification_payload \<Rightarrow> op_kind option" where
  "op_kind_of p =
     (if np_op p = ''insert'' then Some Op_Insert
      else if np_op p = ''update'' then Some Op_Update
      else if np_op p = ''delete'' then Some Op_Delete
      else None)"

record sync_state =
  ss_cache :: config_cache
  ss_versions :: "(uuid \<times> int) list"
  ss_queries :: nat

type_synonym db_view = "nat \<Rightarrow> sqlx_error + mcp_server list"

section \<open>Fetching\<close>

text \<open>The column lists of this module do not name \<open>max_connections\<close>.\<close>

definition reload_columns :: "string list" where
  "reload_columns =
     [''id'', ''user_id'', ''name'', ''slug'', ''description'', ''config_json'', ''status'',
      ''config_version'', ''token_hash'', ''token_prefix'', ''created_at'', ''updated_at'']"

definition fetch_config :: "sqlx_error + mcp_server list \<Rightarrow> uuid \<Rightarrow> sqlx_error + server_config option" where
  "fetch_config db sid =
     and_then db (\<lambda>tbl.
       case select_active_by_id reload_columns tbl sid of
         Some row \<Rightarrow> and_then (row_to_server_config row) (\<lambda>cfg. Inr (Some cfg))
       | None \<Rightarrow> Inr None)"

section \<open>Applying notifications\<close>

definition apply_payload :: "db_view \<Rightarrow> notification_payload \<Rightarrow> sync_state \<Rightarrow> sync_state" where
  "apply_payload db p s =
     (case op_kind_of p of
        None \<Rightarrow> s
      | Some op \<Rightarrow>
          let sid = np_server_id p in
          if op = Op_Delete then
            s\<lparr>ss_versions := AList.delete sid (ss_versions s), ss_cache := cache_remove sid (ss_cache s)\<rparr>
          else
            let current_version = (case map_of (ss_versions s) sid of Some v \<Rightarrow> v | None \<Rightarrow> -1)
            in if np_config_version p \<le> current_version then s
               else
                 let s1 = s\<lparr>ss_queries := Suc (ss_queries s)\<rparr>
                 in case fetch_config (db (ss_queries s)) sid of
                      Inr (Some config) \<Rightarrow>
                        s1\<lparr>ss_versions := AList.update sid (sc_config_version config) (ss_versions s1),
                           ss_cache := cache_upsert config (ss_cache s1)\<rparr>
                    | Inr None \<Rightarrow>
                        s1\<lparr>ss_versions := AList.delete sid (ss_versions s1),
                           ss_cache := cache_remove sid (ss_cache s1)\<rparr>
                    | Inl _ \<Rightarrow> s1)"

definition apply_batch :: "db_view \<Rightarrow> notification_payload list \<Rightarrow> sync_state \<Rightarrow> sync_state" where
  "apply_batch db batch s = fold (apply_payload db) batch s"

section \<open>Batches\<close>

text \<open>
  The hash map of \<open>coalesce_batch\<close>: one entry per server. The order in which
  \<open>into_values\<close> yields the entries is not determined; it is the parameter \<open>iter_order\<close>.
\<close>

definition coalesce_one :: "notification_payload \<Rightarrow> (uuid \<times> notification_payload) list \<Rightarrow> (uuid \<times> notification_payload) list" where
  "coalesce_one notif best =
     (case map_of best (np_server_id notif) of
        Some e \<Rightarrow>
          if np_config_version notif > np_config_version e
          then AList.update (np_server_id notif) notif best else best
      | None \<Rightarrow> AList.update (np_server_id notif) notif best)"

definition coalesce_batch ::
  "(notification_payload list \<Rightarrow> notification_payload list) \<Rightarrow> notification_payload list \<Rightarrow> notification_payload list" where
  "coalesce_batch iter_order batch = iter_order (map snd (fold coalesce_one batch []))"

datatype recv = Recv_Notification string | Recv_Error sqlx_error

definition parse_payload :: "(string \<Rightarrow> notification_payload option) \<Rightarrow> string \<Rightarrow> notification_payload list" where
  "parse_payload parse payload = (case parse payload of Some p \<Rightarrow> [p] | None \<Rightarrow> [])"

text \<open>The notifications of the window: those whose time of arrival is before the deadline.\<close>

fun collect_window ::
  "(string \<Rightarrow> notification_payload option) \<Rightarrow> nat \<Rightarrow> notification_payload list \<Rightarrow> (nat \<times> recv) list
   \<Rightarrow> (sqlx_error + notification_payload list) \<times> (nat \<times> recv) list" where
  "collect_window parse deadline batch [] = (Inr batch, [])"
| "collect_window parse deadline batch ((t, r) # evs) =
     (if t \<ge> deadline then (Inr batch, (t, r) # evs)
      else case r of
             Recv_Notification payload \<Rightarrow>
               collect_window parse deadline (batch @ parse_payload parse payload) evs
           | Recv_Error e \<Rightarrow> (Inl e, evs))"

text \<open>\<open>None\<close>: no notification ever arrives and the task blocks in \<open>recv\<close>.\<close>

definition collect_batch ::
  "(string \<Rightarrow> notification_payload option) \<Rightarrow> (notification_payload list \<Rightarrow> notification_payload list)
   \<Rightarrow> (nat \<times> recv) list \<Rightarrow> ((sqlx_error + notification_payload list) \<times> (nat \<times> recv) list) option" where
  "collect_batch parse iter_order evs =
     (case evs of
        [] \<Rightarrow> None
      | (t, Recv_Error e) # rest \<Rightarrow> Some (Inl e, rest)
      | (t, Recv_Notification payload) # rest \<Rightarrow>
          Some (case collect_window parse (t + BATCH_WINDOW_MS) (parse_payload parse payload) rest of
                  (Inl e, rest') \<Rightarrow> (Inl e, rest')
                | (Inr batch, rest') \<Rightarrow>
                    (Inr (if length batch > COALESCE_THRESHOLD then coalesce_batch iter_order batch
                          else batch), rest')))"

lemma collect_window_shorter:
  "length (snd (collect_window parse d batch evs)) \<le> length evs"
  by (induction parse d batch evs rule: collect_window.induct) (auto split: recv.split)

lemma collect_batch_shorter:
  "collect_batch parse ord evs = Some (r, rest) \<Longrightarrow> length rest < length evs"
  by (auto simp: collect_batch_def split: list.splits recv.splits prod.splits sum.splits)
    (metis collect_window_shorter le_imp_less_Suc snd_conv)+

section \<open>The listener and the reconnect loop\<close>

text \<open>
  The session's loop has no exit but an error of \<open>recv\<close>; \<open>None\<close> as the outcome means that it
  is still waiting when the recorded events end.
\<close>

function listen_loop ::
  "(string \<Rightarrow> notification_payload option) \<Rightarrow> (notification_payload list \<Rightarrow> notification_payload list)
   \<Rightarrow> db_view \<Rightarrow> (nat \<times> recv) list \<Rightarrow> sync_state \<Rightarrow> sqlx_error option \<times> sync_state" where
  "listen_loop parse iter_order db evs s =
     (case collect_batch parse iter_order evs of
        None \<Rightarrow> (None, s)
      | Some (Inl e, _) \<Rightarrow> (Some e, s)
      | Some (Inr batch, rest) \<Rightarrow> listen_loop parse iter_order db rest (apply_batch db batch s))"
  by pat_completeness auto
termination
  by (relation "measure (\<lambda>(_, _, _, evs, _). length evs)") (auto dest: collect_batch_shorter)

declare listen_loop.simps [simp del]

record session =
  se_connect :: "sqlx_error option"
  se_listen :: "sqlx_error option"
  se_events :: "(nat \<times> recv) list"

definition run_listener_once ::
  "(string \<Rightarrow> notification_payload option) \<Rightarrow> (notification_payload list \<Rightarrow> notification_payload list)
   \<Rightarrow> db_view \<Rightarrow> session \<Rightarrow> bool \<times> sync_state \<Rightarrow> sqlx_error option \<times> bool \<times> sync_state" where
  "run_listener_once parse iter_order db ses fs =
     (case se_connect ses of
        Some e \<Rightarrow> (Some e, fs)
      | None \<Rightarrow>
          (case se_listen ses of
             Some e \<Rightarrow> (Some e, fs)
           | None \<Rightarrow>
               let (r, s) = listen_loop parse iter_order db (se_events ses) (snd fs)
               in (r, True, s)))"

definition replay_row :: "pg_row \<Rightarrow> nat \<times> sync_state \<Rightarrow> nat \<times> sync_state" where
  "replay_row row ns =
     (case row_to_server_config row of
        Inr config \<Rightarrow>
          let s = snd ns;
              current = (case map_of (ss_versions s) (sc_id config) of Some v \<Rightarrow> v | None \<Rightarrow> -1)
          in if sc_config_version config > current then
               (Suc (fst ns),
                s\<lparr>ss_versions := AList.update (sc_id config) (sc_config_version config) (ss_versions s),
                  ss_cache := cache_upsert config (ss_cache s)\<rparr>)
             else ns
      | Inl _ \<Rightarrow> ns)"

definition replay_missed_changes :: "db_view \<Rightarrow> int \<Rightarrow> sync_state \<Rightarrow> (sqlx_error + nat) \<times> sync_state" where
  "replay_missed_changes db since s =
     (let cutoff = since - 5 * 1000000;
          s1 = s\<lparr>ss_queries := Suc (ss_queries s)\<rparr>
      in case db (ss_queries s) of
           Inl e \<Rightarrow> (Inl e, s1)
         | Inr tbl \<Rightarrow>
             let rows = map (select_columns reload_columns)
                          (filter (\<lambda>r. is_active r \<and> db_updated_at r \<ge> cutoff) tbl);
                 (replayed, s2) = fold replay_row rows (0, s1)
             in (Inr replayed, s2))"

record loop_state =
  lp_sync :: sync_state
  lp_backoff :: u64
  lp_disconnect :: "int option"
  lp_connected :: bool
  lp_slept :: "u64 list"

definition loop_init :: "config_cache \<Rightarrow> bool \<Rightarrow> loop_state" where
  "loop_init c flag =
     \<lparr>lp_sync = \<lparr>ss_cache = c, ss_versions = [], ss_queries = 0\<rparr>, lp_backoff = BACKOFF_INITIAL_SECS,
      lp_disconnect = None, lp_connected = flag, lp_slept = []\<rparr>"

text \<open>
  One turn of \<open>run_sync_loop\<close>; \<open>now\<close> is the time recorded before connecting. The result
  says whether the turn ended with an error of the session, so that the loop goes on.
\<close>

definition reconnect_wait :: "db_view \<Rightarrow> loop_state \<Rightarrow> loop_state" where
  "reconnect_wait db l =
     (case lp_disconnect l of
        None \<Rightarrow> l
      | Some lost_at \<Rightarrow>
          let b1 = min (lp_backoff l * 2) BACKOFF_MAX_SECS;
              (r, s) = replay_missed_changes db lost_at (lp_sync l)
          in l\<lparr>lp_connected := False, lp_slept := lp_slept l @ [lp_backoff l], lp_sync := s,
               lp_backoff := (if is_ok r then BACKOFF_INITIAL_SECS else b1)\<rparr>)"

definition sync_turn ::
  "(string \<Rightarrow> notification_payload option) \<Rightarrow> (notification_payload list \<Rightarrow> notification_payload list)
   \<Rightarrow> db_view \<Rightarrow> int \<Rightarrow> session \<Rightarrow> loop_state \<Rightarrow> bool \<times> loop_state" where
  "sync_turn parse iter_order db now ses l0 =
     (let l = (reconnect_wait db l0)\<lparr>lp_disconnect := Some now\<rparr>;
          (r, flag, s) = run_listener_once parse iter_order db ses (lp_connected l, lp_sync l)
      in (r \<noteq> None, l\<lparr>lp_connected := flag, lp_sync := s\<rparr>))"

fun run_sync_loop ::
  "(string \<Rightarrow> notification_payload option) \<Rightarrow> (notification_payload list \<Rightarrow> notification_payload list)
   \<Rightarrow> db_view \<Rightarrow> (int \<times> session) list \<Rightarrow> loop_state \<Rightarrow> loop_state" where
  "run_sync_loop parse iter_order db [] l = l"
| "run_sync_loop parse iter_order db ((now, ses) # rest) l =
     (case sync_turn parse iter_order db now ses l of
        (True, l') \<Rightarrow> run_sync_loop parse iter_order db rest l'
      | (False, l') \<Rightarrow> l')"

section \<open>The supervisor\<close>

text \<open>
  \<open>ConfigSyncTask::start\<close>: the reconnect loop runs in a task of its own, and the supervisor
  awaits its end. The cache and the flag \<open>listen_connected\<close> are shared and survive a panic; the
  versions, the backoff and the time of the disconnect are locals of \<open>run_sync_loop\<close> and do not.
  A life of the inner task is what its queries see, the turns of its loop up to its end, and the
  outcome of \<open>handle.await\<close>; a panic strikes between two batches or between two turns. The
  supervisor counts panics and waits one second after each.
\<close>

datatype task_outcome = Task_Finished | Task_Panicked

record supervisor =
  sv_cache :: config_cache
  sv_connected :: bool
  sv_panics :: nat
  sv_cooldowns :: "u64 list"

type_synonym task_life = "db_view \<times> (int \<times> session) list \<times> task_outcome"

definition sync_task_new :: "config_cache \<Rightarrow> supervisor" where
  "sync_task_new c = \<lparr>sv_cache = c, sv_connected = False, sv_panics = 0, sv_cooldowns = []\<rparr>"

definition run_life ::
  "(string \<Rightarrow> notification_payload option) \<Rightarrow> (notification_payload list \<Rightarrow> notification_payload list)
   \<Rightarrow> db_view \<Rightarrow> (int \<times> session) list \<Rightarrow> supervisor \<Rightarrow> supervisor" where
  "run_life parse iter_order db turns sv =
     (let l = run_sync_loop parse iter_order db turns (loop_init (sv_cache sv) (sv_connected sv))
      in sv\<lparr>sv_cache := ss_cache (lp_sync l), sv_connected := lp_connected l\<rparr>)"

fun start_task ::
  "(string \<Rightarrow> notification_payload option) \<Rightarrow> (notification_payload list \<Rightarrow> notification_payload list)
   \<Rightarrow> task_life list \<Rightarrow> supervisor \<Rightarrow> supervisor" where
  "start_task parse iter_order [] sv = sv"
| "start_task parse iter_order ((db, turns, outcome) # lives) sv =
     (let sv' = run_life parse iter_order db turns sv
      in case outcome of
           Task_Finished \<Rightarrow> sv'
         | Task_Panicked \<Rightarrow>
             start_task parse iter_order lives
               (sv'\<lparr>sv_panics := sv_panics sv' + 1, sv_cooldowns := sv_cooldowns sv' @ [1]\<rparr>))"

section \<open>The database and the gateway together\<close>

lemma row_to_server_config_reload [simp]:
  "row_to_server_config (select_columns reload_columns r) =
     Inr ((config_of_row r)\<lparr>sc_max_connections := 50\<rparr>)"
  by (simp add: row_to_server_config_def select_columns_def reload_columns_def all_columns_def
      try_get_def Let_def config_of_row_def)

lemma fetch_config_row:
  "fetch_config (Inr tbl) i =
     Inr (map_option (\<lambda>r. (config_of_row r)\<lparr>sc_max_connections := 50\<rparr>) (active_row tbl i))"
  by (simp add: fetch_config_def select_active_by_id_def active_row_def split: option.split)

definition row_of :: "mcp_server list \<Rightarrow> uuid \<Rightarrow> mcp_server option" where
  "row_of tbl i = find (\<lambda>r. db_id r = i) tbl"

text \<open>
  What the trigger of the schema sends: an inserted row has version 1, every update adds one, and
  the payload names the operation and the row's version. The notifications of the channel are
  delivered in order and applied one at a time, which is what a batch up to the coalescing
  threshold amounts to; changes of the table, fetches for requests and evictions happen in between.
\<close>

record reload_sys =
  rs_table :: "mcp_server list"
  rs_used :: "uuid set"
  rs_queue :: "notification_payload list"
  rs_sync :: sync_state

definition note_of :: "string \<Rightarrow> mcp_server \<Rightarrow> notification_payload" where
  "note_of op r = \<lparr>np_server_id = db_id r, np_op = op, np_config_version = db_config_version r\<rparr>"

definition set_cache :: "(config_cache \<Rightarrow> config_cache) \<Rightarrow> reload_sys \<Rightarrow> reload_sys" where
  "set_cache f s = s\<lparr>rs_sync := (rs_sync s)\<lparr>ss_cache := f (ss_cache (rs_sync s))\<rparr>\<rparr>"

inductive reload_step :: "reload_sys \<Rightarrow> reload_sys \<Rightarrow> bool" where
  db_insert: "db_id r \<notin> rs_used s \<Longrightarrow> db_config_version r = 1 \<Longrightarrow>
    reload_step s (s\<lparr>rs_table := rs_table s @ [r], rs_used := insert (db_id r) (rs_used s),
                     rs_queue := rs_queue s @ [note_of ''insert'' r]\<rparr>)"
| db_update: "row_of (rs_table s) (db_id r') = Some r \<Longrightarrow>
    db_config_version r' = db_config_version r + 1 \<Longrightarrow>
    reload_step s (s\<lparr>rs_table := map (\<lambda>x. if db_id x = db_id r' then r' else x) (rs_table s),
                     rs_queue := rs_queue s @ [note_of ''update'' r']\<rparr>)"
| db_delete: "row_of (rs_table s) i = Some r \<Longrightarrow>
    reload_step s (s\<lparr>rs_table := filter (\<lambda>x. db_id x \<noteq> i) (rs_table s),
                     rs_queue := rs_queue s @ [note_of ''delete'' r]\<rparr>)"
| deliver: "rs_queue s = n # q \<Longrightarrow>
    reload_step s (s\<lparr>rs_queue := q, rs_sync := apply_payload (\<lambda>_. Inr (rs_table s)) n (rs_sync s)\<rparr>)"
| serve: "reload_step s (set_cache (\<lambda>c. snd (get_or_fetch (Inr (rs_table s)) i c)) s)"
| evict: "reload_step s (set_cache (cache_evict cause i) s)"

definition reload_start :: "mcp_server list \<Rightarrow> reload_sys" where
  "reload_start tbl =
     \<lparr>rs_table = tbl, rs_used = db_id ` set tbl, rs_queue = [],
      rs_sync = \<lparr>ss_cache = snd (load_all (Inr tbl) cache_new), ss_versions = [], ss_queries = 0\<rparr>\<rparr>"

text \<open>A cached configuration is current when it is the active row's, the connection limit apart.\<close>

definition agrees :: "server_config \<Rightarrow> mcp_server \<Rightarrow> bool" where
  "agrees cfg r \<longleftrightarrow> cfg\<lparr>sc_max_connections := 0\<rparr> = (config_of_row r)\<lparr>sc_max_connections := 0\<rparr>"

definition fresh_entry :: "mcp_server list \<Rightarrow> uuid \<Rightarrow> server_config option \<Rightarrow> bool" where
  "fresh_entry tbl i e \<longleftrightarrow> (\<forall>cfg. e = Some cfg \<longrightarrow> (\<exists>r. active_row tbl i = Some r \<and> agrees cfg r))"

definition pending :: "uuid \<Rightarrow> notification_payload list \<Rightarrow> notification_payload list" where
  "pending i q = filter (\<lambda>n. np_server_id n = i) q"

definition note_ok :: "notification_payload \<Rightarrow> bool" where
  "note_ok n = (op_kind_of n \<noteq> None \<and> 0 \<le> np_config_version n)"

abbreviation "is_delete n \<equiv> op_kind_of n = Some Op_Delete"

text \<open>
  The invariant for one server, over its row, its pending notifications, the recorded version and
  the cached entry: the last pending notification describes the row, a deletion is only ever the
  last, the recorded version is at most the row's, and where it is the row's, or nothing is
  pending, the entry is current.
\<close>

definition server_inv ::
  "mcp_server list \<Rightarrow> uuid \<Rightarrow> notification_payload list \<Rightarrow> int option \<Rightarrow> server_config option \<Rightarrow> bool" where
  "server_inv tbl i P v e \<longleftrightarrow>
     (P = [] \<longrightarrow> fresh_entry tbl i e) \<and>
     (P \<noteq> [] \<longrightarrow> is_delete (last P) = (row_of tbl i = None)) \<and>
     (\<forall>r. P \<noteq> [] \<and> row_of tbl i = Some r \<longrightarrow> np_config_version (last P) = db_config_version r) \<and>
     (\<forall>n \<in> set (butlast P). \<not> is_delete n) \<and>
     (\<forall>n \<in> set P. note_ok n) \<and>
     (\<forall>r w. row_of tbl i = Some r \<and> v = Some w \<longrightarrow>
        w \<le> db_config_version r \<and> (w = db_config_version r \<longrightarrow> fresh_entry tbl i e))"

definition reload_inv :: "reload_sys \<Rightarrow> bool" where
  "reload_inv s \<longleftrightarrow>
     distinct (map db_id (rs_table s)) \<and> db_id ` set (rs_table s) \<subseteq> rs_used s \<and>
     (\<forall>r \<in> set (rs_table s). 0 \<le> db_config_version r) \<and>
     (\<forall>i. server_inv (rs_table s) i (pending i (rs_queue s)) (map_of (ss_versions (rs_sync s)) i)
            (cache_lookup (ss_cache (rs_sync s)) i)) \<and>
     (\<forall>i. i \<notin> rs_used s \<longrightarrow> map_of (ss_versions (rs_sync s)) i = None \<and> pending i (rs_queue s) = [])"

lemma row_of_Some: "row_of tbl i = Some r \<Longrightarrow> r \<in> set tbl \<and> db_id r = i"
  by (auto simp: row_of_def find_Some_iff)

lemma row_of_None: "row_of tbl i = None \<longleftrightarrow> i \<notin> db_id ` set tbl"
  by (auto simp: row_of_def find_None_iff)

lemma active_row_of: "distinct (map db_id tbl) \<Longrightarrow>
    active_row tbl i = (case row_of tbl i of Some r \<Rightarrow> if is_active r then Some r else None | None \<Rightarrow> None)"
proof (induction tbl)
  case (Cons a tbl)
  have "find (\<lambda>r. db_id r = i \<and> is_active r) tbl = None" if "db_id a = i"
    using that Cons.prems by (auto simp: find_None_iff) (metis imageI)
  with Cons show ?case by (auto simp: active_row_def row_of_def)
qed (simp add: active_row_def row_of_def)

lemma row_of_append: "row_of (tbl @ [r]) i =
    (case row_of tbl i of Some x \<Rightarrow> Some x | None \<Rightarrow> if db_id r = i then Some r else None)"
  by (induction tbl) (auto simp: row_of_def)

lemma row_of_update: "row_of (map (\<lambda>x. if db_id x = db_id r' then r' else x) tbl) i =
    (if i = db_id r' \<and> row_of tbl i \<noteq> None then Some r' else row_of tbl i)"
  by (induction tbl) (auto simp: row_of_def)

lemma row_of_delete: "row_of (filter (\<lambda>x. db_id x \<noteq> j) tbl) i = (if i = j then None else row_of tbl i)"
  by (induction tbl) (auto simp: row_of_def)

lemma pending_simps [simp]:
  "pending i [] = []"
  "pending i (n # q) = (if np_server_id n = i then n # pending i q else pending i q)"
  "pending i (q @ r) = pending i q @ pending i r"
  by (simp_all add: pending_def)

lemma note_of_simps [simp]:
  "np_server_id (note_of op r) = db_id r" "np_config_version (note_of op r) = db_config_version r"
  "op_kind_of (note_of ''insert'' r) = Some Op_Insert"
  "op_kind_of (note_of ''update'' r) = Some Op_Update"
  "op_kind_of (note_of ''delete'' r) = Some Op_Delete"
  by (simp_all add: note_of_def op_kind_of_def)

text \<open>The invariant only looks at the server's own row.\<close>

lemma fresh_entry_frame:
  assumes "distinct (map db_id t1)" "distinct (map db_id t2)" "row_of t1 i = row_of t2 i"
  shows "fresh_entry t1 i e = fresh_entry t2 i e"
  using assms by (simp add: fresh_entry_def active_row_of)

lemma server_inv_frame:
  assumes "distinct (map db_id t1)" "distinct (map db_id t2)" "row_of t1 i = row_of t2 i"
  shows "server_inv t1 i P v e = server_inv t2 i P v e"
  using fresh_entry_frame [OF assms] assms(3) by (simp add: server_inv_def)

lemma fresh_entry_None [simp]: "fresh_entry tbl i None"
  by (simp add: fresh_entry_def)

lemma fresh_entry_row:
  "active_row tbl i = Some r \<Longrightarrow> fresh_entry tbl i (Some ((config_of_row r)\<lparr>sc_max_connections := m\<rparr>))"
  "active_row tbl i = Some r \<Longrightarrow> fresh_entry tbl i (Some (config_of_row r))"
  by (simp_all add: fresh_entry_def agrees_def)

lemma server_inv_cache:
  assumes "server_inv tbl i P v e" "fresh_entry tbl i e'"
  shows "server_inv tbl i P v e'"
  using assms by (auto simp: server_inv_def)

lemma server_inv_append:
  assumes "server_inv tbl i P v e" and "row_of tbl' i = Some r" "row_of tbl i = Some r0"
    "db_config_version r = db_config_version r0 + 1"
    and n: "op_kind_of n = Some Op_Update" "np_config_version n = db_config_version r"
      "0 \<le> np_config_version n"
  shows "server_inv tbl' i (P @ [n]) v e"
proof -
  have "\<not> is_delete x" if "x \<in> set P" for x
    using that assms(1,3) by (cases P rule: rev_cases) (auto simp: server_inv_def)
  then show ?thesis using assms by (fastforce simp: server_inv_def note_ok_def)
qed

lemma server_inv_drop:
  assumes "server_inv tbl i P v e" and "row_of tbl i = Some r" "row_of tbl' i = None"
    and n: "op_kind_of n = Some Op_Delete" "0 \<le> np_config_version n"
  shows "server_inv tbl' i (P @ [n]) v e"
proof -
  have "\<not> is_delete x" if "x \<in> set P" for x
    using that assms(1,2) by (cases P rule: rev_cases) (auto simp: server_inv_def)
  then show ?thesis using assms by (auto simp: server_inv_def note_ok_def)
qed

text \<open>Delivery: the notification at the head is consumed, and what is left stays invariant.\<close>

lemma server_inv_fresh_tail:
  assumes "server_inv tbl i (n # P) v e" and "fresh_entry tbl i e'"
    and "\<And>r w. row_of tbl i = Some r \<Longrightarrow> v' = Some w \<Longrightarrow> w \<le> db_config_version r"
  shows "server_inv tbl i P v' e'"
  using assms by (cases P rule: rev_cases) (auto simp: server_inv_def butlast_append)

lemma server_inv_stale_tail:
  assumes inv: "server_inv tbl i (n # P) (Some w) e" and "np_config_version n \<le> w"
    and "\<not> is_delete n"
  shows "server_inv tbl i P (Some w) e"
proof (cases "P = []")
  case True
  then obtain r where "row_of tbl i = Some r" "np_config_version n = db_config_version r"
    using inv assms(3) by (auto simp: server_inv_def)
  then have "fresh_entry tbl i e" using inv assms(2) by (auto simp: server_inv_def)
  with True inv show ?thesis by (auto simp: server_inv_def)
next
  case False
  with inv show ?thesis by (auto simp: server_inv_def)
qed

lemma apply_payload_other:
  assumes "j \<noteq> np_server_id n"
  shows "map_of (ss_versions (apply_payload (\<lambda>_. Inr tbl) n ss)) j = map_of (ss_versions ss) j"
    "cache_lookup (ss_cache (apply_payload (\<lambda>_. Inr tbl) n ss)) j = cache_lookup (ss_cache ss) j"
  using assms by (auto simp: apply_payload_def Let_def fetch_config_row delete_conv' update_conv'
      store.lookup_upsert store.lookup_discard active_row_def find_Some_iff split: option.split sum.split)

lemma server_inv_fetch:
  assumes d: "distinct (map db_id tbl)"
    and own: "server_inv tbl i (n # P) (map_of (ss_versions ss) i) (cache_lookup (ss_cache ss) i)"
    and n: "np_server_id n = i" "op_kind_of n = Some op" "op \<noteq> Op_Delete"
      "\<not> np_config_version n \<le> (case map_of (ss_versions ss) i of Some v \<Rightarrow> v | None \<Rightarrow> -1)"
    and ss': "ss' = apply_payload (\<lambda>_. Inr tbl) n ss"
  shows "server_inv tbl i P (map_of (ss_versions ss') i) (cache_lookup (ss_cache ss') i)"
proof (cases "active_row tbl i")
  case None
  then show ?thesis using n server_inv_fresh_tail [OF own, of None None]
    by (simp add: ss' apply_payload_def Let_def fetch_config_row delete_conv' store.lookup_discard)
next
  case (Some r)
  then have "row_of tbl i = Some r" "db_id r = i"
    using active_row_of [OF d, of i] row_of_Some by (auto split: option.splits if_splits)
  with Some show ?thesis
    using n server_inv_fresh_tail [OF own fresh_entry_row(1) [OF Some, of 50],
        of "Some (db_config_version r)"]
    by (simp add: ss' apply_payload_def Let_def fetch_config_row update_conv' store.lookup_upsert)
qed

lemma server_inv_apply:
  assumes d: "distinct (map db_id tbl)"
    and own: "server_inv tbl i (n # P) (map_of (ss_versions ss) i) (cache_lookup (ss_cache ss) i)"
    and i: "np_server_id n = i" and ss': "ss' = apply_payload (\<lambda>_. Inr tbl) n ss"
  shows "server_inv tbl i P (map_of (ss_versions ss') i) (cache_lookup (ss_cache ss') i)"
proof (cases "is_delete n")
  case True
  then show ?thesis
    using server_inv_fresh_tail [OF own, of None None] i
    by (simp add: ss' apply_payload_def Let_def delete_conv' store.lookup_discard)
next
  case nodel: False
  have ok: "note_ok n" using own by (simp add: server_inv_def)
  then obtain op where op: "op_kind_of n = Some op" "op \<noteq> Op_Delete"
    using nodel by (auto simp: note_ok_def)
  show ?thesis
  proof (cases "np_config_version n \<le> (case map_of (ss_versions ss) i of Some v \<Rightarrow> v | None \<Rightarrow> -1)")
    case True
    then obtain w where w: "map_of (ss_versions ss) i = Some w" "np_config_version n \<le> w"
      using ok by (auto simp: note_ok_def split: option.splits)
    then have "ss' = ss" using op i by (simp add: ss' apply_payload_def Let_def)
    with w own nodel show ?thesis
      using server_inv_stale_tail [of tbl i n P w] by simp
  qed (rule server_inv_fetch [OF d own i op _ ss'])
qed

lemma reload_inv_deliver:
  assumes inv: "reload_inv s" and q: "rs_queue s = n # q"
  shows "reload_inv (s\<lparr>rs_queue := q, rs_sync := apply_payload (\<lambda>_. Inr (rs_table s)) n (rs_sync s)\<rparr>)"
proof -
  let ?tbl = "rs_table s" and ?ss = "apply_payload (\<lambda>_. Inr (rs_table s)) n (rs_sync s)"
  have d: "distinct (map db_id ?tbl)" using inv by (simp add: reload_inv_def)
  have all: "server_inv ?tbl j (pending j (n # q)) (map_of (ss_versions (rs_sync s)) j)
      (cache_lookup (ss_cache (rs_sync s)) j)" for j
    using inv q unfolding reload_inv_def by metis
  have unused: "map_of (ss_versions (rs_sync s)) j = None" "pending j (n # q) = []"
    if "j \<notin> rs_used s" for j
    using that inv q unfolding reload_inv_def by metis+
  have "server_inv ?tbl j (pending j q) (map_of (ss_versions ?ss) j) (cache_lookup (ss_cache ?ss) j)" for j
  proof (cases "j = np_server_id n")
    case True
    then have "server_inv ?tbl j (n # pending j q) (map_of (ss_versions (rs_sync s)) j)
        (cache_lookup (ss_cache (rs_sync s)) j)" using all [of j] by simp
    from server_inv_apply [OF d this _ refl] True show ?thesis by simp
  next
    case False
    with all [of j] show ?thesis by (simp add: apply_payload_other)
  qed
  moreover have "map_of (ss_versions ?ss) j = None \<and> pending j q = []" if "j \<notin> rs_used s" for j
    using unused [OF that] by (cases "j = np_server_id n") (simp_all add: apply_payload_other)
  ultimately show ?thesis using inv by (simp add: reload_inv_def)
qed

lemma reload_inv_cache:
  assumes "reload_inv s"
    and "\<And>j c. fresh_entry (rs_table s) j (cache_lookup (f c) j) \<or> cache_lookup (f c) j = cache_lookup c j"
  shows "reload_inv (set_cache f s)"
proof -
  let ?c = "ss_cache (rs_sync s)"
  have "server_inv (rs_table s) j (pending j (rs_queue s)) (map_of (ss_versions (rs_sync s)) j)
      (cache_lookup (f ?c) j)" for j
    using assms(1) assms(2) [of j ?c]
      server_inv_cache [of "rs_table s" j _ _ "cache_lookup ?c j" "cache_lookup (f ?c) j"]
    by (auto simp: reload_inv_def)
  with assms(1) show ?thesis by (simp add: reload_inv_def set_cache_def)
qed

lemma reload_inv_insert:
  assumes inv: "reload_inv s" and r: "db_id r \<notin> rs_used s" "db_config_version r = 1"
  shows "reload_inv (s\<lparr>rs_table := rs_table s @ [r], rs_used := insert (db_id r) (rs_used s),
                     rs_queue := rs_queue s @ [note_of ''insert'' r]\<rparr>)"
proof -
  let ?tbl' = "rs_table s @ [r]"
  have d: "distinct (map db_id (rs_table s))" and d': "distinct (map db_id ?tbl')"
    using inv r by (auto simp: reload_inv_def)
  have old: "server_inv (rs_table s) j (pending j (rs_queue s)) (map_of (ss_versions (rs_sync s)) j)
      (cache_lookup (ss_cache (rs_sync s)) j)" for j
    using inv by (simp add: reload_inv_def)
  have "server_inv ?tbl' j (pending j (rs_queue s @ [note_of ''insert'' r]))
      (map_of (ss_versions (rs_sync s)) j) (cache_lookup (ss_cache (rs_sync s)) j)" for j
  proof (cases "j = db_id r")
    case True
    have "row_of (rs_table s) j = None" using inv r True by (auto simp: reload_inv_def row_of_None)
    moreover have "pending j (rs_queue s) = []" "map_of (ss_versions (rs_sync s)) j = None"
      using inv r True by (auto simp: reload_inv_def)
    ultimately show ?thesis using True r by (simp add: server_inv_def row_of_append note_ok_def)
  next
    case False
    then have "row_of ?tbl' j = row_of (rs_table s) j" by (simp add: row_of_append split: option.split)
    with False old [of j] show ?thesis by (simp add: server_inv_frame [OF d' d])
  qed
  with inv r d' show ?thesis by (auto simp: reload_inv_def)
qed

lemma reload_inv_write:
  assumes inv: "reload_inv s" and row: "row_of (rs_table s) i = Some r"
    and d': "distinct (map db_id tbl')" and sub: "db_id ` set tbl' \<subseteq> db_id ` set (rs_table s)"
    and pos: "\<forall>x \<in> set tbl'. 0 \<le> db_config_version x"
    and others: "\<And>j. j \<noteq> i \<Longrightarrow> row_of tbl' j = row_of (rs_table s) j"
    and n: "np_server_id n = i"
    and own: "\<And>P v e. server_inv (rs_table s) i P v e \<Longrightarrow> server_inv tbl' i (P @ [n]) v e"
  shows "reload_inv (s\<lparr>rs_table := tbl', rs_queue := rs_queue s @ [n]\<rparr>)"
proof -
  have d: "distinct (map db_id (rs_table s))" using inv by (simp add: reload_inv_def)
  have used: "i \<in> rs_used s" using inv row_of_Some [OF row] by (auto simp: reload_inv_def)
  have old: "server_inv (rs_table s) j (pending j (rs_queue s)) (map_of (ss_versions (rs_sync s)) j)
      (cache_lookup (ss_cache (rs_sync s)) j)" for j
    using inv by (simp add: reload_inv_def)
  have "server_inv tbl' j (pending j (rs_queue s @ [n]))
      (map_of (ss_versions (rs_sync s)) j) (cache_lookup (ss_cache (rs_sync s)) j)" for j
  proof (cases "j = i")
    case True
    with own [OF old [of i]] n show ?thesis by simp
  next
    case False
    with old [of j] n others show ?thesis by (simp add: server_inv_frame [OF d' d])
  qed
  moreover have "db_id ` set tbl' \<subseteq> rs_used s" using inv sub by (auto simp: reload_inv_def)
  ultimately show ?thesis using inv d' pos used n by (auto simp: reload_inv_def)
qed

lemma map_update_ids: "map db_id (map (\<lambda>x. if db_id x = db_id r' then r' else x) tbl) = map db_id tbl"
  by (induction tbl) auto

lemma reload_step_inv:
  assumes "reload_inv s" "reload_step s s'"
  shows "reload_inv s'"
  using assms(2)
proof cases
  case (db_insert r)
  then show ?thesis using reload_inv_insert [OF assms(1)] by simp
next
  case (db_update r' r)
  let ?tbl' = "map (\<lambda>x. if db_id x = db_id r' then r' else x) (rs_table s)"
  have pos: "0 \<le> db_config_version r" using row_of_Some [OF db_update(2)] assms(1) by (auto simp: reload_inv_def)
  have ids: "db_id ` set ?tbl' = db_id ` set (rs_table s)"
    using arg_cong [OF map_update_ids [of r' "rs_table s"], of set] by (simp only: set_map)
  have "reload_inv (s\<lparr>rs_table := ?tbl', rs_queue := rs_queue s @ [note_of ''update'' r']\<rparr>)"
  proof (rule reload_inv_write [OF assms(1) db_update(2)])
    show "distinct (map db_id ?tbl')" using assms(1) by (simp add: map_update_ids reload_inv_def del: map_map)
    show "server_inv ?tbl' (db_id r') (P @ [note_of ''update'' r']) v e"
      if "server_inv (rs_table s) (db_id r') P v e" for P v e
      using that db_update(2,3) pos by (intro server_inv_append [OF that, of _ r' r]) (auto simp: row_of_update)
  qed (use ids pos db_update(3) assms(1) in \<open>auto simp: row_of_update reload_inv_def\<close>)
  with db_update show ?thesis by simp
next
  case (db_delete i r)
  have i: "db_id r = i" "r \<in> set (rs_table s)" using row_of_Some [OF db_delete(2)] by simp_all
  have "reload_inv (s\<lparr>rs_table := filter (\<lambda>x. db_id x \<noteq> i) (rs_table s),
      rs_queue := rs_queue s @ [note_of ''delete'' r]\<rparr>)"
  proof (rule reload_inv_write [OF assms(1) db_delete(2)])
    show "server_inv (filter (\<lambda>x. db_id x \<noteq> i) (rs_table s)) i (P @ [note_of ''delete'' r]) v e"
      if "server_inv (rs_table s) i P v e" for P v e
      using db_delete(2) i assms(1) that
      by (intro server_inv_drop [OF that, of r]) (auto simp: row_of_delete reload_inv_def)
  qed (use i assms(1) in \<open>auto simp: row_of_delete reload_inv_def distinct_map_filter\<close>)
  with db_delete show ?thesis by simp
next
  case (deliver n q)
  then show ?thesis using reload_inv_deliver [OF assms(1)] by simp
next
  case (serve i)
  have "fresh_entry (rs_table s) j (cache_lookup (snd (get_or_fetch (Inr (rs_table s)) i c)) j) \<or>
      cache_lookup (snd (get_or_fetch (Inr (rs_table s)) i c)) j = cache_lookup c j" for j c
    using fresh_entry_row(2) [of "rs_table s" i]
    by (auto simp: get_or_fetch_def Let_def select_active_by_id_def store.lookup_upsert active_row_def
        find_Some_iff split: option.split)
  with serve show ?thesis using reload_inv_cache [OF assms(1)] by simp
next
  case (evict cause i)
  have "fresh_entry (rs_table s) j (cache_lookup (cache_evict cause i c) j) \<or>
      cache_lookup (cache_evict cause i c) j = cache_lookup c j" for j c
  proof (cases "cause \<in> {Expired, Size}")
    case True
    then show ?thesis by (simp add: evict_simps(1))
  qed (simp add: cache_evict_def)
  with evict show ?thesis using reload_inv_cache [OF assms(1)] by simp
qed

lemma reload_start_inv:
  assumes "distinct (map db_id tbl)" "\<forall>r \<in> set tbl. 0 \<le> db_config_version r"
  shows "reload_inv (reload_start tbl)"
proof -
  have "cache_lookup (snd (load_all (Inr tbl) cache_new)) i = map_option config_of_row (active_row tbl i)" for i
    using lookup_load [OF assms(1), of i]
    by (simp add: load_all_def select_active_def load_rows_select Let_def)
  then show ?thesis
    using assms fresh_entry_row(2)
    by (auto simp: reload_inv_def reload_start_def server_inv_def fresh_entry_def agrees_def)
qed

section \<open>Properties\<close>


definition renamed_row :: mcp_server where
  "renamed_row = sample_row\<lparr>db_name := ''Climate'', db_config_version := 2\<rparr>"

definition after_update :: reload_sys where
  "after_update =
     (let s = (reload_start [sample_row])
              \<lparr>rs_table := [renamed_row], rs_queue := [note_of ''update'' renamed_row]\<rparr>
      in s\<lparr>rs_queue := [], rs_sync := apply_payload (\<lambda>_. Inr [renamed_row]) (note_of ''update'' renamed_row) (rs_sync s)\<rparr>)"

lemma reach_after_update: "reach (\<lambda>s. s = reload_start [sample_row]) reload_step after_update"
proof -
  let ?s = "(reload_start [sample_row])\<lparr>rs_table := [renamed_row], rs_queue := [note_of ''update'' renamed_row]\<rparr>"
  have "reload_step (reload_start [sample_row]) ?s"
    using reload_step.db_update [of "reload_start [sample_row]" renamed_row sample_row]
    by (simp add: reload_start_def row_of_def renamed_row_def sample_row_def)
  moreover have "reload_step ?s after_update"
    using reload_step.deliver [of ?s "note_of ''update'' renamed_row" "[]"]
    by (simp add: after_update_def Let_def)
  ultimately show ?thesis by (blast intro: reach_init reach_step)
qed


text \<open>
  A configured connection limit does not survive a hot reload: the queries of this module do not
  select \<open>max_connections\<close>, so an applied insert or update notification leaves the server in
  the cache with the limit 50, whatever the row says, while a fetch on a cache miss gives the
  row's own limit.
\<close>

theorem reload_forgets_max_connections:
  assumes "op_kind_of n = Some Op_Update" "np_server_id n = i" "active_row tbl i = Some r"
    "map_of (ss_versions s) i = None" "0 \<le> np_config_version n"
  shows "map_option sc_max_connections
      (fst (cache_get i (ss_cache (apply_payload (\<lambda>_. Inr tbl) n s)))) = Some 50 \<and>
    map_option sc_max_connections (fst (cache_get i (snd (get_or_fetch (Inr tbl) i cache_new)))) =
      Some (word_of_int (max (db_max_connections r) 0))"
proof -
  have i: "db_id r = i" using assms(3) by (auto simp: active_row_def find_Some_iff)
  have "cache_lookup (ss_cache (apply_payload (\<lambda>_. Inr tbl) n s)) i =
      Some ((config_of_row r)\<lparr>sc_max_connections := 50\<rparr>)"
    using assms i by (simp add: apply_payload_def Let_def fetch_config_row store.lookup_upsert)
  moreover have "cache_lookup (snd (get_or_fetch (Inr tbl) i cache_new)) i = Some (config_of_row r)"
    using assms(3) i by (simp add: get_or_fetch_def Let_def select_active_by_id_def store.lookup_upsert
        cache_new_def flip: active_row_def)
  ultimately show ?thesis by (simp add: cache_get_def cache_lookup_def Let_def config_of_row_def)
qed

theorem reload_forgets_max_connections_witness:
  "map_option sc_max_connections
     (fst (cache_get 7 (ss_cache (apply_payload (\<lambda>_. Inr [sample_row]) (note_of ''update'' sample_row)
        \<lparr>ss_cache = cache_new, ss_versions = [], ss_queries = 0\<rparr>)))) = Some 50 \<and>
   db_max_connections sample_row = 200"
  using reload_forgets_max_connections [of "note_of ''update'' sample_row" 7 "[sample_row]" sample_row
      "\<lparr>ss_cache = cache_new, ss_versions = [], ss_queries = 0\<rparr>"]
  by (simp add: sample_row_def active_row_def is_active_def note_of_def op_kind_of_def)

definition best_ok :: "notification_payload list \<Rightarrow> (uuid \<times> notification_payload) list \<Rightarrow> bool" where
  "best_ok batch best \<longleftrightarrow>
     distinct (map fst best) \<and> fst ` set best = np_server_id ` set batch \<and>
     (\<forall>i n. map_of best i = Some n \<longrightarrow> n \<in> set batch \<and> np_server_id n = i \<and>
        (\<forall>m \<in> set batch. np_server_id m = i \<longrightarrow> np_config_version m \<le> np_config_version n))"

lemma best_ok_step:
  assumes "best_ok batch best"
  shows "best_ok (batch @ [m]) (coalesce_one m best)"
proof (cases "map_of best (np_server_id m)")
  case None
  then have "np_server_id m \<notin> fst ` set best" by (simp add: map_of_eq_None_iff)
  then have "np_server_id m \<notin> np_server_id ` set batch" using assms by (simp add: best_ok_def)
  then have "\<And>x. x \<in> set batch \<Longrightarrow> np_server_id x \<noteq> np_server_id m" by (metis imageI)
  with None assms show ?thesis
    by (auto simp: best_ok_def coalesce_one_def update_conv' distinct_update dom_update split: if_splits)
next
  case (Some e)
  have e: "e \<in> set batch" "np_server_id e = np_server_id m"
    and top: "\<And>x. x \<in> set batch \<Longrightarrow> np_server_id x = np_server_id m \<Longrightarrow>
      np_config_version x \<le> np_config_version e"
    using Some assms by (simp_all add: best_ok_def)
  have keys: "np_server_id ` set (batch @ [m]) = np_server_id ` set batch" using e by (auto simp: image_iff intro: sym)
  have mem: "np_server_id m \<in> fst ` set best" using Some by (force dest: map_of_SomeD)
  show ?thesis
  proof (cases "np_config_version m > np_config_version e")
    case True
    have "np_config_version x \<le> np_config_version m" if "x \<in> set batch" "np_server_id x = np_server_id m" for x
      using top [OF that] True by simp
    with True Some assms mem keys show ?thesis
      by (simp add: best_ok_def coalesce_one_def update_conv' distinct_update dom_update insert_absorb)
  next
    case False
    have "n \<in> set (batch @ [m]) \<and> np_server_id n = i \<and>
        (\<forall>x \<in> set (batch @ [m]). np_server_id x = i \<longrightarrow> np_config_version x \<le> np_config_version n)"
      if n: "map_of best i = Some n" for i n
    proof -
      have "n \<in> set batch" "np_server_id n = i"
        "\<forall>x \<in> set batch. np_server_id x = i \<longrightarrow> np_config_version x \<le> np_config_version n"
        using assms n unfolding best_ok_def by blast+
      moreover have "np_config_version m \<le> np_config_version n" if "np_server_id m = i"
        using that n Some False by simp
      ultimately show ?thesis by simp
    qed
    moreover have "coalesce_one m best = best" using False Some by (simp add: coalesce_one_def)
    ultimately show ?thesis using assms keys unfolding best_ok_def by simp
  qed
qed

lemma best_ok_fold: "best_ok batch (fold coalesce_one batch [])"
proof (induction batch rule: rev_induct)
  case Nil
  show ?case by (simp add: best_ok_def)
next
  case (snoc m batch)
  then show ?case by (simp add: best_ok_step)
qed

text \<open>
  Coalescing keeps exactly one notification per server of the batch, and it is one with the
  highest version of that server, whatever the iteration order of the hash map.
\<close>

theorem coalesce_keeps_highest:
  assumes "\<forall>xs. mset (iter_order xs) = mset xs"
  shows "distinct (map np_server_id (coalesce_batch iter_order batch)) \<and>
    np_server_id ` set (coalesce_batch iter_order batch) = np_server_id ` set batch \<and>
    (\<forall>n \<in> set (coalesce_batch iter_order batch). n \<in> set batch \<and>
       (\<forall>m \<in> set batch. np_server_id m = np_server_id n \<longrightarrow> np_config_version m \<le> np_config_version n))"
proof -
  define best where "best = fold coalesce_one batch []"
  have ok: "best_ok batch best" unfolding best_def by (rule best_ok_fold)
  have own: "np_server_id n = i \<and> map_of best i = Some n" if "(i, n) \<in> set best" for i n
    using that ok by (auto simp: best_ok_def)
  have ids: "map np_server_id (map snd best) = map fst best"
    using own by (auto intro!: map_cong)
  have perm: "mset (coalesce_batch iter_order batch) = mset (map snd best)"
    using assms by (simp add: coalesce_batch_def best_def)
  then have "mset (map np_server_id (coalesce_batch iter_order batch)) = mset (map fst best)"
    using ids by (metis mset_map)
  from mset_eq_imp_distinct_iff [OF this] mset_eq_setD [OF this]
  have "distinct (map np_server_id (coalesce_batch iter_order batch))"
    "np_server_id ` set (coalesce_batch iter_order batch) = fst ` set best"
    using ok by (simp_all add: best_ok_def)
  moreover have "set (coalesce_batch iter_order batch) = snd ` set best"
    using mset_eq_setD [OF perm] by simp
  ultimately show ?thesis using ok own unfolding best_ok_def by fastforce
qed

theorem coalesce_keeps_highest_witness:
  "np_server_id ` set (coalesce_batch rev [note_of ''insert'' sample_row, note_of ''update'' renamed_row]) = {7}"
  using coalesce_keeps_highest [of rev "[note_of ''insert'' sample_row, note_of ''update'' renamed_row]"]
  by (simp add: sample_row_def renamed_row_def)

text \<open>Twenty-one notifications: the sample server is updated and deleted, nineteen others inserted.\<close>

definition burst :: "notification_payload list" where
  "burst = [note_of ''update'' renamed_row, note_of ''delete'' renamed_row] @
     map (\<lambda>k. note_of ''insert'' (sample_row\<lparr>db_id := of_nat k\<rparr>)) [100..<119]"

definition already_applied :: sync_state where
  "already_applied =
     \<lparr>ss_cache = cache_upsert (config_of_row renamed_row) cache_new, ss_versions = [(7, 2)], ss_queries = 0\<rparr>"

text \<open>
  Coalescing can lose a deletion. The trigger sends a deletion with the version of the last
  update, so of an update and a deletion in one large batch the update is kept; if the gateway has
  already fetched that version, the update is discarded as stale and the deleted server stays in
  the cache, where the same batch applied without coalescing removes it.
\<close>

theorem coalesce_loses_delete:
  "length burst > COALESCE_THRESHOLD \<and>
   fst (cache_get 7 (ss_cache (apply_batch (\<lambda>_. Inr []) (coalesce_batch id burst) already_applied)))
     = Some (config_of_row renamed_row) \<and>
   fst (cache_get 7 (ss_cache (apply_batch (\<lambda>_. Inr []) burst already_applied))) = None"
  by code_simp

definition backoff_ok :: "loop_state \<Rightarrow> bool" where
  "backoff_ok l \<longleftrightarrow> 1 \<le> lp_backoff l \<and> lp_backoff l \<le> 30 \<and> (\<forall>d \<in> set (lp_slept l). 1 \<le> d \<and> d \<le> 30)"

lemma double_capped: "(1 :: u64) \<le> b \<Longrightarrow> b \<le> 30 \<Longrightarrow> 1 \<le> min (b * 2) 30 \<and> min (b * 2) 30 \<le> 30"
  by (simp add: word_le_nat_alt unat_word_ariths min_def)

lemma backoff_wait: "backoff_ok l \<Longrightarrow> backoff_ok (reconnect_wait db l)"
  using double_capped [of "lp_backoff l"]
  by (auto simp: backoff_ok_def reconnect_wait_def Let_def BACKOFF_INITIAL_SECS_def BACKOFF_MAX_SECS_def
      split: option.split prod.split)

lemma backoff_turn: "backoff_ok l \<Longrightarrow> backoff_ok (snd (sync_turn parse ord db now ses l))"
  using backoff_wait [of l db]
  by (simp add: sync_turn_def Let_def backoff_ok_def split: prod.split)

lemma backoff_loop: "backoff_ok l \<Longrightarrow> backoff_ok (run_sync_loop parse ord db turns l)"
proof (induction parse ord db turns l rule: run_sync_loop.induct)
  case (2 parse ord db now ses rest l)
  then show ?case
    using backoff_turn [OF 2(2), of parse ord db now ses]
    by (cases "sync_turn parse ord db now ses l") (auto split: bool.split)
qed simp

text \<open>
  Whatever the database does and however often the session fails, the reconnect loop never
  sleeps less than one or more than thirty seconds before a new attempt; after a replay that succeeds
  the next delay is one second, after one that fails it is twice the last, capped at thirty.
\<close>

theorem reconnect_backoff_bounded:
  "(\<forall>d \<in> set (lp_slept (run_sync_loop parse ord db turns (loop_init c flag))). 1 \<le> d \<and> d \<le> 30) \<and>
   lp_backoff (reconnect_wait db (l\<lparr>lp_disconnect := Some t\<rparr>)) =
     (if is_ok (fst (replay_missed_changes db t (lp_sync l))) then 1 else min (lp_backoff l * 2) 30)"
proof -
  have "backoff_ok (run_sync_loop parse ord db turns (loop_init c flag))"
    by (rule backoff_loop) (simp add: backoff_ok_def loop_init_def BACKOFF_INITIAL_SECS_def)
  then show ?thesis
    by (simp add: backoff_ok_def reconnect_wait_def Let_def BACKOFF_INITIAL_SECS_def BACKOFF_MAX_SECS_def
        split: prod.split)
qed

theorem reconnect_backoff_bounded_witness:
  "list_all (\<lambda>d. 1 \<le> d \<and> d \<le> 30) (lp_slept (run_sync_loop (\<lambda>_. None) id (\<lambda>_. Inl (Database ''down''))
      (replicate 3 (0, \<lparr>se_connect = Some (Database ''down''), se_listen = None, se_events = []\<rparr>))
      (loop_init cache_new False)))"
  using reconnect_backoff_bounded [of "\<lambda>_. None" id "\<lambda>_. Inl (Database ''down'')"
      "replicate 3 (0, \<lparr>se_connect = Some (Database ''down''), se_listen = None, se_events = []\<rparr>)"
      cache_new False]
  unfolding list_all_iff by blast

lemma run_life_frame [simp]:
  "sv_panics (run_life parse ord db turns sv) = sv_panics sv"
  "sv_cooldowns (run_life parse ord db turns sv) = sv_cooldowns sv"
  by (simp_all add: run_life_def Let_def)

text \<open>
  The supervisor restarts its task after every panic and only then: it counts the lives up to the
  first that ends normally, and waits exactly one second after each of them.
\<close>

theorem supervisor_restarts:
  "let panicked = takeWhile (\<lambda>(_, _, outcome). outcome = Task_Panicked) lives;
       sv = start_task parse ord lives (sync_task_new c)
   in sv_panics sv = length panicked \<and> sv_cooldowns sv = replicate (length panicked) 1"
proof -
  have "sv_panics (start_task parse ord lives sv) = sv_panics sv + n \<and>
      sv_cooldowns (start_task parse ord lives sv) = sv_cooldowns sv @ replicate n 1"
    if "n = length (takeWhile (\<lambda>(_, _, outcome). outcome = Task_Panicked) lives)" for sv n
    using that
    by (induction parse ord lives sv arbitrary: n rule: start_task.induct)
      (auto simp: Let_def split: task_outcome.split)
  then show ?thesis by (simp add: sync_task_new_def Let_def)
qed

lemma listen_loop_quiet [simp]: "listen_loop parse ord db [] s = (None, s)"
  by (simp add: listen_loop.simps collect_batch_def)

text \<open>
  The first turn of a life makes no replay query: a session without notifications leaves the cache
  as it found it, whatever the database holds, and a flag that was up stays up, even when the
  session does not connect.
\<close>

lemma first_turn_quiet:
  assumes "se_events ses = []"
  shows "sv_cache (run_life parse ord db [(now, ses)] sv) = sv_cache sv \<and>
    (sv_connected sv \<longrightarrow> sv_connected (run_life parse ord db [(now, ses)] sv))"
  using assms
  by (auto simp: run_life_def Let_def sync_turn_def reconnect_wait_def loop_init_def run_listener_once_def
      split: option.split)

text \<open>
  A panic loses the changes made while the task was down. The restarted loop has no time of a
  disconnect, so it neither replays nor marks the connection as lost: until a notification arrives
  the cache stays as the panicked task left it, whatever the database holds by then, and a
  readiness probe that saw the connection up keeps seeing it up, from the panic on and even when
  the restarted task cannot connect.
\<close>

theorem restart_skips_replay:
  assumes "se_events ses = []"
  shows "sv_cache (start_task parse ord [(db, turns, Task_Panicked), (db', [(now, ses)], outcome)] sv) =
      sv_cache (start_task parse ord [(db, turns, Task_Panicked)] sv) \<and>
    (sv_connected (start_task parse ord [(db, turns, Task_Panicked)] sv) \<longrightarrow>
     sv_connected (start_task parse ord [(db, turns, Task_Panicked), (db', [(now, ses)], outcome)] sv))"
  using first_turn_quiet [OF assms, of parse ord db' now "run_life parse ord db turns sv"]
  by (auto simp: run_life_def Let_def split: task_outcome.split)

definition quiet_session :: session where
  "quiet_session = \<lparr>se_connect = None, se_listen = None, se_events = []\<rparr>"

definition lost_session :: session where
  "lost_session = \<lparr>se_connect = None, se_listen = None, se_events = [(0, Recv_Error (Database ''gone''))]\<rparr>"

text \<open>
  The same change of the table after a connection that was lost instead of a panic is replayed.
\<close>

theorem restart_skips_replay_witness:
  "let sv = sync_task_new (cache_upsert (config_of_row sample_row) cache_new);
       db = (\<lambda>_. Inr [renamed_row]);
       panic = start_task (\<lambda>_. None) id [(db, [(0, quiet_session)], Task_Panicked), (db, [(1, quiet_session)], Task_Panicked)] sv;
       lost = start_task (\<lambda>_. None) id [(db, [(0, lost_session), (1, quiet_session)], Task_Panicked)] sv
   in map_option sc_config_version (fst (cache_get 7 (sv_cache panic))) = Some 1 \<and> sv_connected panic \<and>
      map_option sc_config_version (fst (cache_get 7 (sv_cache lost))) = Some 2"
proof -
  let ?sv = "sync_task_new (cache_upsert (config_of_row sample_row) cache_new)"
  let ?db = "\<lambda>_. Inr [renamed_row] :: sqlx_error + mcp_server list"
  have "map_option sc_config_version (fst (cache_get 7
      (sv_cache (start_task (\<lambda>_. None) id [(?db, [(0, quiet_session)], Task_Panicked)] ?sv)))) = Some 1"
    "sv_connected (start_task (\<lambda>_. None) id [(?db, [(0, quiet_session)], Task_Panicked)] ?sv)"
    "map_option sc_config_version (fst (cache_get 7 (sv_cache (start_task (\<lambda>_. None) id
      [(?db, [(0, lost_session), (1, quiet_session)], Task_Panicked)] ?sv)))) = Some 2"
    by code_simp+
  moreover have "se_events quiet_session = []" by (simp add: quiet_session_def)
  note restart_skips_replay [OF this, of "\<lambda>_. None" id ?db "[(0, quiet_session)]" ?db 1 Task_Panicked ?sv]
  ultimately show ?thesis by (simp only: Let_def simp_thms)
qed

end
