(* ===== verification/Template.thy ===== *)
theory Template
  imports Json
begin

text \<open>
  Placeholder templates (\<open>services/gateway/src/util/template.rs\<close>): the scanner
  \<open>extract_placeholders\<close>, and the view of a template as literal text and holes against which
  the scanner and the substitutions of the request builder are specified. The scanner compares
  characters with braces only, so it is run over the bytes of the template.
\<close>

section \<open>The scanner\<close>

fun scan_placeholders :: "string list \<Rightarrow> bool \<Rightarrow> string \<Rightarrow> string \<Rightarrow> string list" where
  "scan_placeholders names in_placeholder current [] = names"
| "scan_placeholders names in_placeholder current (ch # rest) =
     (if ch = CHR ''{'' then scan_placeholders names True [] rest
      else if ch = CHR ''}'' \<and> in_placeholder then
        scan_placeholders
          (if current \<noteq> [] \<and> current \<notin> set names then names @ [current] else names) False [] rest
      else if in_placeholder then scan_placeholders names in_placeholder (current @ [ch]) rest
      else scan_placeholders names in_placeholder current rest)"

definition extract_placeholders :: "string \<Rightarrow> string list" where
  "extract_placeholders template = scan_placeholders [] False [] template"

section \<open>Templates as literals and holes\<close>

datatype segment = Lit string | Hole string

definition brace_free :: "string \<Rightarrow> bool" where
  "brace_free s = (CHR ''{'' \<notin> set s \<and> CHR ''}'' \<notin> set s)"

definition placeholder :: "string \<Rightarrow> string" where
  "placeholder name = CHR ''{'' # name @ [CHR ''}'']"

fun segment_text :: "segment \<Rightarrow> string" where
  "segment_text (Lit s) = s"
| "segment_text (Hole n) = placeholder n"

definition render :: "segment list \<Rightarrow> string" where
  "render segs = concat (map segment_text segs)"

fun segment_ok :: "segment \<Rightarrow> bool" where
  "segment_ok (Lit s) = brace_free s"
| "segment_ok (Hole n) = (n \<noteq> [] \<and> brace_free n)"

definition segments_ok :: "segment list \<Rightarrow> bool" where
  "segments_ok segs = list_all segment_ok segs"

fun hole_names :: "segment list \<Rightarrow> string list" where
  "hole_names [] = []"
| "hole_names (Lit s # segs) = hole_names segs"
| "hole_names (Hole n # segs) = n # hole_names segs"

text \<open>The names in order of first occurrence.\<close>

fun first_occurrences :: "'a list \<Rightarrow> 'a list \<Rightarrow> 'a list" where
  "first_occurrences acc [] = acc"
| "first_occurrences acc (x # xs) = first_occurrences (if x \<in> set acc then acc else acc @ [x]) xs"

lemma set_first_occurrences [simp]: "set (first_occurrences acc xs) = set acc \<union> set xs"
  by (induction acc xs rule: first_occurrences.induct) auto

lemma distinct_first_occurrences: "distinct acc \<Longrightarrow> distinct (first_occurrences acc xs)"
  by (induction acc xs rule: first_occurrences.induct) auto

lemma first_occurrences_prefix: "\<exists>bs. first_occurrences acc xs = acc @ bs"
  by (induction acc xs rule: first_occurrences.induct) (auto split: if_splits)

lemma find_append_hit: "\<forall>y \<in> set acc. \<not> P y \<Longrightarrow> P x \<Longrightarrow> find P (acc @ x # bs) = Some x"
  by (induction acc) auto

lemma find_first_occurrences:
  "(\<forall>x \<in> set acc. \<not> P x) \<Longrightarrow> find P (first_occurrences acc xs) = find P xs"
proof (induction acc xs rule: first_occurrences.induct)
  case (2 acc x xs)
  obtain bs where "first_occurrences (acc @ [x]) xs = acc @ x # bs"
    using first_occurrences_prefix [of "acc @ [x]" xs] by auto
  with 2 find_append_hit [of acc P x bs] show ?case by (cases "P x") auto
qed (simp add: find_None_iff)

lemma brace_free_simps [simp]:
  "brace_free []"
  "brace_free (c # s) \<longleftrightarrow> c \<noteq> CHR ''{'' \<and> c \<noteq> CHR ''}'' \<and> brace_free s"
  "brace_free (s @ t) \<longleftrightarrow> brace_free s \<and> brace_free t"
  by (auto simp: brace_free_def)

lemma scan_lit: "brace_free s \<Longrightarrow>
    scan_placeholders names False cur (s @ rest) = scan_placeholders names False cur rest"
  by (induction s) auto

lemma scan_name: "brace_free n \<Longrightarrow>
    scan_placeholders names True cur (n @ rest) = scan_placeholders names True (cur @ n) rest"
  by (induction n arbitrary: cur) auto

lemma scan_hole: "n \<noteq> [] \<Longrightarrow> brace_free n \<Longrightarrow>
    scan_placeholders names False cur (placeholder n @ rest) =
    scan_placeholders (if n \<in> set names then names else names @ [n]) False [] rest"
  by (simp add: placeholder_def scan_name)

lemma scan_current: "scan_placeholders names False cur s = scan_placeholders names False [] s"
  by (induction s) auto

lemma scan_render: "segments_ok segs \<Longrightarrow>
    scan_placeholders names False [] (render segs) = first_occurrences names (hole_names segs)"
proof (induction segs arbitrary: names rule: hole_names.induct)
  case (2 s segs)
  then show ?case by (simp add: render_def segments_ok_def scan_lit)
next
  case (3 n segs)
  then show ?case by (simp add: render_def segments_ok_def scan_hole)
qed (simp add: render_def)

lemma extract_render:
  "segments_ok segs \<Longrightarrow> extract_placeholders (render segs) = first_occurrences [] (hole_names segs)"
  by (simp add: extract_placeholders_def scan_render)

text \<open>
  For a template made of brace-free text and non-empty, brace-free placeholder names,
  \<open>extract_placeholders\<close> returns the names in order of first occurrence, each once.
\<close>

theorem extract_placeholders_spec:
  assumes "segments_ok segs"
  shows "extract_placeholders (render segs) = first_occurrences [] (hole_names segs) \<and>
    distinct (extract_placeholders (render segs)) \<and>
    set (extract_placeholders (render segs)) = set (hole_names segs)"
  using extract_render [OF assms] by (simp add: distinct_first_occurrences)

theorem extract_placeholders_spec_witness:
  "extract_placeholders ''/users/{id}/posts/{post}/{id}'' = [''id'', ''post'']"
  using extract_placeholders_spec [of "[Lit ''/users/'', Hole ''id'', Lit ''/posts/'', Hole ''post'', Lit ''/'', Hole ''id'']"]
  by (simp add: segments_ok_def render_def placeholder_def)

section \<open>Substitution of one hole\<close>

fun fill :: "string \<Rightarrow> string \<Rightarrow> segment \<Rightarrow> segment" where
  "fill n v (Lit s) = Lit s"
| "fill n v (Hole m) = (if m = n then Lit v else Hole m)"

lemma not_start_placeholder: "c \<noteq> CHR ''{'' \<Longrightarrow> \<not> starts_with (placeholder n) (c # s)"
  by (simp add: starts_with_def placeholder_def)

lemma placeholder_nonempty [simp]: "placeholder n \<noteq> []"
  by (simp add: placeholder_def)

lemma replace_skip: "CHR ''{'' \<notin> set s \<Longrightarrow>
    replace_str (placeholder n) v (s @ rest) = s @ replace_str (placeholder n) v rest"
  by (induction s) (auto simp: replace_str_miss not_start_placeholder)

lemma name_unique:
  "brace_free n \<Longrightarrow> brace_free m \<Longrightarrow> n @ CHR ''}'' # r = m @ CHR ''}'' # r' \<Longrightarrow> n = m"
proof (induction n arbitrary: m)
  case Nil
  then show ?case by (cases m) auto
next
  case (Cons c n)
  then show ?case by (cases m) auto
qed

lemma not_start_other:
  assumes "brace_free n" "brace_free m" "m \<noteq> n"
  shows "\<not> starts_with (placeholder n) (placeholder m @ rest)"
  using assms name_unique [of m n] by (auto simp: starts_with_iff placeholder_def)

lemma replace_render:
  assumes "segments_ok segs" "brace_free n"
  shows "replace_str (placeholder n) v (render segs) = render (map (fill n v) segs)"
  using assms(1)
proof (induction segs)
  case (Cons seg segs)
  then have IH: "replace_str (placeholder n) v (render segs) = render (map (fill n v) segs)"
    by (simp add: segments_ok_def)
  show ?case
  proof (cases seg)
    case (Lit s)
    then show ?thesis using Cons.prems IH
      by (simp add: render_def segments_ok_def replace_skip brace_free_def)
  next
    case (Hole m)
    show ?thesis
    proof (cases "m = n")
      case True
      with Hole IH show ?thesis by (simp add: render_def replace_str_hit)
    next
      case False
      have m: "brace_free m" using Cons.prems Hole by (simp add: segments_ok_def)
      have "\<not> starts_with (placeholder n) (CHR ''{'' # (m @ ''}'') @ render segs)"
        using not_start_other [OF assms(2) m False, of "render segs"] by (simp add: placeholder_def)
      then have "replace_str (placeholder n) v (placeholder m @ render segs) =
          CHR ''{'' # replace_str (placeholder n) v ((m @ ''}'') @ render segs)"
        by (simp add: placeholder_def [of m] replace_str_miss)
      also have "\<dots> = placeholder m @ replace_str (placeholder n) v (render segs)"
        using m by (subst replace_skip) (auto simp: brace_free_def placeholder_def)
      finally show ?thesis using Hole False IH by (simp add: render_def)
    qed
  qed
qed (simp add: render_def)

lemma fill_ok: "segments_ok segs \<Longrightarrow> brace_free v \<Longrightarrow> segments_ok (map (fill n v) segs)"
  unfolding segments_ok_def list_all_iff
  by (auto, rename_tac x, case_tac x) auto

end
