(* ===== verification/Upstream.thy ===== *)
theory Upstream
  imports Template Config_Cache
begin

text \<open>
  The upstream request builder (\<open>services/gateway/src/upstream.rs\<close>): a tool call and a server
  configuration become a method, a URL, headers, a body and a timeout.

  What belongs to other crates is a field of \<open>upstream_ext\<close>: percent encoding, the printing of
  a JSON value, deserialisation of the configuration, and Unicode upper case. \<open>percent_encode_ok\<close>
  states the documented behaviour of the first.
\<close>

section \<open>Data\<close>

definition MAX_URL_LEN :: nat where "MAX_URL_LEN = 8192"
definition DEFAULT_TIMEOUT_MS :: u64 where "DEFAULT_TIMEOUT_MS = 30000"
definition USER_AGENT :: string where "USER_AGENT = ''mcp-gateway/1.0''"

definition CONTROLS :: "char \<Rightarrow> bool" where
  "CONTROLS c = (let n = (of_char c :: nat) in n < 32 \<or> n = 127)"

definition PATH_ENCODE_SET :: "char \<Rightarrow> bool" where
  "PATH_ENCODE_SET c =
     (CONTROLS c \<or> c \<in> set '' #%<>?{}/:;@=&+$,!()*'' \<or> c = CHR 0x22 \<or> c = CHR 0x27 \<or> c = CHR 0x60)"

definition QUERY_ENCODE_SET :: "char \<Rightarrow> bool" where
  "QUERY_ENCODE_SET c = (CONTROLS c \<or> c \<in> set '' #%&+=<>?{}'' \<or> c = CHR 0x22 \<or> c = CHR 0x60)"

datatype auth_type = AuthNone | Bearer | ApiKeyHeader | ApiKeyQuery | Basic

record query_param_def =
  qp_key :: string
  qp_default :: "string option"

record parameter_def =
  pd_name :: string
  pd_param_type :: string
  pd_required :: bool
  pd_location :: string

record tool_definition =
  td_name :: string
  td_description :: string
  td_http_method :: string
  td_path_template :: string
  td_query_params :: "query_param_def list"
  td_body_template :: "json option"
  td_parameters :: "parameter_def list"

record gateway_config =
  gc_base_url :: string
  gc_timeout_ms :: u64
  gc_auth_type :: auth_type
  gc_tools :: "tool_definition list"

record tool_call_params =
  tc_name :: string
  tc_arguments :: "(string \<times> json) list"

record upstream_request =
  ur_method :: string
  ur_url :: string
  ur_headers :: "(string \<times> string) list"
  ur_body :: "json option"
  ur_timeout :: u64

datatype build_error =
    MissingPathParam string
  | InsecureUrl
  | UrlTooLong nat
  | InvalidBodyTemplate string
  | InvalidConfig string
  | ToolNotFound string

record upstream_ext =
  ux_percent_encode :: "(char \<Rightarrow> bool) \<Rightarrow> string \<Rightarrow> string"
  ux_to_string :: "json \<Rightarrow> string"
  ux_from_value :: "json \<Rightarrow> string + gateway_config"
  ux_to_uppercase :: "string \<Rightarrow> string"

text \<open>Percent encoding: a byte of the set, or outside ASCII, becomes its two upper-case hex digits.\<close>

definition hex_digit :: "nat \<Rightarrow> char" where
  "hex_digit d = (if d < 10 then char_of (48 + d) else char_of (55 + d))"

definition encode_byte :: "(char \<Rightarrow> bool) \<Rightarrow> char \<Rightarrow> string" where
  "encode_byte S c =
     (let n = (of_char c :: nat) in
      if S c \<or> 128 \<le> n then [CHR ''%'', hex_digit (n div 16), hex_digit (n mod 16)] else [c])"

definition percent_encode_ok :: "upstream_ext \<Rightarrow> bool" where
  "percent_encode_ok ux \<longleftrightarrow> (\<forall>S s. ux_percent_encode ux S s = concat (map (encode_byte S) s))"

section \<open>Helpers of the builder\<close>

fun value_to_string :: "upstream_ext \<Rightarrow> json \<Rightarrow> string" where
  "value_to_string ux (String s) = s"
| "value_to_string ux other = ux_to_string ux other"

definition extract_single_placeholder :: "string \<Rightarrow> string option" where
  "extract_single_placeholder s0 =
     (let s = trim s0 in
      if starts_with ''{'' s \<and> ends_with ''}'' s \<and> length s > 2 then
        (let inner = take (length s - 2) (drop 1 s) in
         if \<not> contains_str ''{'' inner \<and> \<not> contains_str ''}'' inner then Some inner else None)
      else None)"

fun interpolate_path_loop ::
  "upstream_ext \<Rightarrow> (string \<times> json) list \<Rightarrow> string list \<Rightarrow> string \<Rightarrow> build_error + string" where
  "interpolate_path_loop ux args [] result = Inr result"
| "interpolate_path_loop ux args (name # names) result =
     (case obj_get name args of
        None \<Rightarrow> Inl (MissingPathParam name)
      | Some v \<Rightarrow>
          let raw_value = value_to_string ux v;
              encoded = ux_percent_encode ux PATH_ENCODE_SET raw_value
          in interpolate_path_loop ux args names (replace_str (placeholder name) encoded result))"

definition interpolate_path :: "upstream_ext \<Rightarrow> string \<Rightarrow> (string \<times> json) list \<Rightarrow> build_error + string" where
  "interpolate_path ux template args =
     (if \<not> contains_str ''{'' template then Inr template
      else interpolate_path_loop ux args (extract_placeholders template) template)"

definition query_value :: "upstream_ext \<Rightarrow> (string \<times> json) list \<Rightarrow> query_param_def \<Rightarrow> string option" where
  "query_value ux args d =
     (case obj_get (qp_key d) args of
        Some v \<Rightarrow> Some (value_to_string ux v)
      | None \<Rightarrow> qp_default d)"

fun query_pairs :: "upstream_ext \<Rightarrow> (string \<times> json) list \<Rightarrow> query_param_def list \<Rightarrow> string list" where
  "query_pairs ux args [] = []"
| "query_pairs ux args (d # ds) =
     (case query_value ux args d of
        Some v \<Rightarrow>
          (ux_percent_encode ux QUERY_ENCODE_SET (qp_key d) @ ''='' @
             ux_percent_encode ux QUERY_ENCODE_SET v) # query_pairs ux args ds
      | None \<Rightarrow> query_pairs ux args ds)"

definition build_query_string :: "upstream_ext \<Rightarrow> query_param_def list \<Rightarrow> (string \<times> json) list \<Rightarrow> string" where
  "build_query_string ux params args = join ''&'' (query_pairs ux args params)"

definition missing_argument :: "string \<Rightarrow> string" where
  "missing_argument name =
     ''missing argument for placeholder '' @ [CHR 0x27] @ name @ [CHR 0x27]"

fun interpolate_string_loop ::
  "upstream_ext \<Rightarrow> (string \<times> json) list \<Rightarrow> string list \<Rightarrow> string \<Rightarrow> string + string" where
  "interpolate_string_loop ux args [] result = Inr result"
| "interpolate_string_loop ux args (name # names) result =
     (case obj_get name args of
        None \<Rightarrow> Inl (missing_argument name)
      | Some v \<Rightarrow>
          interpolate_string_loop ux args names
            (replace_str (placeholder name) (value_to_string ux v) result))"

definition interpolate_string :: "upstream_ext \<Rightarrow> (string \<times> json) list \<Rightarrow> string \<Rightarrow> string + json" where
  "interpolate_string ux args s =
     (case extract_single_placeholder s of
        Some name \<Rightarrow> ok_or (missing_argument name) (obj_get name args)
      | None \<Rightarrow>
          if contains_str ''{'' s
          then and_then (interpolate_string_loop ux args (extract_placeholders s) s)
                 (\<lambda>r. Inr (String r))
          else Inr (String s))"

fun interpolate_body :: "upstream_ext \<Rightarrow> (string \<times> json) list \<Rightarrow> json \<Rightarrow> string + json" where
  "interpolate_body ux args (Object kvs) =
     and_then (collect_results (\<lambda>(k, v). and_then (interpolate_body ux args v) (\<lambda>v'. Inr (k, v'))) kvs)
       (\<lambda>kvs'. Inr (Object (obj_of kvs')))"
| "interpolate_body ux args (Array xs) =
     and_then (collect_results (interpolate_body ux args) xs) (\<lambda>ys. Inr (Array ys))"
| "interpolate_body ux args (String s) = interpolate_string ux args s"
| "interpolate_body ux args other = Inr other"

section \<open>The builder\<close>

record upstream_request_builder =
  allow_http :: bool

definition builder_new :: "string option \<Rightarrow> upstream_request_builder" where
  "builder_new env =
     \<lparr>allow_http = (case env of Some v \<Rightarrow> eq_ignore_ascii_case v ''true'' | None \<Rightarrow> False)\<rparr>"

definition with_allow_http :: "bool \<Rightarrow> upstream_request_builder" where
  "with_allow_http b = \<lparr>allow_http = b\<rparr>"

definition join_url :: "string \<Rightarrow> string \<Rightarrow> string" where
  "join_url base_url interpolated_path =
     (let base = trim_end_char CHR ''/'' base_url;
          path = trim_start_char CHR ''/'' interpolated_path
      in if path = [] then base else base @ ''/'' @ path)"

definition build :: "upstream_ext \<Rightarrow> upstream_request_builder \<Rightarrow> server_config \<Rightarrow> tool_call_params
   \<Rightarrow> build_error + upstream_request" where
  "build ux b config tool_call =
     and_then (map_err InvalidConfig (ux_from_value ux (sc_config_json config))) (\<lambda>gw.
     and_then (ok_or (ToolNotFound (tc_name tool_call))
                (find (\<lambda>t. td_name t = tc_name tool_call) (gc_tools gw))) (\<lambda>tool.
     if \<not> allow_http b \<and> \<not> starts_with ''https://'' (gc_base_url gw) then Inl InsecureUrl
     else
     and_then (interpolate_path ux (td_path_template tool) (tc_arguments tool_call)) (\<lambda>path.
     let url0 = join_url (gc_base_url gw) path;
         query_string = build_query_string ux (td_query_params tool) (tc_arguments tool_call);
         url = (if query_string \<noteq> [] then url0 @ ''?'' @ query_string else url0)
     in if length url > MAX_URL_LEN then Inl (UrlTooLong (length url))
        else
          let headers = obj_insert ''User-Agent'' USER_AGENT [];
              method = ux_to_uppercase ux (td_http_method tool)
          in and_then
               (if method \<in> {''POST'', ''PUT'', ''PATCH''} then
                  and_then
                    (case td_body_template tool of
                       Some template \<Rightarrow>
                         map_err InvalidBodyTemplate (interpolate_body ux (tc_arguments tool_call) template)
                     | None \<Rightarrow> Inr (Object []))
                    (\<lambda>body. Inr (Some body, obj_insert ''Content-Type'' ''application/json'' headers))
                else Inr (None, headers))
               (\<lambda>(body, headers).
                  Inr \<lparr>ur_method = method, ur_url = url, ur_headers = headers, ur_body = body,
                       ur_timeout = gc_timeout_ms gw\<rparr>))))"

section \<open>Encoding and templates\<close>

lemma hex_digit_mem: "d < 16 \<Longrightarrow> hex_digit d \<in> set ''0123456789ABCDEF''"
proof -
  assume "d < 16"
  then have "d \<in> set [0..<16]" by simp
  moreover have "\<forall>d \<in> set [0..<16]. hex_digit d \<in> set ''0123456789ABCDEF''" by code_simp
  ultimately show ?thesis by blast
qed

lemma char_bound: "(of_char c :: nat) < 256"
  using of_char_mod_256 [of c] by (metis mod_less_divisor zero_less_numeral)

lemma encode_byte_chars: "x \<in> set (encode_byte S c) \<Longrightarrow>
    x = CHR ''%'' \<or> x \<in> set ''0123456789ABCDEF'' \<or> \<not> S x"
  using hex_digit_mem [of "of_char c div 16"] hex_digit_mem [of "of_char c mod 16"] char_bound [of c]
  by (auto simp: encode_byte_def Let_def less_mult_imp_div_less split: if_splits)

lemma encoded_chars:
  assumes "percent_encode_ok ux" "S x" "x \<noteq> CHR ''%''" "x \<notin> set ''0123456789ABCDEF''"
  shows "x \<notin> set (ux_percent_encode ux S s)"
  using assms encode_byte_chars by (fastforce simp: percent_encode_ok_def)

lemma encoded_brace_free: "percent_encode_ok ux \<Longrightarrow> brace_free (ux_percent_encode ux PATH_ENCODE_SET s)"
  using encoded_chars [of ux PATH_ENCODE_SET "CHR ''{''"] encoded_chars [of ux PATH_ENCODE_SET "CHR ''}''"]
  by (simp add: brace_free_def PATH_ENCODE_SET_def)

definition path_value :: "upstream_ext \<Rightarrow> (string \<times> json) list \<Rightarrow> string \<Rightarrow> string" where
  "path_value ux args n =
     (case obj_get n args of
        Some v \<Rightarrow> ux_percent_encode ux PATH_ENCODE_SET (value_to_string ux v) | None \<Rightarrow> [])"

fun segment_value :: "(string \<Rightarrow> string) \<Rightarrow> segment \<Rightarrow> string" where
  "segment_value val (Lit s) = s"
| "segment_value val (Hole n) = val n"

fun fill_names :: "(string \<Rightarrow> string) \<Rightarrow> string set \<Rightarrow> segment \<Rightarrow> segment" where
  "fill_names val N (Lit s) = Lit s"
| "fill_names val N (Hole n) = (if n \<in> N then Lit (val n) else Hole n)"

lemma fill_names_Nil: "fill_names val {} = (\<lambda>seg. seg)"
  by (rule ext, rename_tac seg, case_tac seg) simp_all

lemma fill_names_step: "fill_names val N (fill n (val n) seg) = fill_names val (insert n N) seg"
  by (cases seg) simp_all

lemma fold_fill: "fold (\<lambda>n. map (fill n (val n))) names segs = map (fill_names val (set names)) segs"
  by (induction names arbitrary: segs) (simp_all add: fill_names_Nil fill_names_step)

lemma render_filled: "set (hole_names segs) \<subseteq> N \<Longrightarrow>
    render (map (fill_names val N) segs) = concat (map (segment_value val) segs)"
  by (induction segs rule: hole_names.induct) (simp_all add: render_def)

lemma path_loop_render:
  assumes ux: "percent_encode_ok ux"
  shows "segments_ok segs \<Longrightarrow> \<forall>n \<in> set names. brace_free n \<Longrightarrow>
    interpolate_path_loop ux args names (render segs) =
      (case find (\<lambda>n. obj_get n args = None) names of
         Some n \<Rightarrow> Inl (MissingPathParam n)
       | None \<Rightarrow> Inr (render (fold (\<lambda>n. map (fill n (path_value ux args n))) names segs)))"
proof (induction names arbitrary: segs)
  case (Cons n names)
  show ?case
  proof (cases "obj_get n args")
    case (Some v)
    then have val: "path_value ux args n = ux_percent_encode ux PATH_ENCODE_SET (value_to_string ux v)"
      by (simp add: path_value_def)
    then have "brace_free (path_value ux args n)" by (simp add: encoded_brace_free [OF ux])
    then have "segments_ok (map (fill n (path_value ux args n)) segs)"
      using Cons.prems(1) by (rule fill_ok [rotated])
    with Some Cons show ?thesis
      by (simp add: Let_def replace_render flip: val split: option.split)
  qed simp
qed simp

lemma segments_hole_names: "segments_ok segs \<Longrightarrow> n \<in> set (hole_names segs) \<Longrightarrow> brace_free n \<and> n \<noteq> []"
  by (induction segs rule: hole_names.induct) (auto simp: segments_ok_def)

lemma hole_brace: "hole_names segs \<noteq> [] \<Longrightarrow> CHR ''{'' \<in> set (render segs)"
  by (induction segs rule: hole_names.induct) (auto simp: render_def placeholder_def)

lemma interpolate_path_render:
  assumes "percent_encode_ok ux" "segments_ok segs"
  shows "interpolate_path ux (render segs) args =
    (case find (\<lambda>n. obj_get n args = None) (hole_names segs) of
       Some n \<Rightarrow> Inl (MissingPathParam n)
     | None \<Rightarrow> Inr (concat (map (segment_value (path_value ux args)) segs)))"
proof (cases "CHR ''{'' \<in> set (render segs)")
  case True
  have "\<forall>n \<in> set (first_occurrences [] (hole_names segs)). brace_free n"
    using segments_hole_names [OF assms(2)] by simp
  from path_loop_render [OF assms(1,2) this] True show ?thesis
    by (simp add: interpolate_path_def contains_char extract_render [OF assms(2)] fold_fill
        find_first_occurrences render_filled split: option.split)
next
  case False
  then have none: "hole_names segs = []" using hole_brace by blast
  then have "render segs = concat (map (segment_value (path_value ux args)) segs)"
    using render_filled [of segs "{}" "path_value ux args"] by (simp add: fill_names_Nil)
  with False none show ?thesis by (simp add: interpolate_path_def contains_char)
qed

section \<open>Properties\<close>

text \<open>An instance of the external functions with which the assumptions hold.\<close>

definition sample_ux :: upstream_ext where
  "sample_ux =
     \<lparr>ux_percent_encode = (\<lambda>S s. concat (map (encode_byte S) s)), ux_to_string = (\<lambda>_. ''null''),
      ux_from_value = (\<lambda>_. Inl ''no config''), ux_to_uppercase = to_ascii_uppercase\<rparr>"

lemma sample_ux_ok: "percent_encode_ok sample_ux"
  by (simp add: percent_encode_ok_def sample_ux_def)

text \<open>
  C14: On a template of literals and placeholders, \<open>interpolate_path\<close> is simultaneous substitution:
  it fails with the first placeholder that has no argument, and otherwise returns the template with
  every placeholder replaced by the percent-encoded text of its argument. The values replaced one
  after another cannot be mistaken for placeholders.
\<close>

theorem interpolate_path_simultaneous:
  assumes "percent_encode_ok ux" "segments_ok segs"
  shows "interpolate_path ux (render segs) args =
    (case find (\<lambda>n. obj_get n args = None) (hole_names segs) of
       Some n \<Rightarrow> Inl (MissingPathParam n)
     | None \<Rightarrow> Inr (concat (map (segment_value (path_value ux args)) segs)))"
  by (rule interpolate_path_render [OF assms])

theorem interpolate_path_simultaneous_witness:
  "interpolate_path sample_ux ''/u/{id}/{x}'' [(''id'', String ''{x}/..''), (''x'', String ''1'')] =
     Inr ''/u/%7Bx%7D%2F../1''"
proof -
  have "interpolate_path sample_ux (render [Lit ''/u/'', Hole ''id'', Lit ''/'', Hole ''x''])
      [(''id'', String ''{x}/..''), (''x'', String ''1'')] = Inr ''/u/%7Bx%7D%2F../1''"
    by (subst interpolate_path_simultaneous [OF sample_ux_ok]) code_simp+
  then show ?thesis by (simp add: render_def placeholder_def)
qed

text \<open>The delimiters of a URL: the encoded characters other than the percent sign itself.\<close>

definition is_delimiter :: "char \<Rightarrow> bool" where
  "is_delimiter c = (PATH_ENCODE_SET c \<and> c \<noteq> CHR ''%'')"

lemma delimiter_not_hex: "is_delimiter c \<Longrightarrow> c \<notin> set ''0123456789ABCDEF''"
  by (auto simp: is_delimiter_def PATH_ENCODE_SET_def CONTROLS_def)

lemma no_delimiter_in_value:
  "percent_encode_ok ux \<Longrightarrow> filter is_delimiter (path_value ux args n) = []"
  using encoded_chars [of ux PATH_ENCODE_SET] delimiter_not_hex
  by (fastforce simp: path_value_def filter_empty_conv is_delimiter_def split: option.split)



text \<open>The query parameters that are sent: those with an argument or a default.\<close>

fun query_params_sent :: "upstream_ext \<Rightarrow> (string \<times> json) list \<Rightarrow> query_param_def list \<Rightarrow> (string \<times> string) list" where
  "query_params_sent ux args [] = []"
| "query_params_sent ux args (d # ds) =
     (case query_value ux args d of
        Some v \<Rightarrow> (qp_key d, v) # query_params_sent ux args ds
      | None \<Rightarrow> query_params_sent ux args ds)"

lemma query_pairs_sent:
  "query_pairs ux args ds =
     map (\<lambda>(k, v). ux_percent_encode ux QUERY_ENCODE_SET k @ ''='' @ ux_percent_encode ux QUERY_ENCODE_SET v)
       (query_params_sent ux args ds)"
  by (induction ds) (auto split: option.split)

lemma query_encoded_free:
  assumes "percent_encode_ok ux"
  shows "CHR ''&'' \<notin> set (ux_percent_encode ux QUERY_ENCODE_SET s)"
    "CHR ''='' \<notin> set (ux_percent_encode ux QUERY_ENCODE_SET s)"
  using encoded_chars [OF assms, of QUERY_ENCODE_SET "CHR ''&''"]
    encoded_chars [OF assms, of QUERY_ENCODE_SET "CHR ''=''"]
  by (simp_all add: QUERY_ENCODE_SET_def)

text \<open>
  The query string can be taken apart again: splitting it at the ampersands and each part at the
  equals sign gives, in declared order, exactly the encoded key and value of every parameter that
  has an argument or a default. No argument can add a parameter or change another's value.
\<close>

theorem query_string_recoverable:
  assumes "percent_encode_ok ux" "query_params_sent ux args params \<noteq> []"
  shows "map (split_on CHR ''='') (split_on CHR ''&'' (build_query_string ux params args)) =
    map (\<lambda>(k, v). [ux_percent_encode ux QUERY_ENCODE_SET k, ux_percent_encode ux QUERY_ENCODE_SET v])
      (query_params_sent ux args params)"
proof -
  have "split_on CHR ''&'' (build_query_string ux params args) = query_pairs ux args params"
    unfolding build_query_string_def using assms query_encoded_free(1) [OF assms(1)]
    by (intro split_on_join) (auto simp: query_pairs_sent)
  moreover have "split_on CHR ''='' (ux_percent_encode ux QUERY_ENCODE_SET k @ ''='' @
      ux_percent_encode ux QUERY_ENCODE_SET v) =
      [ux_percent_encode ux QUERY_ENCODE_SET k, ux_percent_encode ux QUERY_ENCODE_SET v]" for k v
    using query_encoded_free(2) [OF assms(1)] by (simp add: split_on_part split_on_free)
  ultimately show ?thesis by (auto simp: query_pairs_sent)
qed

theorem query_string_recoverable_witness:
  "map (split_on CHR ''='') (split_on CHR ''&''
     (build_query_string sample_ux [\<lparr>qp_key = ''q'', qp_default = None\<rparr>] [(''q'', String ''a&admin=1'')])) =
   [[''q'', ''a%26admin%3D1'']]"
proof -
  let ?ps = "[\<lparr>qp_key = ''q'', qp_default = None\<rparr>]" and ?as = "[(''q'', String ''a&admin=1'')]"
  have sent: "query_params_sent sample_ux ?as ?ps = [(''q'', ''a&admin=1'')]"
    by (simp add: query_value_def)
  have enc: "ux_percent_encode sample_ux QUERY_ENCODE_SET ''q'' = ''q''"
    "ux_percent_encode sample_ux QUERY_ENCODE_SET ''a&admin=1'' = ''a%26admin%3D1''" by code_simp+
  have "query_params_sent sample_ux ?as ?ps \<noteq> []" by (simp only: sent) simp
  from query_string_recoverable [OF sample_ux_ok this] show ?thesis
    unfolding sent by (simp add: enc)
qed

lemma trim_end_https: "starts_with ''https://'' s \<Longrightarrow> starts_with ''https:'' (trim_end_char CHR ''/'' s)"
proof -
  assume "starts_with ''https://'' s"
  then obtain r where s: "s = ''https:'' @ ''//'' @ r" by (auto simp: starts_with_iff)
  have "\<exists>r'. trim_end_char CHR ''/'' (''https:'' @ t) = ''https:'' @ r'" for t
    by (auto simp: trim_end_char_def dropWhile_append split: if_splits intro: exI [of _ "rev _"])
  with s show ?thesis by (metis starts_with_append)
qed

lemma starts_with_more: "starts_with p s \<Longrightarrow> starts_with p (s @ t)"
  by (auto simp: starts_with_iff)

lemma join_url_https: "starts_with ''https://'' b \<Longrightarrow> starts_with ''https:'' (join_url b p)"
  using trim_end_https [of b] starts_with_more by (simp add: join_url_def Let_def)

text \<open>
  Every request the builder returns is for a tool of the parsed configuration, has a URL of at
  most 8192 bytes that starts with \<open>https:\<close> unless plain HTTP was allowed, carries no header but
  \<open>User-Agent\<close> and \<open>Content-Type\<close> (so no credential), has a body exactly for POST, PUT and
  PATCH, and has the configured timeout.
\<close>

theorem build_request_safe:
  assumes "build ux b config call = Inr req"
  shows "\<exists>gw tool. ux_from_value ux (sc_config_json config) = Inr gw \<and>
    tool \<in> set (gc_tools gw) \<and> td_name tool = tc_name call \<and>
    length (ur_url req) \<le> 8192 \<and>
    (allow_http b \<or> starts_with ''https:'' (ur_url req)) \<and>
    fst ` set (ur_headers req) \<subseteq> {''User-Agent'', ''Content-Type''} \<and>
    (ur_body req \<noteq> None \<longleftrightarrow> ur_method req \<in> {''POST'', ''PUT'', ''PATCH''}) \<and>
    ur_method req = ux_to_uppercase ux (td_http_method tool) \<and>
    ur_timeout req = gc_timeout_ms gw"
proof -
  obtain gw where gw: "ux_from_value ux (sc_config_json config) = Inr gw"
    using assms by (cases "ux_from_value ux (sc_config_json config)") (auto simp: build_def)
  obtain tool where tool: "find (\<lambda>t. td_name t = tc_name call) (gc_tools gw) = Some tool"
    using assms gw by (cases "find (\<lambda>t. td_name t = tc_name call) (gc_tools gw)") (auto simp: build_def)
  have "tool \<in> set (gc_tools gw)" "td_name tool = tc_name call"
    using tool by (auto simp: find_Some_iff)
  moreover have "allow_http b \<or> starts_with ''https://'' (gc_base_url gw)"
    using assms gw tool by (auto simp: build_def split: if_splits)
  ultimately show ?thesis
    using assms gw tool join_url_https [of "gc_base_url gw"] starts_with_more [of "''https:''"]
    by (auto simp: build_def res_simps Let_def MAX_URL_LEN_def split: if_splits option.splits)
qed

definition sample_tool :: tool_definition where
  "sample_tool =
     \<lparr>td_name = ''get_user'', td_description = [], td_http_method = ''get'',
      td_path_template = ''/users/{id}'', td_query_params = [], td_body_template = None,
      td_parameters = []\<rparr>"

definition sample_build_ux :: upstream_ext where
  "sample_build_ux = sample_ux\<lparr>ux_from_value := (\<lambda>_. Inr
     \<lparr>gc_base_url = ''https://api.example.com/'', gc_timeout_ms = 500, gc_auth_type = AuthNone,
      gc_tools = [sample_tool]\<rparr>)\<rparr>"

theorem build_request_safe_witness:
  "\<exists>gw tool. ux_from_value sample_build_ux (Object []) = Inr gw \<and> tool \<in> set (gc_tools gw) \<and>
     td_name tool = ''get_user'' \<and> gc_timeout_ms gw = 500"
proof -
  have "build sample_build_ux (with_allow_http False) (config_of_row sample_row)
      \<lparr>tc_name = ''get_user'', tc_arguments = [(''id'', String ''a b'')]\<rparr> =
      Inr \<lparr>ur_method = ''GET'', ur_url = ''https://api.example.com/users/a%20b'',
           ur_headers = [(''User-Agent'', ''mcp-gateway/1.0'')], ur_body = None, ur_timeout = 500\<rparr>"
    by code_simp
  from build_request_safe [OF this] show ?thesis
    by (auto simp: config_of_row_def sample_row_def)
qed

fun literal_template :: "json \<Rightarrow> bool" where
  "literal_template (String s) = (CHR ''{'' \<notin> set s)"
| "literal_template (Array xs) = (\<forall>x \<in> set xs. literal_template x)"
| "literal_template (Object kvs) = (\<forall>kv \<in> set kvs. literal_template (snd kv))"
| "literal_template _ = True"

lemma set_dropWhile_subset: "set (dropWhile P xs) \<subseteq> set xs"
  by (auto dest: set_dropWhileD)

lemma trim_subset: "set (trim s) \<subseteq> set s"
proof -
  have "set (trim s) \<subseteq> \<Union> (set ` set (utf8_chars s))"
    unfolding trim_def by (auto dest!: set_dropWhileD)
  also have "\<dots> = set s" by (metis concat_utf8_chars set_concat)
  finally show ?thesis .
qed

lemma literal_string: "CHR ''{'' \<notin> set s \<Longrightarrow> interpolate_string ux args s = Inr (String s)"
  using trim_subset [of s]
  by (auto simp: interpolate_string_def extract_single_placeholder_def contains_char starts_with_iff Let_def)

lemma collect_results_ok: "(\<And>x. x \<in> set xs \<Longrightarrow> f x = Inr (g x)) \<Longrightarrow> collect_results f xs = Inr (map g xs)"
  by (induction xs) auto

lemma collect_results_all:
  "collect_results f xs = Inr ys \<Longrightarrow> list_all2 (\<lambda>x y. f x = Inr y) xs ys"
  by (induction xs arbitrary: ys) (auto simp: res_simps)

lemma interpolate_literal: "json_ok t \<Longrightarrow> literal_template t \<Longrightarrow> interpolate_body ux args t = Inr t"
proof (induction ux args t rule: interpolate_body.induct)
  case (1 ux args kvs)
  have "interpolate_body ux args v = Inr v" if "(k, v) \<in> set kvs" for k v
    using that 1 by (metis json_ok.simps(2) literal_template.simps(3) snd_conv)
  then have "collect_results (\<lambda>(k, v). and_then (interpolate_body ux args v) (\<lambda>v'. Inr (k, v'))) kvs = Inr (map id kvs)"
    by (intro collect_results_ok) auto
  with 1 show ?case by (simp add: obj_of_sorted)
next
  case (2 ux args xs)
  have "collect_results (interpolate_body ux args) xs = Inr (map id xs)"
    using 2 by (intro collect_results_ok) auto
  then show ?case by simp
qed (simp_all add: literal_string)

lemma interpolate_string_ok:
  "\<forall>v \<in> snd ` set args. json_ok v \<Longrightarrow> interpolate_string ux args s = Inr r \<Longrightarrow> json_ok r"
  by (auto simp: interpolate_string_def res_simps dest!: obj_get_mem split: option.splits if_splits)

lemma interpolate_ok: "\<forall>v \<in> snd ` set args. json_ok v \<Longrightarrow> json_ok t \<Longrightarrow>
    interpolate_body ux args t = Inr r \<Longrightarrow> json_ok r"
proof (induction ux args t arbitrary: r rule: interpolate_body.induct)
  case (1 ux args kvs)
  then obtain kvs' where r: "r = Object (obj_of kvs')"
    and all: "list_all2 (\<lambda>kv kv'. and_then (interpolate_body ux args (snd kv)) (\<lambda>v'. Inr (fst kv, v')) = Inr kv') kvs kvs'"
    by (auto simp: res_simps case_prod_beta dest!: collect_results_all)
  have "map fst kvs' = map fst kvs"
    using all by (induction rule: list_all2_induct) (auto simp: res_simps)
  then have same: "obj_of kvs' = kvs'" using 1(3) by (simp add: obj_of_sorted obj_ok_def)
  have "json_ok (snd kv')" if "kv' \<in> set kvs'" for kv'
  proof -
    obtain i where i: "i < length kvs'" "kvs' ! i = kv'" using \<open>kv' \<in> set kvs'\<close> by (auto simp: in_set_conv_nth)
    then have "interpolate_body ux args (snd (kvs ! i)) = Inr (snd kv')" "kvs ! i \<in> set kvs"
      using all by (auto simp: list_all2_conv_all_nth res_simps) (metis snd_conv)
    with 1 show ?thesis by (metis json_ok.simps(2) prod.collapse)
  qed
  with r same \<open>map fst kvs' = map fst kvs\<close> 1(3) show ?case by (simp add: obj_ok_def)
next
  case (2 ux args xs)
  then obtain ys where "r = Array ys" and all: "list_all2 (\<lambda>x y. interpolate_body ux args x = Inr y) xs ys"
    by (auto simp: res_simps dest!: collect_results_all)
  with 2 show ?case by (fastforce simp: list_all2_conv_all_nth in_set_conv_nth)
next
  case (3 ux args s)
  then show ?case using interpolate_string_ok [of args ux s r] by simp
qed auto

text \<open>
  A body template without opening braces is sent unchanged; a string that is one placeholder
  becomes the argument itself, with its JSON type, and fails when there is no such argument; and the
  interpolated body of a well-formed template with well-formed arguments is well formed.
\<close>

theorem interpolate_body_typed:
  assumes "json_ok template" "\<forall>v \<in> snd ` set args. json_ok v"
  shows "(literal_template template \<longrightarrow> interpolate_body ux args template = Inr template) \<and>
    (\<forall>r. interpolate_body ux args template = Inr r \<longrightarrow> json_ok r) \<and>
    (\<forall>s name. template = String s \<and> extract_single_placeholder s = Some name \<longrightarrow>
       interpolate_body ux args template = ok_or (missing_argument name) (obj_get name args))"
proof (intro conjI allI impI)
  show "interpolate_body ux args template = Inr template" if "literal_template template"
    using assms(1) that by (rule interpolate_literal)
  show "json_ok r" if "interpolate_body ux args template = Inr r" for r
    using assms(2,1) that by (rule interpolate_ok)
qed (auto simp: interpolate_string_def)

theorem interpolate_body_typed_witness:
  "interpolate_body sample_ux [(''n'', Number (PosInt 5))] (String ''{n}'') = Inr (Number (PosInt 5))"
proof -
  have "extract_single_placeholder ''{n}'' = Some ''n''" by code_simp
  with interpolate_body_typed [of "String ''{n}''" "[(''n'', Number (PosInt 5))]" sample_ux]
  show ?thesis by simp
qed

text \<open>
  In a body string the placeholders are replaced one after another in the text that already
  contains the earlier values, so an argument that spells a later placeholder is itself replaced: with
  \<open>a\<close> given as the text \<open>{b}\<close>, the value of \<open>b\<close> appears in the place of \<open>a\<close>.
\<close>

theorem body_argument_reinterpreted:
  "interpolate_body ux [(''a'', String ''{b}''), (''b'', String ''secret'')] (String ''to {a} of {b}'') =
     Inr (String ''to secret of secret'')"
proof -
  have "extract_single_placeholder ''to {a} of {b}'' = None" by code_simp
  moreover have "extract_placeholders ''to {a} of {b}'' = [''a'', ''b'']" by code_simp
  moreover have "replace_str (placeholder ''a'') ''{b}'' ''to {a} of {b}'' = ''to {b} of {b}''" by code_simp
  moreover have "replace_str (placeholder ''b'') ''secret'' ''to {b} of {b}'' = ''to secret of secret''" by code_simp
  moreover have "contains_str ''{'' ''to {a} of {b}''" by code_simp
  ultimately show ?thesis by (simp add: interpolate_string_def del: contains_str.simps)
qed

end
