(* ===== verification/Tool_Schema.thy ===== *)
theory Tool_Schema
  imports Upstream
begin

text \<open>
  Tool schemas for \<open>tools/list\<close> (\<open>services/gateway/src/tool_schema.rs\<close>): name validation,
  description truncation, the input schema of a tool, and the schema cache keyed by server and
  configuration version. moka is used as a map; an expiry is a removal of the key.
\<close>

section \<open>Data\<close>

definition MAX_DESCRIPTION_LEN :: nat where "MAX_DESCRIPTION_LEN = 1024"
definition MAX_TOOL_NAME_LEN :: nat where "MAX_TOOL_NAME_LEN = 64"

record input_schema =
  is_schema_type :: string
  is_properties :: "(string \<times> json) list"
  is_required :: "string list"

record mcp_tool =
  mt_name :: string
  mt_description :: string
  mt_input_schema :: input_schema

record tools_list_result =
  tl_tools :: "mcp_tool list"

record schema_cache =
  sch_inner :: "((uuid \<times> int) \<times> mcp_tool list) list"

section \<open>Operations\<close>

text \<open>A character is the list of its UTF-8 bytes; an ASCII one has a single byte.\<close>

definition char_is :: "(char \<Rightarrow> bool) \<Rightarrow> string \<Rightarrow> bool" where
  "char_is P ch = (case ch of [c] \<Rightarrow> P c | _ \<Rightarrow> False)"

definition is_name_char :: "char \<Rightarrow> bool" where
  "is_name_char c = (is_ascii_alphanumeric c \<or> c = CHR ''_'' \<or> c = CHR ''-'')"

definition is_valid_tool_name :: "string \<Rightarrow> bool" where
  "is_valid_tool_name name =
     (case utf8_chars name of
        [] \<Rightarrow> False
      | c # rest \<Rightarrow>
          if \<not> char_is is_ascii_alphabetic c then False
          else if length rest > MAX_TOOL_NAME_LEN - 1 then False
          else list_all (char_is is_name_char) rest)"

definition truncate_description :: "string \<Rightarrow> string" where
  "truncate_description description =
     (let chars = utf8_chars description
      in if length chars \<le> MAX_DESCRIPTION_LEN then description
         else concat (take (MAX_DESCRIPTION_LEN - 3) chars) @ ''...'')"

definition type_schema :: "string \<Rightarrow> json" where
  "type_schema t = json_obj [(''type'', String t)]"

definition param_type_of :: "parameter_def list \<Rightarrow> string \<Rightarrow> string" where
  "param_type_of params name =
     (case map_of (rev (map (\<lambda>p. (pd_name p, p)) params)) name of
        Some p \<Rightarrow> pd_param_type p | None \<Rightarrow> ''string'')"

definition emit_path_param ::
  "parameter_def list \<Rightarrow> string \<Rightarrow> (string \<times> json) list \<times> string list \<Rightarrow> (string \<times> json) list \<times> string list" where
  "emit_path_param params name s =
     (obj_insert name (type_schema (param_type_of params name)) (fst s), snd s @ [name])"

definition emit_param ::
  "string list \<Rightarrow> parameter_def \<Rightarrow> (string \<times> json) list \<times> string list \<Rightarrow> (string \<times> json) list \<times> string list" where
  "emit_param path_params p s =
     (if pd_name p \<in> set path_params then s
      else (obj_insert (pd_name p) (type_schema (pd_param_type p)) (fst s),
            if pd_required p then snd s @ [pd_name p] else snd s))"

definition build_input_schema :: "tool_definition \<Rightarrow> input_schema" where
  "build_input_schema tool =
     (let path_placeholders = extract_placeholders (td_path_template tool);
          s1 = fold (emit_path_param (td_parameters tool)) path_placeholders ([], []);
          s2 = fold (emit_param path_placeholders) (td_parameters tool) s1
      in \<lparr>is_schema_type = ''object'', is_properties = fst s2, is_required = snd s2\<rparr>)"

definition build_mcp_tool :: "tool_definition \<Rightarrow> mcp_tool option" where
  "build_mcp_tool tool =
     (if \<not> is_valid_tool_name (td_name tool) then None
      else Some \<lparr>mt_name = td_name tool, mt_description = truncate_description (td_description tool),
                 mt_input_schema = build_input_schema tool\<rparr>)"

definition generate_tool_schemas :: "upstream_ext \<Rightarrow> server_config \<Rightarrow> mcp_tool list" where
  "generate_tool_schemas ux config =
     (case ux_from_value ux (sc_config_json config) of
        Inl _ \<Rightarrow> []
      | Inr gw \<Rightarrow> List.map_filter build_mcp_tool (gc_tools gw))"

definition schema_cache_new :: schema_cache where
  "schema_cache_new = \<lparr>sch_inner = []\<rparr>"

definition get_or_generate :: "upstream_ext \<Rightarrow> server_config \<Rightarrow> schema_cache \<Rightarrow> mcp_tool list \<times> schema_cache" where
  "get_or_generate ux config c =
     (let key = (sc_id config, sc_config_version config)
      in case map_of (sch_inner c) key of
           Some cached \<Rightarrow> (cached, c)
         | None \<Rightarrow>
             let tools = generate_tool_schemas ux config
             in (tools, c\<lparr>sch_inner := AList.update key tools (sch_inner c)\<rparr>))"

text \<open>The serde serialisation of the result: \<open>required\<close> is left out when empty.\<close>

definition input_schema_json :: "input_schema \<Rightarrow> json" where
  "input_schema_json s =
     json_obj ([(''type'', String (is_schema_type s)), (''properties'', Object (is_properties s))] @
       (if is_required s = [] then [] else [(''required'', Array (map String (is_required s)))]))"

definition mcp_tool_json :: "mcp_tool \<Rightarrow> json" where
  "mcp_tool_json t =
     json_obj [(''name'', String (mt_name t)), (''description'', String (mt_description t)),
       (''inputSchema'', input_schema_json (mt_input_schema t))]"

definition tools_list_json :: "tools_list_result \<Rightarrow> json" where
  "tools_list_json r = json_obj [(''tools'', Array (map mcp_tool_json (tl_tools r)))]"

section \<open>Names and descriptions\<close>

definition matches_name_regex :: "string \<Rightarrow> bool" where
  "matches_name_regex s =
     (case s of [] \<Rightarrow> False
      | c # cs \<Rightarrow> is_ascii_alphabetic c \<and> length cs \<le> 63 \<and> list_all is_name_char cs)"

lemma name_char_ascii: "is_name_char c \<Longrightarrow> (of_char c :: nat) < 128"
  by (auto simp: is_name_char_def is_ascii_alphanumeric_def is_ascii_alphabetic_def is_ascii_digit_def Let_def)

lemma alpha_ascii: "is_ascii_alphabetic c \<Longrightarrow> (of_char c :: nat) < 128"
  by (auto simp: is_ascii_alphabetic_def Let_def)

lemma all_single: "list_all (char_is P) cs \<Longrightarrow> cs = map (\<lambda>c. [c]) (concat cs) \<and> list_all P (concat cs)"
  by (induction cs) (auto simp: char_is_def split: list.splits)

lemma valid_name_regex: "is_valid_tool_name name = matches_name_regex name"
proof
  assume v: "is_valid_tool_name name"
  then obtain c rest where cs: "utf8_chars name = [c] # rest" "is_ascii_alphabetic c"
    "length rest \<le> 63" "list_all (char_is is_name_char) rest"
    by (auto simp: is_valid_tool_name_def char_is_def MAX_TOOL_NAME_LEN_def split: list.splits if_splits)
  have "name = c # concat rest" using cs(1) concat_utf8_chars [of name] by simp
  moreover have "length (concat rest) = length rest" using all_single [OF cs(4)] by (metis length_map)
  ultimately show "matches_name_regex name"
    using cs all_single [OF cs(4)] by (simp add: matches_name_regex_def)
next
  assume m: "matches_name_regex name"
  then obtain c cs where n: "name = c # cs" "is_ascii_alphabetic c" "length cs \<le> 63" "list_all is_name_char cs"
    by (auto simp: matches_name_regex_def split: list.splits)
  then have "is_ascii_str name"
    using name_char_ascii alpha_ascii by (auto simp: is_ascii_str_def list_all_iff)
  from utf8_chars_ascii [OF this] have "utf8_chars name = [c] # map (\<lambda>c. [c]) cs"
    using n(1) by (simp only: list.map)
  with n show "is_valid_tool_name name"
    unfolding is_valid_tool_name_def
    by (simp add: char_is_def MAX_TOOL_NAME_LEN_def list_all_iff del: utf8_chars.simps)
qed

lemma dots_chars: "utf8_chars ''...'' = [''.'', ''.'', ''.'']"
  by code_simp

lemma truncate_chars:
  "utf8_chars (truncate_description d) =
     (if length (utf8_chars d) \<le> 1024 then utf8_chars d
      else take 1021 (utf8_chars d) @ [''.'', ''.'', ''.''])"
proof -
  have "\<not> is_cont_byte (hd ''...'')" by code_simp
  then have "utf8_chars (concat (take 1021 (utf8_chars d)) @ ''...'') =
      utf8_chars (concat (take 1021 (utf8_chars d))) @ utf8_chars ''...''"
    by (intro utf8_chars_append) simp
  then show ?thesis
    by (simp add: truncate_description_def Let_def MAX_DESCRIPTION_LEN_def utf8_chars_take dots_chars
        del: utf8_chars.simps)
qed

section \<open>The input schema\<close>

lemma emit_path_params:
  "fold (emit_path_param params) names (ps, rs) =
     (fold (\<lambda>n. obj_insert n (type_schema (param_type_of params n))) names ps, rs @ names)"
  by (induction names arbitrary: ps rs) (simp_all add: emit_path_param_def)

lemma emit_params_required:
  "snd (fold (emit_param path) params s) =
     snd s @ map pd_name (filter (\<lambda>p. pd_required p \<and> pd_name p \<notin> set path) params)"
  by (induction params arbitrary: s) (auto simp: emit_param_def)

lemma emit_params_keys:
  "fst ` set (fst (fold (emit_param path) params s)) =
     fst ` set (fst s) \<union> (pd_name ` set params - set path)"
  by (induction params arbitrary: s) (auto simp: emit_param_def)

lemma emit_params_ok: "obj_ok (fst s) \<Longrightarrow> obj_ok (fst (fold (emit_param path) params s))"
  by (induction params arbitrary: s) (auto simp: emit_param_def)

lemma path_props: "obj_ok ps \<Longrightarrow> obj_ok (fold (\<lambda>n. obj_insert n (g n)) names ps)"
  "fst ` set (fold (\<lambda>n. obj_insert n (g n)) names ps) = fst ` set ps \<union> set names"
  by (induction names arbitrary: ps) auto

lemma schema_required:
  "is_required (build_input_schema tool) =
     extract_placeholders (td_path_template tool) @
     map pd_name (filter (\<lambda>p. pd_required p \<and> pd_name p \<notin> set (extract_placeholders (td_path_template tool)))
       (td_parameters tool))"
  by (simp add: build_input_schema_def Let_def emit_path_params emit_params_required)

lemma schema_properties:
  "fst ` set (is_properties (build_input_schema tool)) =
     set (extract_placeholders (td_path_template tool)) \<union> pd_name ` set (td_parameters tool)"
  "obj_ok (is_properties (build_input_schema tool))"
  by (auto simp: build_input_schema_def Let_def emit_path_params emit_params_keys path_props emit_params_ok)

lemma distinct_scan: "distinct names \<Longrightarrow> distinct (scan_placeholders names b cur s)"
  by (induction names b cur s rule: scan_placeholders.induct) auto

section \<open>Properties\<close>

text \<open>
  C40: Every tool listed has a name matched by \<open>[a-zA-Z][a-zA-Z0-9_-]{0,63}\<close>, a description of at
  most 1024 characters, and an object schema whose required names are all declared properties, begin
  with the path placeholders in order, and are distinct if the declared parameter names are.
\<close>

theorem tool_schema_sound:
  assumes "build_mcp_tool tool = Some t"
  shows "matches_name_regex (mt_name t) \<and>
    length (utf8_chars (mt_description t)) \<le> 1024 \<and>
    is_schema_type (mt_input_schema t) = ''object'' \<and>
    set (is_required (mt_input_schema t)) \<subseteq> fst ` set (is_properties (mt_input_schema t)) \<and>
    take (length (extract_placeholders (td_path_template tool))) (is_required (mt_input_schema t)) =
      extract_placeholders (td_path_template tool) \<and>
    (distinct (map pd_name (td_parameters tool)) \<longrightarrow> distinct (is_required (mt_input_schema t)))"
proof -
  have t: "mt_name t = td_name tool" "mt_description t = truncate_description (td_description tool)"
    "mt_input_schema t = build_input_schema tool" "is_valid_tool_name (td_name tool)"
    using assms by (auto simp: build_mcp_tool_def split: if_splits)
  have "distinct (extract_placeholders (td_path_template tool))"
    by (simp add: extract_placeholders_def distinct_scan)
  then have "distinct (is_required (build_input_schema tool))" if "distinct (map pd_name (td_parameters tool))"
    using that by (auto simp: schema_required distinct_map_filter)
  moreover have "is_schema_type (build_input_schema tool) = ''object''"
    by (simp add: build_input_schema_def Let_def)
  ultimately show ?thesis
    using t by (auto simp: valid_name_regex truncate_chars schema_properties schema_required)
qed

theorem tool_schema_sound_witness:
  "\<exists>t. build_mcp_tool sample_tool = Some t \<and> set (is_required (mt_input_schema t)) = {''id''} \<and>
     set (is_required (mt_input_schema t)) \<subseteq> fst ` set (is_properties (mt_input_schema t))"
proof -
  have "map_option (\<lambda>t. is_required (mt_input_schema t)) (build_mcp_tool sample_tool) = Some [''id'']" by code_simp
  then obtain t where t: "build_mcp_tool sample_tool = Some t" "is_required (mt_input_schema t) = [''id'']" by auto
  from tool_schema_sound [OF t(1)] t show ?thesis by auto
qed

lemma required_path_ok:
  assumes "percent_encode_ok ux" "segments_ok segs" "td_path_template tool = render segs"
    and "\<forall>n \<in> set (is_required (build_input_schema tool)). obj_get n args \<noteq> None"
  shows "\<exists>path. interpolate_path ux (td_path_template tool) args = Inr path"
proof -
  have "set (hole_names segs) \<subseteq> set (is_required (build_input_schema tool))"
    using assms(2,3) by (auto simp: schema_required extract_render)
  then have "find (\<lambda>n. obj_get n args = None) (hole_names segs) = None"
    using assms(4) by (auto simp: find_None_iff)
  then show ?thesis using assms(3) interpolate_path_render [OF assms(1,2), of args] by simp
qed

text \<open>
  The schema and the request builder agree: a call whose arguments contain every name the listed
  schema requires is never refused for a missing path parameter.
\<close>

theorem required_arguments_suffice:
  assumes "percent_encode_ok ux" "segments_ok segs" "td_path_template tool = render segs"
    and "\<forall>n \<in> set (is_required (build_input_schema tool)). obj_get n args \<noteq> None"
  shows "\<exists>path. interpolate_path ux (td_path_template tool) args = Inr path"
  by (rule required_path_ok [OF assms])

theorem required_arguments_suffice_witness:
  "\<exists>path. interpolate_path sample_ux (td_path_template sample_tool) [(''id'', String ''7'')] = Inr path"
proof -
  have "is_required (build_input_schema sample_tool) = [''id'']" by code_simp
  then show ?thesis
    by (intro required_arguments_suffice [OF sample_ux_ok, of "[Lit ''/users/'', Hole ''id'']"])
      (simp_all add: segments_ok_def sample_tool_def render_def placeholder_def)
qed

text \<open>
  The schema cache never changes an answer, as long as a server's configuration is determined by its
  id and version: from any cache filled through \<open>get_or_generate\<close> with such configurations the
  answer is what \<open>generate_tool_schemas\<close> computes.
\<close>

theorem schema_cache_transparent:
  assumes "\<forall>a \<in> set (cfg # cfgs). \<forall>b \<in> set (cfg # cfgs).
      sc_id a = sc_id b \<and> sc_config_version a = sc_config_version b \<longrightarrow> sc_config_json a = sc_config_json b"
  shows "fst (get_or_generate ux cfg (fold (\<lambda>c. snd \<circ> get_or_generate ux c) cfgs schema_cache_new)) =
    generate_tool_schemas ux cfg"
proof -
  define good where "good c = (\<forall>k ts. map_of (sch_inner (c :: schema_cache)) k = Some ts \<longrightarrow>
      (\<exists>a \<in> set (cfg # cfgs). k = (sc_id a, sc_config_version a) \<and> ts = generate_tool_schemas ux a))" for c
  have "good (fold (\<lambda>c. snd \<circ> get_or_generate ux c) xs c)" if "good c" "set xs \<subseteq> set cfgs" for xs c
    using that
  proof (induction xs arbitrary: c)
    case (Cons x xs)
    have "good (snd (get_or_generate ux x c))"
      using Cons.prems by (auto simp: good_def get_or_generate_def Let_def update_conv' split: option.splits if_splits)
    with Cons show ?case by simp
  qed simp
  moreover have "good schema_cache_new" by (simp add: good_def schema_cache_new_def)
  ultimately have g: "good (fold (\<lambda>c. snd \<circ> get_or_generate ux c) cfgs schema_cache_new)" by blast
  have "generate_tool_schemas ux a = generate_tool_schemas ux cfg"
    if "a \<in> set (cfg # cfgs)" "(sc_id cfg, sc_config_version cfg) = (sc_id a, sc_config_version a)" for a
  proof -
    have "sc_config_json a = sc_config_json cfg" using assms that by auto
    then show ?thesis by (simp add: generate_tool_schemas_def)
  qed
  note same = this
  show ?thesis
  proof (cases "map_of (sch_inner (fold (\<lambda>c. snd \<circ> get_or_generate ux c) cfgs schema_cache_new))
      (sc_id cfg, sc_config_version cfg)")
    case None
    then show ?thesis by (simp add: get_or_generate_def Let_def)
  next
    case (Some ts)
    then obtain a where "a \<in> set (cfg # cfgs)" "(sc_id cfg, sc_config_version cfg) = (sc_id a, sc_config_version a)"
      "ts = generate_tool_schemas ux a"
      using g unfolding good_def by blast
    with same [of a] Some show ?thesis by (simp add: get_or_generate_def Let_def)
  qed
qed

theorem schema_cache_transparent_witness:
  "fst (get_or_generate sample_build_ux (config_of_row sample_row)
     (fold (\<lambda>c. snd \<circ> get_or_generate sample_build_ux c) [config_of_row sample_row] schema_cache_new)) =
   generate_tool_schemas sample_build_ux (config_of_row sample_row)"
  by (rule schema_cache_transparent) simp

end
