(* ===== verification/Connections.thy ===== *)
theory Connections
  imports Prelude
begin

text \<open>
  Connection admission (\<open>services/gateway/src/connections.rs\<close>): the \<open>ConnectionTracker\<close>
  with its global semaphore and per-server counters, the RAII guard and \<open>drain\<close>. The methods
  are modelled twice: run to completion, and as the sequence of their accesses to shared state, of
  which any number of request tasks and one \<open>drain\<close> caller interleave.

  tokio's semaphore is a parameter (\<open>semaphore_api\<close>); \<open>semaphore_ok\<close> is what its
  documentation promises. Instants are nanoseconds. Log lines go to \<open>ct_warnings\<close>, gauges to
  the fields named after them.
\<close>

section \<open>Data\<close>

definition DEFAULT_SERVER_MAX_CONNECTIONS :: u32 where "DEFAULT_SERVER_MAX_CONNECTIONS = 50"
definition DEFAULT_GLOBAL_MAX_CONNECTIONS :: u64 where "DEFAULT_GLOBAL_MAX_CONNECTIONS = 10000"
definition WARN_RATE_SECS :: nat where "WARN_RATE_SECS = 10"

datatype capacity_error = ServerLimitReached | GlobalLimitReached

record 's semaphore_api =
  sem_new :: "u64 \<Rightarrow> 's"
  sem_try_acquire :: "'s \<Rightarrow> 's option"
  sem_release :: "'s \<Rightarrow> 's"
  sem_available :: "'s \<Rightarrow> nat"

definition semaphore_ok :: "'s semaphore_api \<Rightarrow> bool" where
  "semaphore_ok api \<longleftrightarrow>
     (\<forall>n. sem_available api (sem_new api n) = unat n) \<and>
     (\<forall>s. sem_try_acquire api s = None \<longleftrightarrow> sem_available api s = 0) \<and>
     (\<forall>s s'. sem_try_acquire api s = Some s' \<longrightarrow> sem_available api s = Suc (sem_available api s')) \<and>
     (\<forall>s. sem_available api (sem_release api s) = Suc (sem_available api s))"

record connection_guard =
  cg_server_id :: uuid

record 's connection_tracker =
  ct_per_server :: "uuid \<Rightarrow> u64 option"
  ct_global_semaphore :: 's
  ct_global_count :: u64
  ct_global_max :: u64
  ct_last_warn :: "uuid \<Rightarrow> nat option"
  ct_warnings :: "(uuid \<times> u32) list"
  ct_server_gauge :: "uuid \<Rightarrow> u64 option"
  ct_total_gauge :: "u64 option"

section \<open>Operations run to completion\<close>

definition tracker_new :: "'s semaphore_api \<Rightarrow> u64 \<Rightarrow> 's connection_tracker" where
  "tracker_new api global_max =
     \<lparr>ct_per_server = (\<lambda>_. None), ct_global_semaphore = sem_new api global_max,
      ct_global_count = 0, ct_global_max = global_max, ct_last_warn = (\<lambda>_. None),
      ct_warnings = [], ct_server_gauge = (\<lambda>_. None), ct_total_gauge = None\<rparr>"

definition server_count :: "'s connection_tracker \<Rightarrow> uuid \<Rightarrow> u64" where
  "server_count t sid = (case ct_per_server t sid of Some c \<Rightarrow> c | None \<Rightarrow> 0)"

definition global_active :: "'s connection_tracker \<Rightarrow> u64" where
  "global_active t = ct_global_count t"

definition maybe_warn_capacity :: "nat \<Rightarrow> uuid \<Rightarrow> u32 \<Rightarrow> 's connection_tracker \<Rightarrow> 's connection_tracker" where
  "maybe_warn_capacity now sid mx t =
     (let should_warn = (case ct_last_warn t sid of
            Some prev \<Rightarrow> now - prev \<ge> WARN_RATE_SECS * 1000000000
          | None \<Rightarrow> True)
      in if should_warn then
           t\<lparr>ct_last_warn := (ct_last_warn t)(sid \<mapsto> now), ct_warnings := ct_warnings t @ [(sid, mx)]\<rparr>
         else t)"

text \<open>\<open>entry(id).or_insert_with(..)\<close>, and the \<open>fetch_update\<close> that increments below the limit.\<close>

definition ensure_counter :: "uuid \<Rightarrow> 's connection_tracker \<Rightarrow> 's connection_tracker" where
  "ensure_counter sid t =
     (case ct_per_server t sid of
        Some _ \<Rightarrow> t | None \<Rightarrow> t\<lparr>ct_per_server := (ct_per_server t)(sid \<mapsto> 0)\<rparr>)"

definition inc_below :: "u32 \<Rightarrow> u64 \<Rightarrow> u64 option" where
  "inc_below server_max current = (if current < ucast server_max then Some (current + 1) else None)"

definition try_acquire ::
  "'s semaphore_api \<Rightarrow> nat \<Rightarrow> uuid \<Rightarrow> u32 \<Rightarrow> 's connection_tracker
   \<Rightarrow> (capacity_error + connection_guard) \<times> 's connection_tracker" where
  "try_acquire api now sid server_max t0 =
     (case sem_try_acquire api (ct_global_semaphore t0) of
        None \<Rightarrow> (Inl GlobalLimitReached, t0)
      | Some s \<Rightarrow>
          let t = ensure_counter sid (t0\<lparr>ct_global_semaphore := s\<rparr>);
              prev = server_count t sid
          in case inc_below server_max prev of
               Some new_server_count \<Rightarrow>
                 let prev_global = ct_global_count t in
                 (Inr \<lparr>cg_server_id = sid\<rparr>,
                  t\<lparr>ct_per_server := (ct_per_server t)(sid \<mapsto> new_server_count),
                    ct_server_gauge := (ct_server_gauge t)(sid \<mapsto> prev + 1),
                    ct_global_count := prev_global + 1,
                    ct_total_gauge := Some (prev_global + 1)\<rparr>)
             | None \<Rightarrow>
                 (Inl ServerLimitReached,
                  maybe_warn_capacity now sid server_max
                    (t\<lparr>ct_global_semaphore := sem_release api (ct_global_semaphore t)\<rparr>)))"

definition guard_drop :: "'s semaphore_api \<Rightarrow> connection_guard \<Rightarrow> 's connection_tracker \<Rightarrow> 's connection_tracker" where
  "guard_drop api g t =
     (let sid = cg_server_id g;
          prev_server = server_count t sid;
          t1 = t\<lparr>ct_per_server := (ct_per_server t)(sid \<mapsto> prev_server - 1),
                 ct_server_gauge := (ct_server_gauge t)(sid \<mapsto> saturating_sub prev_server 1)\<rparr>;
          prev_global = ct_global_count t1;
          t2 = t1\<lparr>ct_global_count := prev_global - 1,
                  ct_total_gauge := Some (saturating_sub prev_global 1)\<rparr>
      in t2\<lparr>ct_global_semaphore := sem_release api (ct_global_semaphore t2)\<rparr>)"

section \<open>The accesses of one task\<close>

datatype conn_pc =
    T_Idle
  | T_Begin uuid
  | T_Permit uuid
  | T_Counter uuid
  | T_Counted uuid
  | T_Release uuid
  | T_Warn uuid
  | T_Refused capacity_error
  | T_Held uuid
  | T_Drop_Server uuid
  | T_Drop_Global uuid
  | T_Drop_Notify uuid
  | T_Drop_Permit uuid

text \<open>
  \<open>limit\<close> gives each server's \<open>max_connections\<close>. The gauges are left out: they are only
  observed. \<open>notify_waiters\<close> is the step at \<open>T_Drop_Notify\<close>; its effect is on the
  waiting \<open>drain\<close>, below.
\<close>

fun conn_access ::
  "'s semaphore_api \<Rightarrow> (uuid \<Rightarrow> u32) \<Rightarrow> nat \<Rightarrow> conn_pc \<Rightarrow> 's connection_tracker
   \<Rightarrow> conn_pc \<times> 's connection_tracker" where
  "conn_access api limit now (T_Begin sid) t =
     (case sem_try_acquire api (ct_global_semaphore t) of
        None \<Rightarrow> (T_Refused GlobalLimitReached, t)
      | Some s \<Rightarrow> (T_Permit sid, t\<lparr>ct_global_semaphore := s\<rparr>))"
| "conn_access api limit now (T_Permit sid) t = (T_Counter sid, ensure_counter sid t)"
| "conn_access api limit now (T_Counter sid) t =
     (case inc_below (limit sid) (server_count t sid) of
        Some c \<Rightarrow> (T_Counted sid, t\<lparr>ct_per_server := (ct_per_server t)(sid \<mapsto> c)\<rparr>)
      | None \<Rightarrow> (T_Release sid, t))"
| "conn_access api limit now (T_Counted sid) t =
     (T_Held sid, t\<lparr>ct_global_count := ct_global_count t + 1\<rparr>)"
| "conn_access api limit now (T_Release sid) t =
     (T_Warn sid, t\<lparr>ct_global_semaphore := sem_release api (ct_global_semaphore t)\<rparr>)"
| "conn_access api limit now (T_Warn sid) t =
     (T_Refused ServerLimitReached, maybe_warn_capacity now sid (limit sid) t)"
| "conn_access api limit now (T_Drop_Server sid) t =
     (T_Drop_Global sid, t\<lparr>ct_per_server := (ct_per_server t)(sid \<mapsto> server_count t sid - 1)\<rparr>)"
| "conn_access api limit now (T_Drop_Global sid) t =
     (T_Drop_Notify sid, t\<lparr>ct_global_count := ct_global_count t - 1\<rparr>)"
| "conn_access api limit now (T_Drop_Notify sid) t = (T_Drop_Permit sid, t)"
| "conn_access api limit now (T_Drop_Permit sid) t =
     (T_Idle, t\<lparr>ct_global_semaphore := sem_release api (ct_global_semaphore t)\<rparr>)"
| "conn_access api limit now p t = (p, t)"

definition drop_gauges :: "'s connection_tracker \<Rightarrow> 's connection_tracker" where
  "drop_gauges t = t\<lparr>ct_server_gauge := (\<lambda>_. None), ct_total_gauge := None\<rparr>"

section \<open>Interleaved tasks and a draining caller\<close>

datatype drain_pc = D_Idle | D_Loop | D_Created | D_Waiting | D_Returned

record 's conn_sys =
  cs_tracker :: "'s connection_tracker"
  cs_tasks :: "conn_pc list"
  cs_drain :: drain_pc
  cs_notified :: bool

text \<open>
  One iteration of the loop of \<open>drain\<close>: create the future, test the count, wait.
  \<open>cs_notified\<close> says whether the current future has been woken.
\<close>

fun drain_access :: "drain_pc \<Rightarrow> bool \<Rightarrow> 's connection_tracker \<Rightarrow> drain_pc \<times> bool" where
  "drain_access D_Idle n t = (D_Loop, n)"
| "drain_access D_Loop n t = (D_Created, False)"
| "drain_access D_Created n t = (if ct_global_count t = 0 then D_Returned else D_Waiting, n)"
| "drain_access D_Waiting n t = (if n then D_Loop else D_Waiting, n)"
| "drain_access D_Returned n t = (D_Returned, n)"

definition set_task :: "nat \<Rightarrow> conn_pc \<times> 's connection_tracker \<Rightarrow> 's conn_sys \<Rightarrow> 's conn_sys" where
  "set_task i r s = s\<lparr>cs_tracker := snd r, cs_tasks := (cs_tasks s)[i := fst r]\<rparr>"

definition is_notify :: "conn_pc \<Rightarrow> bool" where
  "is_notify p = (case p of T_Drop_Notify _ \<Rightarrow> True | _ \<Rightarrow> False)"

inductive conn_step :: "'s semaphore_api \<Rightarrow> (uuid \<Rightarrow> u32) \<Rightarrow> 's conn_sys \<Rightarrow> 's conn_sys \<Rightarrow> bool"
  for api limit where
  request: "i < length (cs_tasks s) \<Longrightarrow> cs_tasks s ! i = T_Idle \<Longrightarrow>
     conn_step api limit s (set_task i (T_Begin sid, cs_tracker s) s)"
| access: "i < length (cs_tasks s) \<Longrightarrow> p = cs_tasks s ! i \<Longrightarrow>
     conn_step api limit s
       ((set_task i (conn_access api limit now p (cs_tracker s)) s)
          \<lparr>cs_notified := cs_notified s \<or> is_notify p\<rparr>)"
| drop_guard: "i < length (cs_tasks s) \<Longrightarrow> cs_tasks s ! i = T_Held sid \<Longrightarrow>
     conn_step api limit s (set_task i (T_Drop_Server sid, cs_tracker s) s)"
| refused: "i < length (cs_tasks s) \<Longrightarrow> cs_tasks s ! i = T_Refused e \<Longrightarrow>
     conn_step api limit s (set_task i (T_Idle, cs_tracker s) s)"
| drain: "drain_access (cs_drain s) (cs_notified s) (cs_tracker s) = (d, n) \<Longrightarrow>
     conn_step api limit s (s\<lparr>cs_drain := d, cs_notified := n\<rparr>)"

definition conn_start :: "'s semaphore_api \<Rightarrow> u64 \<Rightarrow> nat \<Rightarrow> 's conn_sys" where
  "conn_start api global_max n =
     \<lparr>cs_tracker = tracker_new api global_max, cs_tasks = replicate n T_Idle,
      cs_drain = D_Idle, cs_notified = False\<rparr>"

section \<open>The invariant\<close>

definition holds_permit :: "conn_pc \<Rightarrow> bool" where
  "holds_permit p = (case p of
     T_Permit _ \<Rightarrow> True | T_Counter _ \<Rightarrow> True | T_Counted _ \<Rightarrow> True | T_Release _ \<Rightarrow> True
   | T_Held _ \<Rightarrow> True | T_Drop_Server _ \<Rightarrow> True | T_Drop_Global _ \<Rightarrow> True | T_Drop_Notify _ \<Rightarrow> True
   | T_Drop_Permit _ \<Rightarrow> True | _ \<Rightarrow> False)"

definition counted_for :: "uuid \<Rightarrow> conn_pc \<Rightarrow> bool" where
  "counted_for sid p = (p = T_Counted sid \<or> p = T_Held sid \<or> p = T_Drop_Server sid)"

definition in_global :: "conn_pc \<Rightarrow> bool" where
  "in_global p = (case p of
     T_Held _ \<Rightarrow> True | T_Drop_Server _ \<Rightarrow> True | T_Drop_Global _ \<Rightarrow> True | _ \<Rightarrow> False)"

lemmas conn_counts = holds_permit_def counted_for_def in_global_def

definition tracker_inv :: "'s semaphore_api \<Rightarrow> (uuid \<Rightarrow> u32) \<Rightarrow> u64 \<Rightarrow> conn_pc list \<Rightarrow> 's connection_tracker \<Rightarrow> bool" where
  "tracker_inv api limit global_max tasks t \<longleftrightarrow>
     sem_available api (ct_global_semaphore t) + count_if holds_permit tasks = unat global_max \<and>
     unat (ct_global_count t) = count_if in_global tasks \<and>
     (\<forall>sid. unat (server_count t sid) = count_if (counted_for sid) tasks \<and>
            server_count t sid \<le> ucast (limit sid))"

definition drain_inv :: "'s conn_sys \<Rightarrow> bool" where
  "drain_inv s \<longleftrightarrow>
     (cs_drain s = D_Waiting \<longrightarrow>
        cs_notified s \<or> ct_global_count (cs_tracker s) \<noteq> 0 \<or>
        (\<exists>p \<in> set (cs_tasks s). is_notify p))"

lemma unat_limit_bound: "unat (ucast (m :: u32) :: u64) < 2 ^ 32"
  using unsigned_less [of m, where ?'a = nat]
  by (simp add: unsigned_ucast_eq take_bit_nat_eq_self)

lemma inc_below_Some: "inc_below m c = Some d \<longleftrightarrow> c < ucast m \<and> d = c + 1"
  by (auto simp: inc_below_def)

lemma unat_inc_below:
  assumes "(c :: u64) < ucast (m :: u32)"
  shows "unat (c + 1) = Suc (unat c)" "c + 1 \<le> ucast m"
proof -
  have "unat c < 2 ^ 32" using assms unat_limit_bound [of m] by (simp add: word_less_nat_alt)
  then show u: "unat (c + 1) = Suc (unat c)" by (simp add: unat_word_ariths)
  show "c + 1 \<le> ucast m" using assms u by (simp add: word_le_nat_alt word_less_nat_alt)
qed

lemma unat_dec: "0 < unat (c :: u64) \<Longrightarrow> unat (c - 1) = unat c - 1"
  by (simp add: unat_sub word_le_nat_alt)

lemma unat_inc_lt: "Suc (unat (c :: u64)) < 2 ^ 64 \<Longrightarrow> unat (c + 1) = Suc (unat c)"
  by (simp add: unat_word_ariths)

lemma server_count_simps [simp]:
  "server_count (ensure_counter a t) b = server_count t b"
  "server_count (maybe_warn_capacity now a m t) b = server_count t b"
  "server_count (t\<lparr>ct_global_semaphore := s\<rparr>) b = server_count t b"
  "server_count (t\<lparr>ct_global_count := g\<rparr>) b = server_count t b"
  "server_count (t\<lparr>ct_per_server := (ct_per_server t)(a \<mapsto> c)\<rparr>) b =
     (if b = a then c else server_count t b)"
  by (auto simp: server_count_def ensure_counter_def maybe_warn_capacity_def Let_def
      split: option.split)

lemma tracker_frame [simp]:
  "ct_global_semaphore (ensure_counter a t) = ct_global_semaphore t"
  "ct_global_count (ensure_counter a t) = ct_global_count t"
  "ct_global_semaphore (maybe_warn_capacity now a m t) = ct_global_semaphore t"
  "ct_global_count (maybe_warn_capacity now a m t) = ct_global_count t"
  by (auto simp: ensure_counter_def maybe_warn_capacity_def Let_def split: option.split)

lemma global_le_permits: "count_if in_global tasks \<le> count_if holds_permit tasks"
  by (rule count_if_mono) (auto simp: conn_counts split: conn_pc.splits)

lemma global_count_dec:
  "unat (c :: u64) = Suc n \<Longrightarrow> unat (c - 1) = n" "(c :: u64) \<le> b \<Longrightarrow> unat c = Suc n \<Longrightarrow> c - 1 \<le> b"
  using unat_dec [of c] by (simp_all add: word_le_nat_alt)

lemma tracker_inv_access:
  assumes ok: "semaphore_ok api" and inv: "tracker_inv api limit gm tasks t"
    and i: "i < length tasks"
    and acc: "conn_access api limit now (tasks ! i) t = (q, t')"
  shows "tracker_inv api limit gm (tasks[i := q]) t'"
proof -
  note upd = count_if_update [OF i, of holds_permit q] count_if_update [OF i, of in_global q]
    count_if_update [OF i, of "counted_for _" q]
  show ?thesis
  proof (cases "tasks ! i")
    case (T_Begin sid)
    then show ?thesis using acc inv ok upd
      by (fastforce simp: tracker_inv_def conn_counts semaphore_ok_def split: option.splits)
  next
    case (T_Counter sid)
    then show ?thesis using acc inv upd unat_inc_below [of _ "limit sid"]
      by (auto simp: tracker_inv_def conn_counts inc_below_Some split: option.splits)
  next
    case (T_Counted sid)
    have "count_if in_global (tasks[i := q]) \<le> unat gm"
      using acc T_Counted inv upd(1) global_le_permits [of "tasks[i := q]"]
      by (auto simp: tracker_inv_def conn_counts)
    then have "unat (ct_global_count t + 1) = Suc (unat (ct_global_count t))"
      using acc T_Counted inv upd(2) unsigned_less [of gm, where ?'a = nat]
      by (intro unat_inc_lt) (auto simp: tracker_inv_def conn_counts)
    then show ?thesis using T_Counted acc inv upd by (auto simp: tracker_inv_def conn_counts)
  next
    case (T_Drop_Server sid)
    then have "count_if (counted_for u) tasks =
        (if u = sid then Suc (count_if (counted_for u) (tasks[i := q]))
         else count_if (counted_for u) (tasks[i := q]))" for u
      using acc upd(3) [of u] by (auto simp: counted_for_def split: if_splits)
    then show ?thesis using T_Drop_Server acc inv upd(1,2) global_count_dec [of "server_count t sid"]
      by (auto simp: tracker_inv_def holds_permit_def in_global_def)
  next
    case (T_Drop_Global sid)
    then have "count_if in_global tasks = Suc (count_if in_global (tasks[i := q]))"
      using acc upd(2) by (auto simp: in_global_def)
    with T_Drop_Global show ?thesis using acc inv upd global_count_dec [of "ct_global_count t"]
      by (auto simp: tracker_inv_def holds_permit_def counted_for_def)
  qed (use acc inv ok upd in \<open>auto simp: tracker_inv_def conn_counts semaphore_ok_def\<close>)
qed

lemma tracker_inv_relabel:
  assumes inv: "tracker_inv api limit gm tasks t" and i: "i < length tasks"
    and same: "holds_permit q = holds_permit (tasks ! i)" "in_global q = in_global (tasks ! i)"
      "\<And>sid. counted_for sid q = counted_for sid (tasks ! i)"
  shows "tracker_inv api limit gm (tasks[i := q]) t"
  using inv same count_if_update [OF i, of holds_permit q] count_if_update [OF i, of in_global q]
    count_if_update [OF i, of "counted_for _" q]
  by (auto simp: tracker_inv_def)

lemma conn_step_inv:
  assumes "semaphore_ok api" "conn_step api limit s s'"
    and "tracker_inv api limit gm (cs_tasks s) (cs_tracker s)"
  shows "tracker_inv api limit gm (cs_tasks s') (cs_tracker s')"
  using assms(2)
proof cases
  case (access i p now)
  then show ?thesis
    using tracker_inv_access [OF assms(1,3), of i now] by (auto simp: set_task_def)
qed (use assms(3) in \<open>auto simp: set_task_def conn_counts intro!: tracker_inv_relabel\<close>)

lemma notify_kept:
  assumes "p \<in> set xs" "is_notify p" "i < length xs" "is_notify (xs ! i) \<Longrightarrow> is_notify q"
  shows "\<exists>p \<in> set (xs[i := q]). is_notify p"
proof -
  obtain j where j: "j < length xs" "xs ! j = p" using assms(1) by (auto simp: in_set_conv_nth)
  show ?thesis
  proof (cases "j = i")
    case True
    with assms j show ?thesis by (auto intro!: bexI [OF _ set_update_memI])
  next
    case False
    with j have "p \<in> set (xs[i := q])" using nth_mem [of j "xs[i := q]"] by simp
    with assms(2) show ?thesis by blast
  qed
qed

lemma conn_access_count:
  "fst (conn_access api limit now p t) = q \<Longrightarrow> snd (conn_access api limit now p t) = t' \<Longrightarrow>
   is_notify q \<or> ct_global_count t' = ct_global_count t \<or> (\<exists>sid. p = T_Counted sid)"
  by (cases p) (auto simp: is_notify_def split: option.splits)

lemma conn_step_drain:
  assumes ok: "semaphore_ok api" and step: "conn_step api limit s s'"
    and inv: "tracker_inv api limit gm (cs_tasks s) (cs_tracker s)" and d: "drain_inv s"
  shows "drain_inv s'"
  using step
proof cases
  case (access i p now)
  note s' = access(1) and i = access(2) and p = access(3)
  obtain q t' where acc: "conn_access api limit now p (cs_tracker s) = (q, t')"
    by (cases "conn_access api limit now p (cs_tracker s)")
  have inv': "tracker_inv api limit gm ((cs_tasks s)[i := q]) t'"
    using tracker_inv_access [OF ok inv i] acc p by simp
  have nz: "ct_global_count t' \<noteq> 0" if "p = T_Counted sid" for sid
    using that acc inv' count_if_pos [of i "(cs_tasks s)[i := q]" in_global] i
    by (auto simp: tracker_inv_def in_global_def)
  show ?thesis
  proof (cases "is_notify p")
    case True
    then show ?thesis by (simp add: s' drain_inv_def set_task_def)
  next
    case False
    have "is_notify q \<Longrightarrow> \<exists>p \<in> set ((cs_tasks s)[i := q]). is_notify p"
      using i by (metis set_update_memI)
    with False show ?thesis
      using d nz conn_access_count [of api limit now p "cs_tracker s" q t'] acc
        notify_kept [of _ "cs_tasks s" i q] i p
      by (fastforce simp: s' drain_inv_def set_task_def)
  qed
next
  case (drain d' n)
  with d show ?thesis by (cases "cs_drain s") (auto simp: drain_inv_def split: if_splits)
qed (use d notify_kept [of _ "cs_tasks s"] in
      \<open>fastforce simp: drain_inv_def set_task_def is_notify_def\<close>)+

lemma conn_reach_inv:
  assumes "semaphore_ok api" "reach (\<lambda>s. s = conn_start api gm n) (conn_step api limit) s"
  shows "tracker_inv api limit gm (cs_tasks s) (cs_tracker s) \<and> drain_inv s"
  using assms(2)
proof (rule reach_invariant)
  show "tracker_inv api limit gm (cs_tasks s) (cs_tracker s) \<and> drain_inv s"
    if "s = conn_start api gm n" for s
    using that assms(1)
    by (simp add: conn_start_def tracker_new_def tracker_inv_def conn_counts server_count_def
        drain_inv_def semaphore_ok_def)
qed (use conn_step_inv [OF assms(1)] conn_step_drain [OF assms(1)] in blast)

section \<open>Properties\<close>

text \<open>A counting semaphore, to show that the assumptions on tokio's can hold.\<close>

definition nat_semaphore :: "nat semaphore_api" where
  "nat_semaphore =
     \<lparr>sem_new = unat, sem_try_acquire = (\<lambda>s. if s = 0 then None else Some (s - 1)),
      sem_release = Suc, sem_available = (\<lambda>s. s)\<rparr>"

lemma nat_semaphore_ok: "semaphore_ok nat_semaphore"
  by (auto simp: semaphore_ok_def nat_semaphore_def)

lemma count_held_le:
  "count_if (\<lambda>p. p = T_Held sid) tasks \<le> count_if (counted_for sid) tasks"
  "count_if (\<lambda>p. \<exists>sid. p = T_Held sid) tasks \<le> count_if holds_permit tasks"
  by (rule count_if_mono; auto simp: conn_counts)+

text \<open>
  C3: Under every interleaving of any number of tasks, no server has more guards out than its
  limit, all servers together have at most \<open>global_max\<close>, no counter ever wraps below zero
  (each equals the number of tasks it counts), and once every task is idle again all counters are
  zero and every permit is back in the semaphore: nothing leaks on any path.
\<close>

theorem connection_limits_hold:
  assumes "semaphore_ok api" "reach (\<lambda>s. s = conn_start api gm n) (conn_step api limit) s"
  shows "count_if (\<lambda>p. p = T_Held sid) (cs_tasks s) \<le> unat (limit sid) \<and>
    count_if (\<lambda>p. \<exists>sid. p = T_Held sid) (cs_tasks s) \<le> unat gm \<and>
    unat (server_count (cs_tracker s) sid) = count_if (counted_for sid) (cs_tasks s) \<and>
    unat (global_active (cs_tracker s)) = count_if in_global (cs_tasks s) \<and>
    ((\<forall>p \<in> set (cs_tasks s). p = T_Idle) \<longrightarrow>
       server_count (cs_tracker s) sid = 0 \<and> global_active (cs_tracker s) = 0 \<and>
       sem_available api (ct_global_semaphore (cs_tracker s)) = unat gm)"
proof -
  have inv: "tracker_inv api limit gm (cs_tasks s) (cs_tracker s)"
    using conn_reach_inv [OF assms] by simp
  have idle: "count_if P (cs_tasks s) = 0" if "\<forall>p \<in> set (cs_tasks s). p = T_Idle" "\<not> P T_Idle" for P
    using that by (auto simp: count_if_eq_0)
  have "server_count (cs_tracker s) sid \<le> ucast (limit sid)"
    using inv by (simp add: tracker_inv_def)
  then have "unat (server_count (cs_tracker s) sid) \<le> unat (limit sid)"
    by (simp add: word_le_nat_alt unsigned_ucast_eq take_bit_nat_eq_self
        less_trans [OF unsigned_less])
  then show ?thesis
    using inv count_held_le(1) [of sid "cs_tasks s"] count_held_le(2) [of "cs_tasks s"] idle
    by (auto simp: tracker_inv_def global_active_def conn_counts unat_eq_zero)
qed

text \<open>Two tasks in turn against a limit of one: the first gets its guard, the second is refused.\<close>

definition task_turn :: "'s semaphore_api \<Rightarrow> (uuid \<Rightarrow> u32) \<Rightarrow> uuid \<Rightarrow> nat \<Rightarrow> 's conn_sys \<Rightarrow> 's conn_sys" where
  "task_turn api limit sid i s =
     (let p = cs_tasks s ! i in
      if i < length (cs_tasks s) then
        if p = T_Idle then set_task i (T_Begin sid, cs_tracker s) s
        else (set_task i (conn_access api limit 0 p (cs_tracker s)) s)
               \<lparr>cs_notified := cs_notified s \<or> is_notify p\<rparr>
      else s)"

lemma reach_turns: "reach I (conn_step api limit) s \<Longrightarrow>
    reach I (conn_step api limit) (fold (task_turn api limit sid) is s)"
proof (induction "is" arbitrary: s)
  case (Cons i "is")
  have "reach I (conn_step api limit) (task_turn api limit sid i s)"
    using Cons.prems
    by (auto simp: task_turn_def Let_def intro: reach_step conn_step.request conn_step.access)
  then show ?case using Cons.IH by simp
qed simp

definition two_requests :: "nat conn_sys" where
  "two_requests = fold (task_turn nat_semaphore (\<lambda>_. 1) 7) [0, 1, 0, 0, 0, 1, 0, 1, 1, 1, 1]
     (conn_start nat_semaphore 3 2)"

lemma reach_two_requests:
  "reach (\<lambda>s. s = conn_start nat_semaphore 3 2) (conn_step nat_semaphore (\<lambda>_. 1)) two_requests"
  unfolding two_requests_def by (intro reach_turns reach_init refl)

theorem connection_limits_hold_witness:
  "cs_tasks two_requests = [T_Held 7, T_Refused ServerLimitReached] \<and>
   count_if (\<lambda>p. p = T_Held 7) (cs_tasks two_requests) \<le> 1 \<and>
   unat (server_count (cs_tracker two_requests) 7) = count_if (counted_for 7) (cs_tasks two_requests)"
proof -
  have t: "cs_tasks two_requests = [T_Held 7, T_Refused ServerLimitReached]"
    unfolding two_requests_def by code_simp
  show ?thesis
    using connection_limits_hold [OF nat_semaphore_ok reach_two_requests, of 7] t by simp
qed

definition drain_run :: "nat \<Rightarrow> 's conn_sys \<Rightarrow> drain_pc" where
  "drain_run k s =
     fst (((\<lambda>(d, n). drain_access d n (cs_tracker s)) ^^ k) (cs_drain s, cs_notified s))"

text \<open>
  \<open>drain\<close> cannot miss the wakeup: whenever it waits on a future that was not woken, a
  connection is still counted or a guard being dropped has its notification still to come. So once
  every task is idle, three more accesses let \<open>drain\<close> return, wherever it was.
\<close>

theorem drain_not_stuck:
  assumes "semaphore_ok api" "reach (\<lambda>s. s = conn_start api gm n) (conn_step api limit) s"
  shows "(cs_drain s = D_Waiting \<and> \<not> cs_notified s \<longrightarrow>
            global_active (cs_tracker s) \<noteq> 0 \<or> (\<exists>p \<in> set (cs_tasks s). is_notify p)) \<and>
         ((\<forall>p \<in> set (cs_tasks s). p = T_Idle) \<longrightarrow> drain_run 3 s = D_Returned)"
proof -
  have d: "drain_inv s" and inv: "tracker_inv api limit gm (cs_tasks s) (cs_tracker s)"
    using conn_reach_inv [OF assms] by simp_all
  have "drain_run 3 s = D_Returned" if idle: "\<forall>p \<in> set (cs_tasks s). p = T_Idle"
  proof -
    have "count_if in_global (cs_tasks s) = 0" using idle by (auto simp: count_if_eq_0 in_global_def)
    then have "ct_global_count (cs_tracker s) = 0" using inv by (simp add: tracker_inv_def unat_eq_zero)
    moreover have "\<not> (\<exists>p \<in> set (cs_tasks s). is_notify p)" using idle by (auto simp: is_notify_def)
    ultimately show ?thesis
      using d by (cases "cs_drain s") (auto simp: drain_inv_def drain_run_def eval_nat_numeral)
  qed
  with d show ?thesis by (auto simp: drain_inv_def global_active_def)
qed

theorem drain_not_stuck_witness:
  "drain_run 3 (conn_start nat_semaphore 3 2) = D_Returned"
proof -
  have "reach (\<lambda>s. s = conn_start nat_semaphore 3 2) (conn_step nat_semaphore (\<lambda>_. 1))
      (conn_start nat_semaphore 3 2)"
    by (rule reach_init) simp
  from drain_not_stuck [OF nat_semaphore_ok this] show ?thesis by (simp add: conn_start_def)
qed

text \<open>What a finished task returns to its caller.\<close>

fun acquire_result :: "conn_pc \<Rightarrow> (capacity_error + connection_guard) option" where
  "acquire_result (T_Held sid) = Some (Inr \<lparr>cg_server_id = sid\<rparr>)"
| "acquire_result (T_Refused e) = Some (Inl e)"
| "acquire_result _ = None"

definition conn_alone ::
  "'s semaphore_api \<Rightarrow> (uuid \<Rightarrow> u32) \<Rightarrow> nat \<Rightarrow> nat \<Rightarrow> conn_pc \<times> 's connection_tracker \<Rightarrow> conn_pc \<times> 's connection_tracker" where
  "conn_alone api limit now k = (\<lambda>(p, t). conn_access api limit now p t) ^^ k"

lemma conn_alone_steps:
  "conn_alone api limit now 5 (p, t) =
     (let f = (\<lambda>(p, t). conn_access api limit now p t) in f (f (f (f (f (p, t))))))"
  "conn_alone api limit now 4 (p, t) =
     (let f = (\<lambda>(p, t). conn_access api limit now p t) in f (f (f (f (p, t)))))"
  by (simp_all add: conn_alone_def eval_nat_numeral Let_def)

lemma drop_gauges_frame [simp]:
  "ct_global_semaphore (drop_gauges t) = ct_global_semaphore t"
  "ct_per_server (drop_gauges t) = ct_per_server t"
  "server_count (drop_gauges t) = server_count t"
  by (simp_all add: drop_gauges_def server_count_def fun_eq_iff)

lemma conn_alone_acquire:
  "conn_alone api limit now 5 (T_Begin sid, drop_gauges t) =
     (case try_acquire api now sid (limit sid) t of
        (Inl e, t') \<Rightarrow> (T_Refused e, drop_gauges t')
      | (Inr g, t') \<Rightarrow> (T_Held (cg_server_id g), drop_gauges t'))"
proof (cases "sem_try_acquire api (ct_global_semaphore t)")
  case None
  then show ?thesis by (simp add: conn_alone_steps Let_def try_acquire_def)
next
  case (Some s)
  show ?thesis
    by (cases "inc_below (limit sid) (server_count t sid)"; cases "ct_per_server t sid")
      (simp_all add: Some conn_alone_steps Let_def try_acquire_def ensure_counter_def
        maybe_warn_capacity_def drop_gauges_def server_count_def split: option.split)
qed

lemma conn_alone_drop:
  "conn_alone api limit now 4 (T_Drop_Server sid, drop_gauges t) =
     (T_Idle, drop_gauges (guard_drop api \<lparr>cg_server_id = sid\<rparr> t))"
  by (simp add: conn_alone_steps Let_def guard_drop_def drop_gauges_def server_count_def)

text \<open>
  A request that is not interleaved ends after five accesses with the answer and the tracker
  that \<open>try_acquire\<close> computes, on every branch, and dropping its guard after four more with
  what \<open>drop\<close> computes (gauges apart): the step relation and the methods are the same code.
\<close>

theorem acquire_alone_is_sequential:
  "(let (p, t') = conn_alone api limit now 5 (T_Begin sid, drop_gauges t) in
    acquire_result p = Some (fst (try_acquire api now sid (limit sid) t)) \<and>
    t' = drop_gauges (snd (try_acquire api now sid (limit sid) t))) \<and>
   conn_alone api limit now 4 (T_Drop_Server sid, drop_gauges t) =
     (T_Idle, drop_gauges (guard_drop api \<lparr>cg_server_id = sid\<rparr> t))"
  by (cases "try_acquire api now sid (limit sid) t"; cases "fst (try_acquire api now sid (limit sid) t)")
    (auto simp: conn_alone_acquire conn_alone_drop)

end
