(* ===== verification/Sidecar.thy ===== *)
theory Sidecar
  imports Circuit_Breaker Connections Upstream
begin

text \<open>
  The upstream executor and the sidecar protocol (\<open>services/gateway/src/sidecar.rs\<close>): length
  prefixed frames over a Unix socket, the connection pool, the direct and the sidecar path, and the
  bookkeeping with the circuit breaker.

  A socket is the bytes that wait to be read from it. The network is a function from what is sent to
  what happens: \<open>peer\<close> for the sidecar's answer, \<open>net\<close> for a direct HTTP call. JSON and
  base64 codecs are the fields of \<open>sidecar_ext\<close>. Log lines are not modelled; what they may
  contain is (\<open>url_path_only\<close>).
\<close>

section \<open>Data\<close>

definition POOL_MAX :: u64 where "POOL_MAX = 32"
definition IPC_TIMEOUT_SECS :: u64 where "IPC_TIMEOUT_SECS = 35"

record ipc_http_request =
  ih_method :: string
  ih_url :: string
  ih_headers :: "(string \<times> string) list"
  ih_body :: "string option"

record ipc_request =
  iq_server_id :: uuid
  iq_request :: ipc_http_request

record ipc_response =
  ir_status :: u16
  ir_headers :: "(string \<times> string) list"
  ir_body :: string
  ir_latency_ms :: u64

record upstream_response =
  us_status :: u16
  us_body :: "u8 list"
  us_latency_ms :: u64
  us_headers :: "(string \<times> string) list"

datatype execute_error =
    CircuitOpen u64
  | SidecarUnavailable
  | Timeout
  | UpstreamError u16

section \<open>Framing\<close>

datatype io_error = InvalidInput | UnexpectedEof | OtherIo

definition u32_to_be_bytes :: "u32 \<Rightarrow> u8 list" where
  "u32_to_be_bytes w =
     [ucast (drop_bit 24 w), ucast (drop_bit 16 w), ucast (drop_bit 8 w), ucast w]"

definition u32_from_be_bytes :: "u8 list \<Rightarrow> u32" where
  "u32_from_be_bytes bs = fold (\<lambda>b acc. acc * 256 + ucast b) bs 0"

definition send_framed :: "u8 list \<Rightarrow> io_error + u8 list" where
  "send_framed payload =
     (if length payload \<ge> 2 ^ 32 then Inl InvalidInput
      else Inr (u32_to_be_bytes (of_nat (length payload)) @ payload))"

definition read_exact :: "nat \<Rightarrow> u8 list \<Rightarrow> io_error + (u8 list \<times> u8 list)" where
  "read_exact n inp = (if length inp < n then Inl UnexpectedEof else Inr (take n inp, drop n inp))"

definition recv_framed :: "u8 list \<Rightarrow> io_error + (u8 list \<times> u8 list)" where
  "recv_framed inp =
     and_then (read_exact 4 inp) (\<lambda>(len_buf, inp1). read_exact (unat (u32_from_be_bytes len_buf)) inp1)"

record unix_stream =
  un_inbox :: "u8 list"

text \<open>
  \<open>send_recv\<close> on a stream. The peer answers the frame it is sent with bytes that are added to
  what waits on the stream, or with an I/O error.
\<close>

definition send_recv ::
  "(u8 list \<Rightarrow> io_error + u8 list) \<Rightarrow> u8 list \<Rightarrow> unix_stream \<Rightarrow> (io_error + u8 list) \<times> unix_stream" where
  "send_recv peer payload s =
     (case and_then (send_framed payload) peer of
        Inl e \<Rightarrow> (Inl e, s)
      | Inr answer \<Rightarrow>
          (case recv_framed (un_inbox s @ answer) of
             Inl e \<Rightarrow> (Inl e, s)
           | Inr (buf, rest) \<Rightarrow> (Inr buf, s\<lparr>un_inbox := rest\<rparr>)))"

section \<open>The connection pool\<close>

record 's sidecar_pool =
  sp_idle :: "unix_stream list"
  sp_semaphore :: 's

record pooled_connection =
  pc_stream :: "unix_stream option"

definition pool_new :: "'s semaphore_api \<Rightarrow> 's sidecar_pool" where
  "pool_new api = \<lparr>sp_idle = [], sp_semaphore = sem_new api POOL_MAX\<rparr>"

text \<open>\<open>None\<close>: every permit is taken and the caller waits. The semaphore is never closed.\<close>

definition pool_acquire ::
  "'s semaphore_api \<Rightarrow> unix_stream option \<Rightarrow> 's sidecar_pool
   \<Rightarrow> ((execute_error + pooled_connection) \<times> 's sidecar_pool) option" where
  "pool_acquire api connect p =
     (case sem_try_acquire api (sp_semaphore p) of
        None \<Rightarrow> None
      | Some s \<Rightarrow>
          (case sp_idle p of
             st # idle \<Rightarrow> Some (Inr \<lparr>pc_stream = Some st\<rparr>, p\<lparr>sp_semaphore := s, sp_idle := idle\<rparr>)
           | [] \<Rightarrow>
               (case connect of
                  Some st \<Rightarrow> Some (Inr \<lparr>pc_stream = Some st\<rparr>, p\<lparr>sp_semaphore := s\<rparr>)
                | None \<Rightarrow> Some (Inl SidecarUnavailable, p\<lparr>sp_semaphore := sem_release api s\<rparr>))))"

definition conn_discard :: "pooled_connection \<Rightarrow> pooled_connection" where
  "conn_discard c = c\<lparr>pc_stream := None\<rparr>"

definition conn_drop :: "'s semaphore_api \<Rightarrow> pooled_connection \<Rightarrow> 's sidecar_pool \<Rightarrow> 's sidecar_pool" where
  "conn_drop api c p =
     p\<lparr>sp_idle := (case pc_stream c of Some st \<Rightarrow> sp_idle p @ [st] | None \<Rightarrow> sp_idle p),
       sp_semaphore := sem_release api (sp_semaphore p)\<rparr>"

section \<open>The executor\<close>

record sidecar_ext =
  sx_request_to_vec :: "ipc_request \<Rightarrow> string + u8 list"
  sx_response_from_slice :: "u8 list \<Rightarrow> string + ipc_response"
  sx_json_to_vec :: "json \<Rightarrow> u8 list option"
  sx_base64_encode :: "u8 list \<Rightarrow> string"
  sx_base64_decode :: "string \<Rightarrow> u8 list option"
  sx_method :: "string \<Rightarrow> string option"

record http_request =
  hr_method :: string
  hr_url :: string
  hr_headers :: "(string \<times> string) list"
  hr_body :: "u8 list option"
  hr_timeout :: u64

datatype http_outcome =
    Http_Elapsed
  | Http_Failed
  | Http_Response u16 "(string \<times> string option) list" "u8 list option" u64

definition unwrap_or_default :: "'a list option \<Rightarrow> 'a list" where
  "unwrap_or_default x = (case x of Some xs \<Rightarrow> xs | None \<Rightarrow> [])"

definition is_success_status :: "u16 \<Rightarrow> bool" where
  "is_success_status status = (200 \<le> status \<and> status < 300)"

definition execute_direct ::
  "sidecar_ext \<Rightarrow> (http_request \<Rightarrow> http_outcome) \<Rightarrow> upstream_request \<Rightarrow> execute_error + upstream_response" where
  "execute_direct sx net req =
     (let method = (case sx_method sx (ur_method req) of Some m \<Rightarrow> m | None \<Rightarrow> ''GET'');
          body = map_option (\<lambda>b. unwrap_or_default (sx_json_to_vec sx b)) (ur_body req)
      in case net \<lparr>hr_method = method, hr_url = ur_url req, hr_headers = ur_headers req,
                   hr_body = body, hr_timeout = ur_timeout req\<rparr> of
           Http_Elapsed \<Rightarrow> Inl Timeout
         | Http_Failed \<Rightarrow> Inl Timeout
         | Http_Response status hs bytes latency_ms \<Rightarrow>
             let headers = obj_of (List.map_filter (\<lambda>(k, v). map_option (\<lambda>vs. (k, vs)) v) hs);
                 body = unwrap_or_default bytes
             in if is_success_status status then
                  Inr \<lparr>us_status = status, us_body = body, us_latency_ms = latency_ms, us_headers = headers\<rparr>
                else Inl (UpstreamError status))"

text \<open>\<open>elapsed\<close> says whether the safety-net timeout fires before the round trip ends.\<close>

record sidecar_io =
  io_connect :: "unix_stream option"
  io_elapsed :: bool
  io_peer :: "u8 list \<Rightarrow> io_error + u8 list"

definition ipc_request_of :: "sidecar_ext \<Rightarrow> uuid \<Rightarrow> upstream_request \<Rightarrow> ipc_request" where
  "ipc_request_of sx sid req =
     \<lparr>iq_server_id = sid,
      iq_request =
        \<lparr>ih_method = ur_method req, ih_url = ur_url req, ih_headers = ur_headers req,
         ih_body = map_option (\<lambda>b. sx_base64_encode sx (unwrap_or_default (sx_json_to_vec sx b))) (ur_body req)\<rparr>\<rparr>"

definition decode_response :: "sidecar_ext \<Rightarrow> ipc_response \<Rightarrow> execute_error + upstream_response" where
  "decode_response sx r =
     (let body = unwrap_or_default (sx_base64_decode sx (ir_body r))
      in if is_success_status (ir_status r) then
           Inr \<lparr>us_status = ir_status r, us_body = body, us_latency_ms = ir_latency_ms r,
                us_headers = ir_headers r\<rparr>
         else Inl (UpstreamError (ir_status r)))"

text \<open>The round trip on an acquired connection, and whether the connection is then discarded.\<close>

definition sidecar_exchange ::
  "sidecar_ext \<Rightarrow> sidecar_io \<Rightarrow> u8 list \<Rightarrow> pooled_connection
   \<Rightarrow> (execute_error + upstream_response) \<times> pooled_connection" where
  "sidecar_exchange sx io payload conn =
     (case pc_stream conn of
        None \<Rightarrow> (Inl SidecarUnavailable, conn)
      | Some st \<Rightarrow>
          if io_elapsed io then (Inl Timeout, conn_discard conn)
          else
            (case send_recv (io_peer io) payload st of
               (Inl _, _) \<Rightarrow> (Inl SidecarUnavailable, conn_discard conn)
             | (Inr bytes, st') \<Rightarrow>
                 (case sx_response_from_slice sx bytes of
                    Inl _ \<Rightarrow> (Inl SidecarUnavailable, conn_discard conn)
                  | Inr r \<Rightarrow> (decode_response sx r, conn\<lparr>pc_stream := Some st'\<rparr>))))"

definition execute_via_sidecar ::
  "'s semaphore_api \<Rightarrow> sidecar_ext \<Rightarrow> sidecar_io \<Rightarrow> uuid \<Rightarrow> upstream_request \<Rightarrow> 's sidecar_pool
   \<Rightarrow> ((execute_error + upstream_response) \<times> 's sidecar_pool) option" where
  "execute_via_sidecar api sx io sid req p =
     (case sx_request_to_vec sx (ipc_request_of sx sid req) of
        Inl _ \<Rightarrow> Some (Inl SidecarUnavailable, p)
      | Inr payload \<Rightarrow>
          (case pool_acquire api (io_connect io) p of
             None \<Rightarrow> None
           | Some (Inl e, p1) \<Rightarrow> Some (Inl e, p1)
           | Some (Inr conn, p1) \<Rightarrow>
               let (r, conn') = sidecar_exchange sx io payload conn
               in Some (r, conn_drop api conn' p1)))"

record 's upstream_executor =
  ue_pool :: "'s sidecar_pool"
  ue_registry :: circuit_breaker_registry

text \<open>One call's environment: the clock at the check and at the outcome, and the network.\<close>

record call_env =
  ce_check_time :: int
  ce_outcome_time :: int
  ce_net :: "http_request \<Rightarrow> http_outcome"
  ce_io :: sidecar_io

definition record_outcome :: "int \<Rightarrow> execute_error + upstream_response \<Rightarrow> circuit_breaker \<Rightarrow> circuit_breaker" where
  "record_outcome now result b =
     (case result of
        Inr _ \<Rightarrow> cb_on_success b
      | Inl SidecarUnavailable \<Rightarrow> cb_on_failure now None b
      | Inl Timeout \<Rightarrow> cb_on_failure now None b
      | Inl (UpstreamError status) \<Rightarrow>
          if status \<ge> 500 \<or> status = 429 then cb_on_failure now None b else b
      | Inl (CircuitOpen _) \<Rightarrow> b)"

definition dispatch ::
  "'s semaphore_api \<Rightarrow> sidecar_ext \<Rightarrow> call_env \<Rightarrow> uuid \<Rightarrow> upstream_request \<Rightarrow> auth_type \<Rightarrow> 's sidecar_pool
   \<Rightarrow> ((execute_error + upstream_response) \<times> 's sidecar_pool) option" where
  "dispatch api sx env sid req auth p =
     (if auth = AuthNone then Some (execute_direct sx (ce_net env) req, p)
      else execute_via_sidecar api sx (ce_io env) sid req p)"

definition execute ::
  "'s semaphore_api \<Rightarrow> sidecar_ext \<Rightarrow> call_env \<Rightarrow> uuid \<Rightarrow> upstream_request \<Rightarrow> auth_type
   \<Rightarrow> 's upstream_executor \<Rightarrow> ((execute_error + upstream_response) \<times> 's upstream_executor) option" where
  "execute api sx env sid req auth ex =
     (let (b0, reg) = registry_get (ue_registry ex) sid;
          (ck, b1) = cb_check (ce_check_time env) b0;
          ex1 = ex\<lparr>ue_registry := registry_put reg sid b1\<rparr>
      in case ck of
           Inl (CircuitError_Open ms) \<Rightarrow> Some (Inl (CircuitOpen ms), ex1)
         | Inr _ \<Rightarrow>
             (case dispatch api sx env sid req auth (ue_pool ex1) of
                None \<Rightarrow> None
              | Some (result, p) \<Rightarrow>
                  Some (result,
                    ex1\<lparr>ue_pool := p,
                        ue_registry := registry_put (ue_registry ex1) sid
                          (record_outcome (ce_outcome_time env) result b1)\<rparr>)))"

section \<open>URLs in logs\<close>

definition url_path_only :: "string \<Rightarrow> string" where
  "url_path_only url =
     (let after_scheme = (case find_str ''://'' url of Some i \<Rightarrow> i + 3 | None \<Rightarrow> 0);
          rest = drop after_scheme url;
          path_start = (case find_char (\<lambda>c. c = CHR ''/'') rest of
                          Some i \<Rightarrow> after_scheme + i | None \<Rightarrow> length url);
          path_end = (case find_char (\<lambda>c. c = CHR ''?'' \<or> c = CHR ''#'') (drop path_start url) of
                        Some i \<Rightarrow> path_start + i | None \<Rightarrow> length url)
      in take (path_end - path_start) (drop path_start url))"

section \<open>Framing properties\<close>

lemma unat_ucast_byte: "unat (ucast (x :: u32) :: u8) = unat x mod 256"
  by (simp add: unsigned_ucast_eq take_bit_eq_mod)

lemma unat_ucast_word: "unat (ucast (x :: u8) :: u32) = unat x"
  using unsigned_less [of x, where ?'a = nat] by (simp add: unsigned_ucast_eq take_bit_nat_eq_self)

lemma unat_drop_bit: "unat (drop_bit k (w :: u32)) = unat w div 2 ^ k"
  using unsigned_less [of w, where ?'a = nat]
  by (subst unsigned_drop_bit_eq) (simp add: take_bit_nat_eq_self drop_bit_eq_div)

lemma be_digits:
  assumes "n < 2 ^ 32"
  shows "(((n div 2 ^ 24 mod 256) * 256 + n div 2 ^ 16 mod 256) * 256 + n div 2 ^ 8 mod 256) * 256 + n mod 256
    = (n :: nat)"
proof -
  have "n div 2 ^ 8 div 256 = n div 2 ^ 16" "n div 2 ^ 16 div 256 = n div 2 ^ 24"
    by (simp_all flip: div_mult2_eq)
  moreover have "n div 2 ^ 24 < 256" using assms by (simp add: less_mult_imp_div_less)
  moreover have "n div 256 * 256 + n mod 256 = n" "n div 2 ^ 8 div 256 * 256 + n div 2 ^ 8 mod 256 = n div 2 ^ 8"
    "n div 2 ^ 16 div 256 * 256 + n div 2 ^ 16 mod 256 = n div 2 ^ 16"
    by (rule div_mult_mod_eq)+
  ultimately show ?thesis by simp
qed

lemma u32_be_roundtrip: "u32_from_be_bytes (u32_to_be_bytes w) = w"
proof -
  let ?n = "unat w"
  have n: "?n < 2 ^ 32" using unsigned_less [of w, where ?'a = nat] by simp
  have "unat (u32_from_be_bytes (u32_to_be_bytes w)) =
      ((((?n div 2 ^ 24 mod 256) * 256 + ?n div 2 ^ 16 mod 256) * 256 + ?n div 2 ^ 8 mod 256) * 256 + ?n mod 256)
        mod 2 ^ 32"
    unfolding u32_from_be_bytes_def u32_to_be_bytes_def
    by (simp add: unat_word_ariths unat_ucast_word unat_ucast_byte unat_drop_bit mod_simps)
  also have "\<dots> = ?n" using be_digits [OF n] n by simp
  finally show ?thesis by (simp add: word_unat_eq_iff)
qed

lemma recv_frame:
  assumes "length payload < 2 ^ 32"
  shows "recv_framed (u32_to_be_bytes (of_nat (length payload)) @ payload @ rest) = Inr (payload, rest)"
proof -
  let ?h = "u32_to_be_bytes (of_nat (length payload))"
  have h: "length ?h = 4" by (simp add: u32_to_be_bytes_def)
  have "read_exact 4 (?h @ payload @ rest) = Inr (?h, payload @ rest)"
    using h by (simp add: read_exact_def)
  moreover have "unat (u32_from_be_bytes ?h) = length payload"
    using assms by (simp add: u32_be_roundtrip unat_of_nat)
  ultimately show ?thesis by (simp add: recv_framed_def read_exact_def)
qed

lemma recv_truncated:
  assumes "length payload < 2 ^ 32" "k < length payload + 4"
  shows "recv_framed (take k (u32_to_be_bytes (of_nat (length payload)) @ payload)) = Inl UnexpectedEof"
proof (cases "k < 4")
  case True
  then show ?thesis by (simp add: recv_framed_def read_exact_def u32_to_be_bytes_def)
next
  case False
  let ?h = "u32_to_be_bytes (of_nat (length payload))"
  have h: "length ?h = 4" by (simp add: u32_to_be_bytes_def)
  have "take k (?h @ payload) = ?h @ take (k - 4) payload" using False h by simp
  moreover have "read_exact 4 (?h @ take (k - 4) payload) = Inr (?h, take (k - 4) payload)"
    using h by (simp add: read_exact_def)
  moreover have "unat (u32_from_be_bytes ?h) = length payload"
    using assms by (simp add: u32_be_roundtrip unat_of_nat)
  ultimately show ?thesis using assms False by (auto simp: recv_framed_def read_exact_def)
qed

text \<open>
  The frame of a payload below 4 GiB is four bytes longer than the payload; reading it from a
  stream returns the payload and leaves what follows untouched, reading any proper prefix of it
  fails with an end of file; a larger payload is refused before anything is written.
\<close>

theorem ipc_frame_roundtrip:
  "if length payload < 2 ^ 32 then
     \<exists>f. send_framed payload = Inr f \<and> length f = length payload + 4 \<and>
         recv_framed (f @ rest) = Inr (payload, rest) \<and>
         (\<forall>k < length f. recv_framed (take k f) = Inl UnexpectedEof)
   else send_framed payload = Inl InvalidInput"
  using recv_frame [of payload rest] recv_truncated [of payload]
  by (auto simp: send_framed_def u32_to_be_bytes_def)

theorem ipc_frame_roundtrip_witness:
  "\<exists>f. send_framed [1, 2, 3] = Inr f \<and> recv_framed (f @ [9]) = Inr ([1, 2, 3], [9]) \<and>
     (\<forall>k < length f. recv_framed (take k f) = Inl UnexpectedEof)"
  using ipc_frame_roundtrip [of "[1, 2, 3]" "[9]"] by auto

section \<open>The pool\<close>

lemma exchange_stream:
  "sidecar_exchange sx io payload conn = (r, conn') \<Longrightarrow>
     (r = Inl Timeout \<or> r = Inl SidecarUnavailable \<longrightarrow> pc_stream conn = None \<or> pc_stream conn' = None) \<and>
     (\<forall>ms. r \<noteq> Inl (CircuitOpen ms))"
  by (auto simp: sidecar_exchange_def conn_discard_def decode_response_def Let_def
      split: option.splits if_splits prod.splits sum.splits)

text \<open>
  A call through the sidecar always completes when a permit is free, gives its permit back on
  every path, and adds at most one connection to the idle pool, none after a timeout, an I/O error or
  an answer that does not parse: a connection that may be out of step is never reused.
\<close>

theorem sidecar_pool_restored:
  assumes "semaphore_ok api" "0 < sem_available api (sp_semaphore p)"
  shows "\<exists>r p'. execute_via_sidecar api sx io sid req p = Some (r, p') \<and>
    sem_available api (sp_semaphore p') = sem_available api (sp_semaphore p) \<and>
    length (sp_idle p') \<le> max 1 (length (sp_idle p)) \<and>
    (r = Inl Timeout \<or> r = Inl SidecarUnavailable \<longrightarrow> length (sp_idle p') \<le> length (sp_idle p) \<and>
       set (sp_idle p') \<subseteq> set (sp_idle p))"
proof (cases "sx_request_to_vec sx (ipc_request_of sx sid req)")
  case (Inl e)
  then show ?thesis by (simp add: execute_via_sidecar_def)
next
  case (Inr payload)
  obtain s where s: "sem_try_acquire api (sp_semaphore p) = Some s"
    using assms by (cases "sem_try_acquire api (sp_semaphore p)") (auto simp: semaphore_ok_def)
  have given: "sem_available api (sem_release api s) = sem_available api (sp_semaphore p)"
    using assms(1) s by (simp add: semaphore_ok_def)
  show ?thesis
  proof (cases "sp_idle p = [] \<and> io_connect io = None")
    case True
    with Inr s given show ?thesis by (simp add: execute_via_sidecar_def pool_acquire_def)
  next
    case False
    then obtain st idle where acq: "pool_acquire api (io_connect io) p =
        Some (Inr \<lparr>pc_stream = Some st\<rparr>, p\<lparr>sp_semaphore := s, sp_idle := idle\<rparr>)"
      and idle: "set idle \<subseteq> set (sp_idle p)" "length idle \<le> length (sp_idle p)"
        "Suc (length idle) \<le> max 1 (length (sp_idle p))"
      using s by (cases "sp_idle p") (auto simp: pool_acquire_def)
    obtain r conn' where ex: "sidecar_exchange sx io payload \<lparr>pc_stream = Some st\<rparr> = (r, conn')"
      by (cases "sidecar_exchange sx io payload \<lparr>pc_stream = Some st\<rparr>")
    show ?thesis
      using Inr acq ex given idle exchange_stream [OF ex]
      by (auto simp: execute_via_sidecar_def conn_drop_def split: option.split)
  qed
qed

definition sample_sx :: sidecar_ext where
  "sample_sx =
     \<lparr>sx_request_to_vec = (\<lambda>_. Inr [1, 2]), sx_response_from_slice = (\<lambda>_. Inl ''bad''),
      sx_json_to_vec = (\<lambda>_. None), sx_base64_encode = (\<lambda>_. []), sx_base64_decode = (\<lambda>_. None),
      sx_method = Some\<rparr>"

definition sample_request :: upstream_request where
  "sample_request =
     \<lparr>ur_method = ''GET'', ur_url = ''https://api.example.com/x'', ur_headers = [], ur_body = None,
      ur_timeout = 500\<rparr>"

definition sample_io :: sidecar_io where
  "sample_io = \<lparr>io_connect = Some \<lparr>un_inbox = []\<rparr>, io_elapsed = False, io_peer = (\<lambda>_. Inr [0, 0, 0, 0])\<rparr>"

theorem sidecar_pool_restored_witness:
  "\<exists>r p'. execute_via_sidecar nat_semaphore sample_sx sample_io 7 sample_request (pool_new nat_semaphore) =
      Some (r, p') \<and> sem_available nat_semaphore (sp_semaphore p') = 32"
proof -
  have "sem_available nat_semaphore (sp_semaphore (pool_new nat_semaphore)) = 32"
    by (simp add: pool_new_def nat_semaphore_def POOL_MAX_def)
  with sidecar_pool_restored [OF nat_semaphore_ok, of "pool_new nat_semaphore" sample_sx sample_io 7 sample_request]
  show ?thesis by auto
qed

section \<open>The executor and the breaker\<close>

definition breaker_of :: "'s upstream_executor \<Rightarrow> uuid \<Rightarrow> circuit_breaker" where
  "breaker_of ex sid =
     (case map_of (breakers (ue_registry ex)) sid of Some b \<Rightarrow> b | None \<Rightarrow> cb_new sid)"

fun spec_outcome :: "int \<Rightarrow> execute_error + upstream_response \<Rightarrow> spec_breaker \<Rightarrow> spec_breaker" where
  "spec_outcome now (Inr _) a = spec_success a"
| "spec_outcome now (Inl SidecarUnavailable) a = spec_failure now a"
| "spec_outcome now (Inl Timeout) a = spec_failure now a"
| "spec_outcome now (Inl (UpstreamError st)) a = (if st \<ge> 500 \<or> st = 429 then spec_failure now a else a)"
| "spec_outcome now (Inl (CircuitOpen _)) a = a"

lemma record_outcome_abs:
  assumes "cb_inv b"
  shows "cb_inv (record_outcome now r b)" "cb_abs (record_outcome now r b) = spec_outcome now r (cb_abs b)"
  using assms
  by (auto simp: record_outcome_def cb.success_inv cb.failure_inv cb.success_abs cb.failure_abs
      split: sum.split execute_error.split)

lemma direct_not_open: "execute_direct sx net req \<noteq> Inl (CircuitOpen ms)"
  by (auto simp: execute_direct_def Let_def split: http_outcome.split)

lemma sidecar_not_open: "execute_via_sidecar api sx io sid req p = Some (r, p') \<Longrightarrow> r \<noteq> Inl (CircuitOpen ms)"
  by (auto simp: execute_via_sidecar_def pool_acquire_def dest: exchange_stream
      split: sum.splits option.splits list.splits prod.splits)

lemma registry_get_breaker: "fst (registry_get (ue_registry ex) sid) = breaker_of ex sid"
  by (simp add: registry_get_def breaker_of_def split: option.split)

lemma breaker_of_put:
  "breaker_of (ex\<lparr>ue_registry := registry_put reg sid b\<rparr>) sid' =
     (if sid' = sid then b else breaker_of (ex\<lparr>ue_registry := reg\<rparr>) sid')"
  by (simp add: breaker_of_def registry_lookup)

lemma breaker_of_get:
  "sid' \<noteq> sid \<Longrightarrow> breaker_of (ex\<lparr>ue_registry := snd (registry_get (ue_registry ex) sid)\<rparr>) sid' = breaker_of ex sid'"
  by (simp add: breaker_of_def registry_lookup)

lemma breaker_of_pool [simp]: "breaker_of (ex\<lparr>ue_pool := p\<rparr>) = breaker_of ex"
  by (simp add: breaker_of_def fun_eq_iff)

lemma dispatch_not_open: "dispatch api sx env sid req auth p = Some (r, p') \<Longrightarrow> r \<noteq> Inl (CircuitOpen ms)"
  using direct_not_open sidecar_not_open by (fastforce simp: dispatch_def split: if_splits)

lemma execute_cases:
  assumes "execute api sx env sid req auth ex = Some (r, ex')"
  defines "ck \<equiv> cb_check (ce_check_time env) (breaker_of ex sid)"
  shows "if is_ok (fst ck)
    then \<exists>p. dispatch api sx env sid req auth (ue_pool ex) = Some (r, p) \<and> ue_pool ex' = p \<and>
           breaker_of ex' sid = record_outcome (ce_outcome_time env) r (snd ck)
    else (\<exists>ms. r = Inl (CircuitOpen ms)) \<and> ue_pool ex' = ue_pool ex \<and> breaker_of ex' sid = snd ck"
proof -
  obtain b0 reg where g: "registry_get (ue_registry ex) sid = (b0, reg)" by force
  have b0: "b0 = breaker_of ex sid" using registry_get_breaker [of ex sid] g by simp
  obtain c b1 where c: "cb_check (ce_check_time env) b0 = (c, b1)" by force
  show ?thesis
  proof (cases c)
    case (Inl e)
    with assms(1) g c b0 show ?thesis
      by (cases e) (auto simp: execute_def ck_def breaker_of_put Let_def)
  next
    case (Inr u)
    have eq: "execute api sx env sid req auth ex =
        (case dispatch api sx env sid req auth (ue_pool ex) of
           None \<Rightarrow> None
         | Some (result, p) \<Rightarrow> Some (result, ex\<lparr>ue_pool := p, ue_registry :=
             registry_put (registry_put reg sid b1) sid (record_outcome (ce_outcome_time env) result b1)\<rparr>))"
      by (simp add: execute_def g c Inr Let_def split: option.split)
    obtain r' p where d: "dispatch api sx env sid req auth (ue_pool ex) = Some (r', p)"
      using assms(1) unfolding eq by (cases "dispatch api sx env sid req auth (ue_pool ex)") auto
    have "r' = r" "ex' = ex\<lparr>ue_pool := p, ue_registry := registry_put (registry_put reg sid b1) sid
        (record_outcome (ce_outcome_time env) r b1)\<rparr>"
      using assms(1) unfolding eq d by auto
    with d c b0 Inr show ?thesis by (simp add: ck_def breaker_of_def registry_lookup)
  qed
qed

lemma execute_follows:
  assumes "execute api sx env sid req auth ex = Some (r, ex')" "cb_inv (breaker_of ex sid)"
  defines "ck \<equiv> spec_check (ce_check_time env) (cb_abs (breaker_of ex sid))"
  shows "((\<exists>ms. r = Inl (CircuitOpen ms)) \<longleftrightarrow> \<not> fst ck) \<and>
    (\<not> fst ck \<longrightarrow> ue_pool ex' = ue_pool ex) \<and>
    cb_inv (breaker_of ex' sid) \<and>
    cb_abs (breaker_of ex' sid) = spec_outcome (ce_outcome_time env) r (snd ck)"
proof -
  let ?c = "cb_check (ce_check_time env) (breaker_of ex sid)"
  have abs: "is_ok (fst ?c) = fst ck" "cb_abs (snd ?c) = snd ck" "cb_inv (snd ?c)"
    using cb.check_abs [OF assms(2)] cb.check_inv [OF assms(2)] by (simp_all add: ck_def)
  show ?thesis
  proof (cases "fst ck")
    case True
    then obtain p where p: "dispatch api sx env sid req auth (ue_pool ex) = Some (r, p)"
      "breaker_of ex' sid = record_outcome (ce_outcome_time env) r (snd ?c)"
      using execute_cases [OF assms(1)] abs by auto
    from True p abs dispatch_not_open [OF p(1)] show ?thesis by (simp add: record_outcome_abs)
  next
    case False
    with execute_cases [OF assms(1)] abs show ?thesis by auto
  qed
qed


definition fresh_executor :: "nat upstream_executor" where
  "fresh_executor = \<lparr>ue_pool = pool_new nat_semaphore, ue_registry = registry_new\<rparr>"

definition status_env :: "u16 \<Rightarrow> int \<Rightarrow> call_env" where
  "status_env st t =
     \<lparr>ce_check_time = t, ce_outcome_time = t, ce_net = (\<lambda>_. Http_Response st [] None 5), ce_io = sample_io\<rparr>"

lemma fresh_breaker: "breaker_of fresh_executor sid = cb_new sid"
  by (simp add: breaker_of_def fresh_executor_def registry_new_def)


text \<open>Any number of later calls for one server; \<open>None\<close> if one of them waits for ever.\<close>

fun execute_all ::
  "'s semaphore_api \<Rightarrow> sidecar_ext \<Rightarrow> uuid \<Rightarrow> (call_env \<times> upstream_request \<times> auth_type) list
   \<Rightarrow> 's upstream_executor \<Rightarrow> (execute_error + upstream_response) list option" where
  "execute_all api sx sid [] ex = Some []"
| "execute_all api sx sid ((env, req, auth) # calls) ex =
     (case execute api sx env sid req auth ex of
        None \<Rightarrow> None
      | Some (r, ex') \<Rightarrow> map_option ((#) r) (execute_all api sx sid calls ex'))"

lemma refused_returns:
  assumes "\<not> is_ok (fst (cb_check (ce_check_time env) (breaker_of ex sid)))"
  shows "\<exists>r ex'. execute api sx env sid req auth ex = Some (r, ex')"
proof -
  obtain b0 reg where g: "registry_get (ue_registry ex) sid = (b0, reg)" by force
  moreover obtain c b1 where "cb_check (ce_check_time env) b0 = (c, b1)" by force
  ultimately show ?thesis using assms registry_get_breaker [of ex sid]
    by (cases c) (auto simp: execute_def split: circuit_error.split)
qed

lemma stuck_for_ever:
  assumes "cb_inv (breaker_of ex sid)" "cb_abs (breaker_of ex sid) = SHalfOpen k True"
  shows "\<exists>rs. execute_all api sx sid calls ex = Some rs \<and> length rs = length calls \<and>
    (\<forall>r \<in> set rs. \<exists>ms. r = Inl (CircuitOpen ms))"
  using assms
proof (induction calls arbitrary: ex)
  case (Cons call calls)
  obtain env req auth where call: "call = (env, req, auth)" by (cases call)
  have "\<not> is_ok (fst (cb_check (ce_check_time env) (breaker_of ex sid)))"
    using cb.stuck_probe [OF Cons.prems] by simp
  then obtain r ex' where e: "execute api sx env sid req auth ex = Some (r, ex')"
    using refused_returns by blast
  have "\<exists>ms. r = Inl (CircuitOpen ms)" "cb_inv (breaker_of ex' sid)"
    "cb_abs (breaker_of ex' sid) = SHalfOpen k True"
    using execute_follows [OF e Cons.prems(1)] Cons.prems(2) by auto
  with Cons.IH [of ex'] e show ?case by (fastforce simp: call)
qed simp

text \<open>
  A probe that the upstream answers with a client error blocks its server for good. When the
  probe of an open breaker ends in a status below 500 other than 429 (and not 2xx), neither outcome is
  recorded, the probe slot stays taken, and every later call for the server, at any time and whatever
  the upstream would answer, returns \<open>CircuitOpen\<close>.
\<close>

theorem client_error_probe_blocks:
  assumes "execute api sx env sid req auth ex = Some (Inl (UpstreamError status), ex')"
    and "cb_inv (breaker_of ex sid)" "cb_observe (breaker_of ex sid) = Open"
    and "status < 500" "status \<noteq> 429"
  shows "\<exists>rs. execute_all api sx sid calls ex' = Some rs \<and> length rs = length calls \<and>
    (\<forall>r \<in> set rs. \<exists>ms. r = Inl (CircuitOpen ms))"
proof -
  obtain t where abs: "cb_abs (breaker_of ex sid) = SOpen t"
    using assms(2,3) observe_abs by (auto split: spec_breaker.splits)
  have "cb_inv (breaker_of ex' sid)" "cb_abs (breaker_of ex' sid) = SHalfOpen 0 True"
    using execute_follows [OF assms(1,2)] abs assms(4,5) by (auto split: if_splits simp: not_le)
  then show ?thesis by (rule stuck_for_ever)
qed

fun run_calls :: "uuid \<Rightarrow> call_env list \<Rightarrow> nat upstream_executor \<Rightarrow> nat upstream_executor" where
  "run_calls sid [] ex = ex"
| "run_calls sid (env # envs) ex =
     (case execute nat_semaphore sample_sx env sid sample_request AuthNone ex of
        Some (_, ex') \<Rightarrow> run_calls sid envs ex' | None \<Rightarrow> ex)"

lemma run_calls_inv: "cb_inv (breaker_of ex sid) \<Longrightarrow> cb_inv (breaker_of (run_calls sid envs ex) sid)"
proof (induction sid envs ex rule: run_calls.induct)
  case (2 sid env envs ex)
  show ?case
  proof (cases "execute nat_semaphore sample_sx env sid sample_request AuthNone ex")
    case None
    with 2(2) show ?thesis by simp
  next
    case (Some x)
    then obtain r ex' where e: "execute nat_semaphore sample_sx env sid sample_request AuthNone ex = Some (r, ex')"
      by (cases x) simp
    from execute_follows [OF e 2(2)] have "cb_inv (breaker_of ex' sid)" by blast
    from 2(1) [OF e refl this] e show ?thesis by simp
  qed
qed simp

theorem client_error_probe_blocks_witness:
  "\<exists>rs ex'. execute_all nat_semaphore sample_sx 7
      [(status_env 200 1000, sample_request, AuthNone), (status_env 200 100000, sample_request, AuthNone)] ex' = Some rs \<and>
     length rs = 2 \<and> (\<forall>r \<in> set rs. \<exists>ms. r = Inl (CircuitOpen ms))"
proof -
  define ex where "ex = run_calls 7 (replicate 5 (status_env 503 100)) fresh_executor"
  have inv: "cb_inv (breaker_of ex 7)" unfolding ex_def by (rule run_calls_inv) (simp add: fresh_breaker)
  have op: "cb_observe (breaker_of ex 7) = Open" unfolding ex_def by code_simp
  have "map_option fst (execute nat_semaphore sample_sx (status_env 404 130) 7 sample_request AuthNone ex) =
      Some (Inl (UpstreamError 404))" unfolding ex_def by code_simp
  then obtain ex' where e: "execute nat_semaphore sample_sx (status_env 404 130) 7 sample_request AuthNone ex =
      Some (Inl (UpstreamError 404), ex')" by auto
  from client_error_probe_blocks [OF e inv op,
      of "[(status_env 200 1000, sample_request, AuthNone), (status_env 200 100000, sample_request, AuthNone)]"]
  show ?thesis by auto
qed

section \<open>What the logs show of a URL\<close>

lemma find_char_None: "find_char P s = None \<Longrightarrow> \<forall>c \<in> set s. \<not> P c"
  by (induction s) (auto split: if_splits)

lemma find_char_Some: "find_char P s = Some i \<Longrightarrow> i < length s \<and> P (s ! i) \<and> (\<forall>c \<in> set (take i s). \<not> P c)"
  by (induction s arbitrary: i) (auto split: if_splits)

lemma find_char_append:
  "\<forall>c \<in> set s. \<not> P c \<Longrightarrow> find_char P (s @ t) = map_option (\<lambda>i. length s + i) (find_char P t)"
  by (induction s; cases "find_char P t") auto

lemma find_str_first: "\<forall>c \<in> set s. c \<noteq> hd p \<Longrightarrow> p \<noteq> [] \<Longrightarrow> find_str p (s @ p @ t) = Some (length s)"
proof (induction s)
  case Nil
  then show ?case by (cases p) (auto simp: starts_with_def)
next
  case (Cons c s)
  then show ?case by (cases p) (auto simp: starts_with_def)
qed

lemma url_path_only_eq:
  assumes "CHR '':'' \<notin> set scheme" "CHR ''/'' \<notin> set host"
    and "\<forall>c \<in> set path. c \<noteq> CHR ''?'' \<and> c \<noteq> CHR ''#''"
    and "rest = [] \<or> hd rest = CHR ''?'' \<or> hd rest = CHR ''#''"
  shows "url_path_only (scheme @ ''://'' @ host @ ''/'' @ path @ rest) = ''/'' @ path"
proof -
  define url where "url = scheme @ ''://'' @ host @ ''/'' @ path @ rest"
  have 1: "find_str ''://'' url = Some (length scheme)"
    unfolding url_def using assms(1) by (intro find_str_first) auto
  have 2: "drop (length scheme + 3) url = host @ ''/'' @ path @ rest" by (simp add: url_def)
  have 3: "find_char (\<lambda>c. c = CHR ''/'') (host @ ''/'' @ path @ rest) = Some (length host)"
    using assms(2) by (subst find_char_append) auto
  have 4: "drop (length scheme + 3 + length host) url = (''/'' @ path) @ rest"
  proof -
    have "drop (length scheme + 3 + length host) url = drop (length host) (drop (length scheme + 3) url)"
      by (simp add: add.commute)
    then show ?thesis by (simp add: 2)
  qed
  have 5: "find_char (\<lambda>c. c = CHR ''?'' \<or> c = CHR ''#'') ((''/'' @ path) @ rest) =
      (if rest = [] then None else Some (length (''/'' @ path)))"
  proof -
    have "\<forall>c \<in> set (''/'' @ path). \<not> (c = CHR ''?'' \<or> c = CHR ''#'')" using assms(3) by simp
    from find_char_append [OF this, of rest] assms(4) show ?thesis by (cases rest) auto
  qed
  have "length url = length scheme + 3 + length host + length ((''/'' @ path) @ rest)" by (simp add: url_def)
  then show ?thesis
    unfolding url_def [symmetric] url_path_only_def Let_def 1 option.case 2 3 4 5 by simp
qed

lemma url_path_only_clean: "c \<in> set (url_path_only url) \<Longrightarrow> c \<noteq> CHR ''?'' \<and> c \<noteq> CHR ''#''"
proof -
  define P where "P = (\<lambda>c. c = CHR ''?'' \<or> c = CHR ''#'')"
  have "\<not> P c" if "c \<in> set (take (e - n) (drop n url))"
    "e = (case find_char P (drop n url) of Some i \<Rightarrow> n + i | None \<Rightarrow> length url)" for c n e
  proof (cases "find_char P (drop n url)")
    case None
    then have "\<forall>c \<in> set (drop n url). \<not> P c" by (rule find_char_None)
    with that(1) show ?thesis by (meson in_set_takeD)
  next
    case (Some i)
    with that have "c \<in> set (take i (drop n url))" by simp
    with find_char_Some [OF Some] show ?thesis by blast
  qed
  then show "c \<in> set (url_path_only url) \<Longrightarrow> c \<noteq> CHR ''?'' \<and> c \<noteq> CHR ''#''"
    unfolding url_path_only_def Let_def P_def by blast
qed

text \<open>
  Of a URL made of a scheme, an authority without a slash, a path without \<open>?\<close> and \<open>#\<close>, and a rest
  that is empty or starts with one of these, exactly the path is logged; and of any URL at all nothing
  is logged from the first \<open>?\<close> or \<open>#\<close> behind the path's slash on.
\<close>

theorem url_path_only_spec:
  assumes "CHR '':'' \<notin> set scheme" "CHR ''/'' \<notin> set host"
    and "\<forall>c \<in> set path. c \<noteq> CHR ''?'' \<and> c \<noteq> CHR ''#''"
    and "rest = [] \<or> hd rest = CHR ''?'' \<or> hd rest = CHR ''#''"
  shows "url_path_only (scheme @ ''://'' @ host @ ''/'' @ path @ rest) = ''/'' @ path \<and>
    CHR ''?'' \<notin> set (url_path_only url) \<and> CHR ''#'' \<notin> set (url_path_only url)"
  using url_path_only_eq [OF assms] url_path_only_clean by blast

theorem url_path_only_spec_witness:
  "url_path_only ''https://api.example.com/users/42?token=secret'' = ''/users/42''"
  using url_path_only_spec [of "''https''" "''api.example.com''" "''users/42''" "''?token=secret''"]
  by simp

text \<open>
  When a URL has a query string but no path, the part of the query behind its first slash is
  logged: the search for the path's slash does not stop at the question mark, and the request builder
  does not encode a slash in a query value.
\<close>

theorem url_path_only_leaks_query:
  assumes "CHR ''/'' \<notin> set value" "\<forall>c \<in> set secret. c \<noteq> CHR ''?'' \<and> c \<noteq> CHR ''#''"
  shows "url_path_only (''https://api.example.com?token='' @ value @ ''/'' @ secret) = ''/'' @ secret \<and>
    \<not> QUERY_ENCODE_SET CHR ''/''"
  using url_path_only_eq [of "''https''" "''api.example.com?token='' @ value" secret "[]"] assms
  by (simp add: QUERY_ENCODE_SET_def CONTROLS_def)

theorem url_path_only_leaks_query_witness:
  "url_path_only ''https://api.example.com?token=ab/cdef'' = ''/cdef''"
  using url_path_only_leaks_query [of "''ab''" "''cdef''"] by simp

end
