(* ===== verification/Json_Rpc.thy ===== *)
theory Json_Rpc
  imports Json
begin

text \<open>
  JSON-RPC 2.0 messages (\<open>services/gateway/src/protocol/jsonrpc.rs\<close>) and the wire types of
  \<open>libs/mcp-protocol/src/lib.rs\<close>: parsing and classification of requests, notifications and
  batches, and the serialisation of responses. \<open>serde_json::from_slice\<close> on the raw body is the
  parameter \<open>from_slice\<close>.
\<close>

section \<open>Wire types\<close>

definition PARSE_ERROR :: int where "PARSE_ERROR = - 32700"
definition INVALID_REQUEST :: int where "INVALID_REQUEST = - 32600"
definition METHOD_NOT_FOUND :: int where "METHOD_NOT_FOUND = - 32601"
definition INVALID_PARAMS :: int where "INVALID_PARAMS = - 32602"
definition INTERNAL_ERROR :: int where "INTERNAL_ERROR = - 32603"

lemmas rpc_codes = PARSE_ERROR_def INVALID_REQUEST_def METHOD_NOT_FOUND_def INVALID_PARAMS_def
  INTERNAL_ERROR_def

record json_rpc_request =
  jq_jsonrpc :: string
  jq_method :: string
  jq_params :: "json option"
  jq_id :: "json option"

record json_rpc_error =
  je_code :: int
  je_message :: string
  je_data :: "json option"

record json_rpc_response =
  jr_jsonrpc :: string
  jr_result :: "json option"
  jr_error :: "json_rpc_error option"
  jr_id :: "json option"

text \<open>Serialisation; a field that is \<open>None\<close> is skipped.\<close>

definition opt_field :: "string \<Rightarrow> json option \<Rightarrow> (string \<times> json) list" where
  "opt_field k v = (case v of Some x \<Rightarrow> [(k, x)] | None \<Rightarrow> [])"

definition request_json :: "json_rpc_request \<Rightarrow> json" where
  "request_json r =
     json_obj ([(''jsonrpc'', String (jq_jsonrpc r)), (''method'', String (jq_method r))] @
       opt_field ''params'' (jq_params r) @ opt_field ''id'' (jq_id r))"

definition error_json :: "json_rpc_error \<Rightarrow> json" where
  "error_json e =
     json_obj ([(''code'', json_int (je_code e)), (''message'', String (je_message e))] @
       opt_field ''data'' (je_data e))"

definition response_json :: "json_rpc_response \<Rightarrow> json" where
  "response_json r =
     json_obj ([(''jsonrpc'', String (jr_jsonrpc r))] @ opt_field ''result'' (jr_result r) @
       opt_field ''error'' (map_option error_json (jr_error r)) @ opt_field ''id'' (jr_id r))"

section \<open>The parser\<close>

definition MAX_BODY_SIZE :: nat where "MAX_BODY_SIZE = 512 * 1024"

definition RECOGNIZED_METHODS :: "string list" where
  "RECOGNIZED_METHODS = [''initialize'', ''initialized'', ''tools/list'', ''tools/call'', ''ping'']"

record parsed_request =
  pr_jsonrpc :: string
  pr_id :: "json option"
  pr_method :: string
  pr_params :: "json option"

datatype parse_result =
    Request parsed_request
  | Notification parsed_request
  | Error json_rpc_response

datatype message = Single parse_result | Batch "parse_result list"

definition is_notification :: "parsed_request \<Rightarrow> bool" where
  "is_notification r = (pr_id r = None \<or> pr_id r = Some Null)"

definition make_error :: "json option \<Rightarrow> int \<Rightarrow> string \<Rightarrow> json option \<Rightarrow> json_rpc_response" where
  "make_error rid code message data =
     \<lparr>jr_jsonrpc = ''2.0'', jr_result = None,
      jr_error = Some \<lparr>je_code = code, je_message = message, je_data = data\<rparr>, jr_id = rid\<rparr>"

definition parse_single :: "json \<Rightarrow> parse_result" where
  "parse_single value =
     (case value of
        Object obj \<Rightarrow>
          let rid = obj_get ''id'' obj in
          if obj_get ''jsonrpc'' obj \<noteq> Some (String ''2.0'') then
            Error (make_error rid INVALID_REQUEST ''Invalid Request: missing or invalid jsonrpc field'' None)
          else
            (case obj_get ''method'' obj of
               Some (String method) \<Rightarrow>
                 if method \<notin> set RECOGNIZED_METHODS then
                   Error (make_error rid METHOD_NOT_FOUND (''Method not found: '' @ method) None)
                 else
                   let req = \<lparr>pr_jsonrpc = ''2.0'', pr_id = rid, pr_method = method,
                              pr_params = obj_get ''params'' obj\<rparr>
                   in if rid = None \<or> rid = Some Null then Notification req else Request req
             | _ \<Rightarrow>
                 Error (make_error rid INVALID_REQUEST ''Invalid Request: missing or invalid method field'' None))
      | _ \<Rightarrow> Error (make_error None INVALID_REQUEST ''Invalid Request'' None))"

definition parse_message :: "(string \<Rightarrow> json option) \<Rightarrow> string \<Rightarrow> message" where
  "parse_message from_slice body =
     (if length body > MAX_BODY_SIZE then
        Single (Error (make_error None INVALID_REQUEST ''Payload too large''
          (Some (json_obj [(''reason'', String ''payload_too_large'')]))))
      else
        case from_slice body of
          None \<Rightarrow> Single (Error (make_error None PARSE_ERROR ''Parse error'' None))
        | Some (Array items) \<Rightarrow>
            if items = [] then
              Single (Error (make_error None INVALID_REQUEST ''Invalid Request: empty batch'' None))
            else Batch (map parse_single items)
        | Some other \<Rightarrow> Single (parse_single other))"

section \<open>Properties\<close>

lemma get_opt_field:
  "map_of (opt_field k v @ kvs) j = (if j = k \<and> v \<noteq> None then v else map_of kvs j)"
  "map_of (opt_field k v) j = (if j = k then v else None)"
  by (auto simp: opt_field_def split: option.split)

lemma obj_get_of_distinct: "distinct (map fst kvs) \<Longrightarrow> obj_get k (obj_of kvs) = map_of kvs k"
  unfolding obj_get_of by (rule arg_cong [where f = "\<lambda>m. m k"]) (rule map_of_inject_set [THEN iffD2]; simp flip: rev_map)

lemma request_json_get:
  "\<exists>obj. request_json r = Object obj \<and> obj_get ''jsonrpc'' obj = Some (String (jq_jsonrpc r)) \<and>
     obj_get ''method'' obj = Some (String (jq_method r)) \<and>
     obj_get ''params'' obj = jq_params r \<and> obj_get ''id'' obj = jq_id r"
proof -
  let ?kvs = "[(''jsonrpc'', String (jq_jsonrpc r)), (''method'', String (jq_method r))] @
       opt_field ''params'' (jq_params r) @ opt_field ''id'' (jq_id r)"
  have "distinct (map fst ?kvs)" by (auto simp: opt_field_def split: option.split)
  from obj_get_of_distinct [OF this] show ?thesis
    by (simp add: request_json_def json_obj_def get_opt_field map_add_def split: option.split)
qed

text \<open>
  A request that the gateway's wire type serialises, with version 2.0, a recognised method and a
  non-null id, parses to itself; without an id or with a null one it parses to the notification with
  the same method and parameters, provided the text fits the size limit and the JSON library reads
  back what it printed.
\<close>

theorem parse_roundtrip:
  assumes "from_slice body = Some (request_json r)" "length body \<le> MAX_BODY_SIZE"
    and "jq_jsonrpc r = ''2.0''" "jq_method r \<in> set RECOGNIZED_METHODS"
  shows "parse_message from_slice body = Single
    ((if jq_id r = None \<or> jq_id r = Some Null then Notification else Request)
       \<lparr>pr_jsonrpc = ''2.0'', pr_id = jq_id r, pr_method = jq_method r, pr_params = jq_params r\<rparr>)"
  using request_json_get [of r] assms
  by (auto simp: parse_message_def parse_single_def Let_def)

theorem parse_roundtrip_witness:
  "parse_message (\<lambda>_. Some (request_json \<lparr>jq_jsonrpc = ''2.0'', jq_method = ''ping'', jq_params = None,
       jq_id = Some (String ''1'')\<rparr>)) ''x'' =
   Single (Request \<lparr>pr_jsonrpc = ''2.0'', pr_id = Some (String ''1''), pr_method = ''ping'', pr_params = None\<rparr>)"
  by (subst parse_roundtrip [of _ _ "\<lparr>jq_jsonrpc = ''2.0'', jq_method = ''ping'', jq_params = None,
       jq_id = Some (String ''1'')\<rparr>"]) (simp_all add: MAX_BODY_SIZE_def RECOGNIZED_METHODS_def)

text \<open>The parse errors: the code for each way a value can fail to be a request, and the id echoed.\<close>

definition parse_error_code :: "json \<Rightarrow> int option" where
  "parse_error_code v =
     (if value_get ''jsonrpc'' v \<noteq> Some (String ''2.0'') then Some INVALID_REQUEST
      else case value_get ''method'' v of
             Some (String m) \<Rightarrow> if m \<in> set RECOGNIZED_METHODS then None else Some METHOD_NOT_FOUND
           | _ \<Rightarrow> Some INVALID_REQUEST)"

lemma parse_single_classifies:
  "case parse_single v of
      Error e \<Rightarrow> parse_error_code v = map_option je_code (jr_error e) \<and> jr_id e = value_get ''id'' v \<and>
                 jr_result e = None
    | Notification r \<Rightarrow> parse_error_code v = None \<and> is_notification r \<and> pr_method r \<in> set RECOGNIZED_METHODS
    | Request r \<Rightarrow> parse_error_code v = None \<and> \<not> is_notification r \<and> pr_id r = value_get ''id'' v \<and>
                   pr_method r \<in> set RECOGNIZED_METHODS"
  by (cases v) (auto simp: parse_single_def parse_error_code_def make_error_def is_notification_def Let_def
      split: option.splits json.splits)

lemma parse_single_not_parse_error:
  "parse_single v = Error e \<Longrightarrow> map_option je_code (jr_error e) \<noteq> Some PARSE_ERROR"
  using parse_single_classifies [of v]
  by (auto simp: parse_error_code_def rpc_codes split: if_splits option.splits json.splits)

definition result_code :: "parse_result \<Rightarrow> int option" where
  "result_code r = (case r of Error e \<Rightarrow> map_option je_code (jr_error e) | _ \<Rightarrow> None)"


end
