(* ===== verification/Logging.thy ===== *)
theory Logging
  imports Prelude "HOL-Library.Sublist"
begin

text \<open>
  The request logger (\<open>services/gateway/src/logging.rs\<close>): levels, records, the bounded channel
  between the request handlers and the writer task, and the removal of sensitive query parameters from
  logged URLs. tokio's \<open>mpsc\<close> channel and the \<open>url\<close> crate are the parameters
  \<open>mpsc_api\<close> and \<open>url_api\<close>; what the logger relies on is \<open>mpsc_ok\<close> and
  \<open>url_ok\<close>. The clock, the trace id and serde's printer are arguments too.
\<close>

section \<open>Levels\<close>

definition CHANNEL_CAPACITY :: nat where "CHANNEL_CAPACITY = 4096"

definition SENSITIVE_PARAMS :: "string list" where
  "SENSITIVE_PARAMS = [''api_key'', ''token'', ''secret'', ''password'', ''key'']"

datatype log_level = Trace | Debug | Info | Warn | Error_Level

text \<open>The discriminants of the enum, by which the derived \<open>Ord\<close> compares.\<close>

primrec level_rank :: "log_level \<Rightarrow> nat" where
  "level_rank Trace = 0"
| "level_rank Debug = 1"
| "level_rank Info = 2"
| "level_rank Warn = 3"
| "level_rank Error_Level = 4"

lemma level_rank_inject: "level_rank a = level_rank b \<longleftrightarrow> a = b"
  by (cases a; cases b) simp_all

instantiation log_level :: linorder
begin

definition less_eq_log_level :: "log_level \<Rightarrow> log_level \<Rightarrow> bool" where
  "less_eq_log_level a b = (level_rank a \<le> level_rank b)"

definition less_log_level :: "log_level \<Rightarrow> log_level \<Rightarrow> bool" where
  "less_log_level a b = (level_rank a < level_rank b)"

instance
  by standard (auto simp: less_eq_log_level_def less_log_level_def level_rank_inject)

end

text \<open>
  \<open>str::to_lowercase\<close> as far as a comparison with an ASCII literal can see it: the ASCII letters
  and the Kelvin sign (U+212A) are the only characters whose lower case consists of ASCII characters,
  and every other character keeps a byte outside ASCII.
\<close>

fun to_lowercase :: "string \<Rightarrow> string" where
  "to_lowercase [] = []"
| "to_lowercase (c # s) =
     (if take 3 (c # s) = map char_of [226, 132, 170 :: nat] then CHR ''k'' # to_lowercase (drop 2 s)
      else ascii_lower_char c # to_lowercase s)"

definition from_str_or_default :: "string \<Rightarrow> log_level" where
  "from_str_or_default s =
     (let l = to_lowercase s in
      if l = ''trace'' then Trace
      else if l = ''debug'' then Debug
      else if l = ''info'' then Info
      else if l = ''warn'' \<or> l = ''warning'' then Warn
      else if l = ''error'' then Error_Level
      else Info)"

section \<open>Records\<close>

record log_record =
  lr_timestamp :: string
  lr_server_id :: uuid
  lr_server_slug :: string
  lr_method :: string
  lr_tool_name :: "string option"
  lr_upstream_url :: "string option"
  lr_upstream_status :: "u16 option"
  lr_latency_ms :: u64
  lr_upstream_latency_ms :: "u64 option"
  lr_response_size_bytes :: "nat option"
  lr_transform_warnings :: "string list"
  lr_token_prefix :: "string option"
  lr_instance_id :: string
  lr_trace_id :: "string option"

text \<open>The reply channel of a flush is named by the number of the flush call.\<close>

datatype log_msg = Record log_record | Flush nat

text \<open>The logger's own fields; its sender is the channel that the state holds.\<close>

record request_logger =
  rl_instance_id :: string
  rl_level :: log_level

text \<open>\<open>now\<close> is the formatted clock and \<open>trace\<close> what \<open>current_trace_id\<close> returns.\<close>

definition new_record ::
  "string \<Rightarrow> string option \<Rightarrow> request_logger \<Rightarrow> uuid \<Rightarrow> string \<Rightarrow> string \<Rightarrow> u64 \<Rightarrow> log_record" where
  "new_record now trace lg server_id server_slug method latency_ms =
     \<lparr>lr_timestamp = now, lr_server_id = server_id, lr_server_slug = server_slug, lr_method = method,
      lr_tool_name = None, lr_upstream_url = None, lr_upstream_status = None, lr_latency_ms = latency_ms,
      lr_upstream_latency_ms = None, lr_response_size_bytes = None, lr_transform_warnings = [],
      lr_token_prefix = None, lr_instance_id = rl_instance_id lg, lr_trace_id = trace\<rparr>"

definition is_debug_enabled :: "request_logger \<Rightarrow> bool" where
  "is_debug_enabled lg = (rl_level lg \<le> Debug)"

text \<open>A span context is valid or not; a valid one has a trace id.\<close>

record span_context =
  sp_is_valid :: bool
  sp_trace_id :: string

definition current_trace_id :: "span_context \<Rightarrow> string option" where
  "current_trace_id ctx = (if sp_is_valid ctx then Some (sp_trace_id ctx) else None)"

section \<open>The channel\<close>

datatype try_send_error = Full | Closed

text \<open>\<open>mp_send\<close> is \<open>None\<close> while the asynchronous send still waits for a free slot.\<close>

record ('m, 'c) mpsc_api =
  mp_channel :: "nat \<Rightarrow> 'c"
  mp_try_send :: "'m \<Rightarrow> 'c \<Rightarrow> try_send_error + 'c"
  mp_send :: "'m \<Rightarrow> 'c \<Rightarrow> (unit + 'c) option"
  mp_recv :: "'c \<Rightarrow> ('m \<times> 'c) option"

text \<open>
  What tokio documents of a bounded channel: messages come out in the order in which they went in, none
  is lost or repeated, and a send that is refused leaves the channel as it was. \<open>queue c\<close> are the
  messages inside, \<open>reserved c\<close> the slots promised to waiting senders.
\<close>

definition mpsc_ok :: "('m, 'c) mpsc_api \<Rightarrow> ('c \<Rightarrow> 'm list) \<Rightarrow> ('c \<Rightarrow> nat) \<Rightarrow> nat \<Rightarrow> bool" where
  "mpsc_ok api queue reserved cap \<longleftrightarrow>
     queue (mp_channel api cap) = [] \<and>
     (\<forall>m c c'. mp_try_send api m c = Inr c' \<longrightarrow> queue c' = queue c @ [m]) \<and>
     (\<forall>m c. mp_try_send api m c = Inl Full \<longrightarrow> cap \<le> length (queue c) + reserved c) \<and>
     (\<forall>m c c'. mp_send api m c = Some (Inr c') \<longrightarrow> queue c' = queue c @ [m]) \<and>
     (\<forall>c. queue c = [] \<longrightarrow> mp_recv api c = None) \<and>
     (\<forall>c m ms. queue c = m # ms \<longrightarrow> (\<exists>c'. mp_recv api c = Some (m, c') \<and> queue c' = ms))"

text \<open>
  The state the logger's operations change: the channel, the lines on stdout, the drop counter, the
  records refused by a closed channel and the flush calls that have been acknowledged.
\<close>

record 'c log_state =
  ls_chan :: 'c
  ls_stdout :: "string list"
  ls_drops :: nat
  ls_closed :: nat
  ls_acks :: "nat list"

definition logger_new :: "(log_msg, 'c) mpsc_api \<Rightarrow> string \<Rightarrow> log_level \<Rightarrow> request_logger \<times> 'c log_state" where
  "logger_new api instance_id level =
     (\<lparr>rl_instance_id = instance_id, rl_level = level\<rparr>,
      \<lparr>ls_chan = mp_channel api CHANNEL_CAPACITY, ls_stdout = [], ls_drops = 0, ls_closed = 0, ls_acks = []\<rparr>)"

definition log :: "(log_msg, 'c) mpsc_api \<Rightarrow> log_record \<Rightarrow> 'c log_state \<Rightarrow> 'c log_state" where
  "log api record st =
     (case mp_try_send api (Record record) (ls_chan st) of
        Inr c \<Rightarrow> st\<lparr>ls_chan := c\<rparr>
      | Inl Full \<Rightarrow> st\<lparr>ls_drops := ls_drops st + 1\<rparr>
      | Inl Closed \<Rightarrow> st\<lparr>ls_closed := ls_closed st + 1\<rparr>)"

text \<open>
  \<open>flush\<close> up to the point where the sentinel is in the channel: \<open>None\<close> while it waits;
  otherwise whether the caller has to wait for the acknowledgement.
\<close>

definition flush :: "(log_msg, 'c) mpsc_api \<Rightarrow> nat \<Rightarrow> 'c log_state \<Rightarrow> (bool \<times> 'c log_state) option" where
  "flush api i st =
     (case mp_send api (Flush i) (ls_chan st) of
        None \<Rightarrow> None
      | Some (Inr c) \<Rightarrow> Some (True, st\<lparr>ls_chan := c\<rparr>)
      | Some (Inl _) \<Rightarrow> Some (False, st))"

text \<open>One turn of the writer's loop. \<open>to_string\<close> is \<open>serde_json::to_string\<close> on a record.\<close>

definition write_msg :: "(log_record \<Rightarrow> string option) \<Rightarrow> log_msg \<Rightarrow> 'c log_state \<Rightarrow> 'c log_state" where
  "write_msg to_string msg st =
     (case msg of
        Record r \<Rightarrow>
          (case to_string r of Some line \<Rightarrow> st\<lparr>ls_stdout := ls_stdout st @ [line]\<rparr> | None \<Rightarrow> st)
      | Flush i \<Rightarrow> st\<lparr>ls_acks := ls_acks st @ [i]\<rparr>)"

definition run_writer_turn ::
  "(log_msg, 'c) mpsc_api \<Rightarrow> (log_record \<Rightarrow> string option) \<Rightarrow> 'c log_state \<Rightarrow> 'c log_state option" where
  "run_writer_turn api to_string st =
     (case mp_recv api (ls_chan st) of
        None \<Rightarrow> None
      | Some (msg, c) \<Rightarrow> Some (write_msg to_string msg (st\<lparr>ls_chan := c\<rparr>)))"

text \<open>The loop for as long as the channel has messages: at most \<open>n\<close> turns.\<close>

fun run_writer ::
  "nat \<Rightarrow> (log_msg, 'c) mpsc_api \<Rightarrow> (log_record \<Rightarrow> string option) \<Rightarrow> 'c log_state \<Rightarrow> 'c log_state" where
  "run_writer 0 api to_string st = st"
| "run_writer (Suc n) api to_string st =
     (case run_writer_turn api to_string st of
        None \<Rightarrow> st
      | Some st' \<Rightarrow> run_writer n api to_string st')"

section \<open>Logged URLs\<close>

record 'u url_api =
  ul_parse :: "string \<Rightarrow> 'u option"
  ul_to_string :: "'u \<Rightarrow> string"
  ul_query_pairs :: "'u \<Rightarrow> (string \<times> string) list"
  ul_set_query :: "string option \<Rightarrow> 'u \<Rightarrow> 'u"

definition is_sensitive_param :: "string \<Rightarrow> bool" where
  "is_sensitive_param name = (let lower = to_lowercase name in list_ex (\<lambda>s. lower = s) SENSITIVE_PARAMS)"

definition sanitise_url :: "'u url_api \<Rightarrow> 'u \<Rightarrow> string" where
  "sanitise_url api url =
     (let has_sensitive = list_ex (\<lambda>(k, _). is_sensitive_param k) (ul_query_pairs api url) in
      if \<not> has_sensitive then ul_to_string api url
      else
        let kept = map (\<lambda>(k, v). k @ ''='' @ v)
              (filter (\<lambda>(k, _). \<not> is_sensitive_param k) (ul_query_pairs api url));
            sanitised =
              (if kept = [] then ul_set_query api None url
               else ul_set_query api (Some (join ''&'' kept)) url)
        in ul_to_string api sanitised)"

text \<open>
  What the \<open>url\<close> crate documents: printing and parsing a URL is the identity, a URL without a
  query has no pairs, and the pairs of a query with no escapes and no characters that the URL syntax
  drops are its non-empty parts between ampersands, split at the first equals sign.
\<close>

definition pair_of_part :: "string \<Rightarrow> string \<times> string" where
  "pair_of_part p = (takeWhile (\<lambda>c. c \<noteq> CHR ''='') p, drop 1 (dropWhile (\<lambda>c. c \<noteq> CHR ''='') p))"

definition form_pairs :: "string \<Rightarrow> (string \<times> string) list" where
  "form_pairs q = map pair_of_part (filter (\<lambda>p. p \<noteq> []) (split_on CHR ''&'' q))"

definition plain_query :: "string \<Rightarrow> bool" where
  "plain_query q = (set q \<inter> set (''%+'' @ map char_of [9, 10, 13 :: nat]) = {})"

definition url_ok :: "'u url_api \<Rightarrow> ('u \<Rightarrow> bool) \<Rightarrow> bool" where
  "url_ok api valid \<longleftrightarrow>
     (\<forall>s u. ul_parse api s = Some u \<longrightarrow> valid u) \<and>
     (\<forall>u q. valid u \<longrightarrow> valid (ul_set_query api q u)) \<and>
     (\<forall>u. valid u \<longrightarrow> ul_parse api (ul_to_string api u) = Some u) \<and>
     (\<forall>u. ul_query_pairs api (ul_set_query api None u) = []) \<and>
     (\<forall>u q. plain_query q \<longrightarrow> ul_query_pairs api (ul_set_query api (Some q) u) = form_pairs q)"

section \<open>The writer\<close>

definition records_of :: "log_msg list \<Rightarrow> log_record list" where
  "records_of = List.map_filter (\<lambda>m. case m of Record r \<Rightarrow> Some r | Flush _ \<Rightarrow> None)"

definition flushes_of :: "log_msg list \<Rightarrow> nat list" where
  "flushes_of = List.map_filter (\<lambda>m. case m of Record _ \<Rightarrow> None | Flush i \<Rightarrow> Some i)"

lemma map_filter_append: "List.map_filter f (xs @ ys) = List.map_filter f xs @ List.map_filter f ys"
  by (simp add: List.map_filter_def)

lemma map_filter_single: "List.map_filter f [x] = (case f x of Some y \<Rightarrow> [y] | None \<Rightarrow> [])"
  by (simp add: List.map_filter_def split: option.split)

lemma msgs_of_simps [simp]:
  "records_of [] = []" "flushes_of [] = []"
  "records_of (ms @ ns) = records_of ms @ records_of ns"
  "flushes_of (ms @ ns) = flushes_of ms @ flushes_of ns"
  "records_of (Record r # ms) = r # records_of ms" "records_of (Flush i # ms) = records_of ms"
  "flushes_of (Record r # ms) = flushes_of ms" "flushes_of (Flush i # ms) = i # flushes_of ms"
  by (simp_all add: records_of_def flushes_of_def List.map_filter_def)

lemma flushes_of_mem: "i \<in> set (flushes_of ms) \<longleftrightarrow> Flush i \<in> set ms"
proof (induction ms)
  case (Cons m ms)
  then show ?case by (cases m) auto
qed simp

lemma mpsc_recv:
  "mpsc_ok api queue reserved cap \<Longrightarrow>
     (case mp_recv api c of None \<Rightarrow> queue c = [] | Some (m, c') \<Rightarrow> queue c = m # queue c')"
  unfolding mpsc_ok_def by (cases "queue c") fastforce+

lemma run_writer_turn_effect:
  assumes "mpsc_ok api queue reserved cap" "run_writer_turn api to_string st = Some st'"
  shows "\<exists>m. queue (ls_chan st) = m # queue (ls_chan st') \<and>
     ls_stdout st' = ls_stdout st @ List.map_filter to_string (records_of [m]) \<and>
     ls_acks st' = ls_acks st @ flushes_of [m] \<and> ls_drops st' = ls_drops st \<and> ls_closed st' = ls_closed st"
  using mpsc_recv [OF assms(1), of "ls_chan st"] assms(2)
  by (auto simp: run_writer_turn_def write_msg_def List.map_filter_def split: option.splits prod.splits log_msg.splits)

text \<open>
  The writer drains the channel: once it has had as many turns as there are messages, every record
  is on stdout, in the order in which the records were accepted, and every flush is acknowledged.
\<close>

theorem run_writer_drains:
  assumes "mpsc_ok api queue reserved cap" "length (queue (ls_chan st)) \<le> n"
  shows "queue (ls_chan (run_writer n api to_string st)) = [] \<and>
    ls_stdout (run_writer n api to_string st) =
      ls_stdout st @ List.map_filter to_string (records_of (queue (ls_chan st))) \<and>
    ls_acks (run_writer n api to_string st) = ls_acks st @ flushes_of (queue (ls_chan st))"
  using assms(2)
proof (induction n arbitrary: st)
  case 0
  then show ?case by (simp add: List.map_filter_def)
next
  case (Suc n)
  show ?case
  proof (cases "run_writer_turn api to_string st")
    case None
    then have "queue (ls_chan st) = []"
      using mpsc_recv [OF assms(1), of "ls_chan st"] by (auto simp: run_writer_turn_def split: option.splits)
    with None show ?thesis by (simp add: List.map_filter_def)
  next
    case (Some st')
    then obtain m where m: "queue (ls_chan st) = [m] @ queue (ls_chan st')"
      "ls_stdout st' = ls_stdout st @ List.map_filter to_string (records_of [m])"
      "ls_acks st' = ls_acks st @ flushes_of [m]"
      using run_writer_turn_effect [OF assms(1) Some] by auto
    with Suc.prems have "length (queue (ls_chan st')) \<le> n" by simp
    from Suc.IH [OF this] Some m show ?thesis by (simp only: run_writer.simps option.case msgs_of_simps map_filter_append append_assoc)
  qed
qed

section \<open>The logger as a concurrent system\<close>

text \<open>
  Handlers log and flush while the writer runs. Ghost components record every message accepted by the
  channel, the number of \<open>log\<close> calls, and for each flush call the records accepted before it.
\<close>

record 'c log_sys =
  sy_state :: "'c log_state"
  sy_accepted :: "log_msg list"
  sy_logged :: nat
  sy_called :: "(nat \<times> log_record list) list"

inductive logger_step ::
  "(log_msg, 'c) mpsc_api \<Rightarrow> (log_record \<Rightarrow> string option) \<Rightarrow> 'c log_sys \<Rightarrow> 'c log_sys \<Rightarrow> bool"
  for api to_string where
  Call_Log: "logger_step api to_string s
    (s\<lparr>sy_state := log api r (sy_state s), sy_logged := sy_logged s + 1,
       sy_accepted := sy_accepted s @ (if is_ok (mp_try_send api (Record r) (ls_chan (sy_state s))) then [Record r] else [])\<rparr>)"
| Call_Flush: "i \<notin> fst ` set (sy_called s) \<Longrightarrow> logger_step api to_string s
    (s\<lparr>sy_called := (i, records_of (sy_accepted s)) # sy_called s\<rparr>)"
| Send_Flush: "i \<in> fst ` set (sy_called s) \<Longrightarrow> flush api i (sy_state s) = Some (sent, st) \<Longrightarrow>
    logger_step api to_string s
      (s\<lparr>sy_state := st, sy_accepted := sy_accepted s @ (if sent then [Flush i] else [])\<rparr>)"
| Writer: "run_writer_turn api to_string (sy_state s) = Some st \<Longrightarrow>
    logger_step api to_string s (s\<lparr>sy_state := st\<rparr>)"

inductive_cases logger_stepE: "logger_step api to_string s t"

definition log_sys_init :: "(log_msg, 'c) mpsc_api \<Rightarrow> 'c log_sys \<Rightarrow> bool" where
  "log_sys_init api s \<longleftrightarrow>
     (\<exists>instance_id level. sy_state s = snd (logger_new api instance_id level)) \<and>
     sy_accepted s = [] \<and> sy_logged s = 0 \<and> sy_called s = []"

text \<open>The accounting part of the invariant: what is written, what is queued, what was refused.\<close>

definition log_account :: "('c \<Rightarrow> log_msg list) \<Rightarrow> (log_record \<Rightarrow> string option) \<Rightarrow> 'c log_sys \<Rightarrow> bool" where
  "log_account queue to_string s \<longleftrightarrow>
     (\<exists>done. sy_accepted s = done @ queue (ls_chan (sy_state s)) \<and>
        ls_stdout (sy_state s) = List.map_filter to_string (records_of done) \<and>
        ls_acks (sy_state s) = flushes_of done) \<and>
     sy_logged s = length (records_of (sy_accepted s)) + ls_drops (sy_state s) + ls_closed (sy_state s)"

text \<open>The ordering part: a flush sentinel stands behind everything accepted before its call.\<close>

definition flush_order :: "(nat \<times> log_record list) list \<Rightarrow> log_msg list \<Rightarrow> bool" where
  "flush_order called acc \<longleftrightarrow>
     (\<forall>i. Flush i \<in> set acc \<longrightarrow> i \<in> fst ` set called) \<and>
     (\<forall>i rs. (i, rs) \<in> set called \<longrightarrow> prefix rs (records_of acc)) \<and>
     (\<forall>i rs a b. (i, rs) \<in> set called \<longrightarrow> acc = a @ Flush i # b \<longrightarrow> prefix rs (records_of a))"

lemma snoc_split:
  "acc @ [y] = a @ x # b \<longleftrightarrow> (b = [] \<and> a = acc \<and> x = y) \<or> (\<exists>b'. b = b' @ [y] \<and> acc = a @ x # b')"
  by (cases b rule: rev_cases) auto

lemma flush_order_snoc:
  assumes "flush_order called acc" "\<And>i. m = Flush i \<Longrightarrow> i \<in> fst ` set called"
  shows "flush_order called (acc @ [m])"
  using assms unfolding flush_order_def snoc_split
  by (auto intro: prefix_prefix)

lemma flush_order_call:
  "flush_order called acc \<Longrightarrow> i \<notin> fst ` set called \<Longrightarrow> flush_order ((i, records_of acc) # called) acc"
  unfolding flush_order_def by auto

lemma flush_order_step:
  "flush_order (sy_called s) (sy_accepted s) \<Longrightarrow> logger_step api to_string s t \<Longrightarrow>
     flush_order (sy_called t) (sy_accepted t)"
  by (erule logger_stepE) (auto intro!: flush_order_snoc flush_order_call)

lemma log_account_step:
  assumes "mpsc_ok api queue reserved cap" "log_account queue to_string s" "logger_step api to_string s t"
  shows "log_account queue to_string t"
  using assms(3)
proof cases
  case (Call_Log r)
  with assms(1,2) show ?thesis
    by (auto simp: log_account_def log_def mpsc_ok_def split: sum.splits try_send_error.splits)
next
  case (Call_Flush i)
  with assms(2) show ?thesis by (simp add: log_account_def)
next
  case (Send_Flush i sent st)
  with assms(1,2) show ?thesis
    by (auto simp: log_account_def flush_def mpsc_ok_def split: sum.splits option.splits)
next
  case (Writer st)
  obtain m where m: "queue (ls_chan (sy_state s)) = [m] @ queue (ls_chan st)"
    "ls_stdout st = ls_stdout (sy_state s) @ List.map_filter to_string (records_of [m])"
    "ls_acks st = ls_acks (sy_state s) @ flushes_of [m]"
    "ls_drops st = ls_drops (sy_state s)" "ls_closed st = ls_closed (sy_state s)"
    using run_writer_turn_effect [OF assms(1) Writer(2)] by auto
  obtain ms where "sy_accepted s = ms @ queue (ls_chan (sy_state s))"
    "ls_stdout (sy_state s) = List.map_filter to_string (records_of ms)"
    "ls_acks (sy_state s) = flushes_of ms"
    using assms(2) by (auto simp: log_account_def)
  with m Writer(1) assms(2) show ?thesis
    unfolding log_account_def by (intro conjI exI [of _ "ms @ [m]"]) (simp_all add: map_filter_append)
qed

definition log_sys_inv :: "('c \<Rightarrow> log_msg list) \<Rightarrow> (log_record \<Rightarrow> string option) \<Rightarrow> 'c log_sys \<Rightarrow> bool" where
  "log_sys_inv queue to_string s \<longleftrightarrow>
     log_account queue to_string s \<and> flush_order (sy_called s) (sy_accepted s)"

lemma log_sys_reach:
  assumes "mpsc_ok api queue reserved CHANNEL_CAPACITY" "reach (log_sys_init api) (logger_step api to_string) s"
  shows "log_sys_inv queue to_string s"
  using assms(2)
proof (rule reach_invariant)
  show "log_sys_inv queue to_string s" if "log_sys_init api s" for s
    using that assms(1)
    by (auto simp: log_sys_inv_def log_sys_init_def log_account_def flush_order_def logger_new_def mpsc_ok_def
        List.map_filter_def)
qed (use assms(1) in \<open>auto simp: log_sys_inv_def intro: log_account_step flush_order_step\<close>)

lemma acked_written:
  assumes "mpsc_ok api queue reserved CHANNEL_CAPACITY" "reach (log_sys_init api) (logger_step api to_string) s"
    and "(i, before) \<in> set (sy_called s)" "i \<in> set (ls_acks (sy_state s))"
  shows "prefix (List.map_filter to_string before) (ls_stdout (sy_state s))"
proof -
  from log_sys_reach [OF assms(1,2)] have acc: "log_account queue to_string s"
    and ord: "flush_order (sy_called s) (sy_accepted s)" by (simp_all add: log_sys_inv_def)
  from acc obtain ms where ms: "sy_accepted s = ms @ queue (ls_chan (sy_state s))"
    "ls_stdout (sy_state s) = List.map_filter to_string (records_of ms)"
    "ls_acks (sy_state s) = flushes_of ms" by (auto simp: log_account_def)
  from ms(3) assms(4) obtain a b where ab: "ms = a @ Flush i # b"
    by (auto simp: flushes_of_mem dest: split_list)
  with ms(1) have "sy_accepted s = a @ Flush i # (b @ queue (ls_chan (sy_state s)))" by simp
  with ord assms(3) have "prefix before (records_of a)" unfolding flush_order_def by blast
  then show ?thesis using ab ms(2) by (auto simp: prefix_def map_filter_append)
qed

text \<open>
  In every interleaving of logging, flushing and writing: when a flush has been acknowledged, every
  record accepted before that flush was called is on stdout; the lines on stdout are those of the
  first accepted records in order; and every record logged is accepted, counted as dropped, or refused
  because the writer is gone.
\<close>

theorem flush_is_a_barrier:
  assumes "mpsc_ok api queue reserved CHANNEL_CAPACITY"
    and "reach (log_sys_init api) (logger_step api to_string) s"
    and "(i, before) \<in> set (sy_called s)" "i \<in> set (ls_acks (sy_state s))"
  shows "prefix (List.map_filter to_string before) (ls_stdout (sy_state s)) \<and>
    prefix (ls_stdout (sy_state s)) (List.map_filter to_string (records_of (sy_accepted s))) \<and>
    sy_logged s = length (records_of (sy_accepted s)) + ls_drops (sy_state s) + ls_closed (sy_state s)"
proof -
  from log_sys_reach [OF assms(1,2)] have acc: "log_account queue to_string s" by (simp add: log_sys_inv_def)
  then have "prefix (ls_stdout (sy_state s)) (List.map_filter to_string (records_of (sy_accepted s)))"
    by (auto simp: log_account_def prefix_def map_filter_append)
  with acked_written [OF assms] acc show ?thesis by (simp add: log_account_def)
qed

text \<open>A channel that is a list with a capacity behaves as documented.\<close>

definition queue_mpsc :: "('m, nat \<times> 'm list) mpsc_api" where
  "queue_mpsc =
     \<lparr>mp_channel = (\<lambda>cap. (cap, [])),
      mp_try_send = (\<lambda>m (cap, q). if length q < cap then Inr (cap, q @ [m]) else Inl Full),
      mp_send = (\<lambda>m (cap, q). if length q < cap then Some (Inr (cap, q @ [m])) else None),
      mp_recv = (\<lambda>(cap, q). case q of [] \<Rightarrow> None | m # ms \<Rightarrow> Some (m, (cap, ms)))\<rparr>"

lemma queue_mpsc_ok: "mpsc_ok queue_mpsc snd (\<lambda>(n, q). cap - n) cap"
  by (auto simp: mpsc_ok_def queue_mpsc_def split: if_splits)

definition sample_logger :: request_logger where
  "sample_logger = \<lparr>rl_instance_id = ''i'', rl_level = Info\<rparr>"

definition sample_record :: log_record where
  "sample_record = new_record ''t'' None sample_logger 7 ''slug'' ''tools/list'' 3"

definition sample_sys :: "(nat \<times> log_msg list) log_sys" where
  "sample_sys = \<lparr>sy_state = snd (logger_new queue_mpsc ''i'' Info), sy_accepted = [], sy_logged = 0, sy_called = []\<rparr>"

lemmas sample_log_simps = sample_sys_def logger_new_def queue_mpsc_def log_def flush_def run_writer_turn_def
  write_msg_def CHANNEL_CAPACITY_def

theorem run_writer_drains_witness:
  "ls_stdout (run_writer 2 queue_mpsc (\<lambda>r. Some (lr_method r))
      ((sy_state sample_sys)\<lparr>ls_chan := (9, [Record sample_record, Flush 4])\<rparr>)) = [''tools/list'']"
  using run_writer_drains [OF queue_mpsc_ok,
      of "(sy_state sample_sys)\<lparr>ls_chan := (9, [Record sample_record, Flush 4])\<rparr>" 2 "\<lambda>r. Some (lr_method r)"]
  by (simp add: sample_sys_def logger_new_def sample_record_def new_record_def List.map_filter_def)

theorem flush_is_a_barrier_witness:
  "\<exists>s. sy_called s = [(0, [sample_record])] \<and> 0 \<in> set (ls_acks (sy_state s)) \<and>
     prefix [''tools/list''] (ls_stdout (sy_state (s :: (nat \<times> log_msg list) log_sys)))"
proof -
  let ?p = "\<lambda>r. Some (lr_method r)"
  let ?R = "reach (log_sys_init queue_mpsc) (logger_step queue_mpsc ?p)"
  have "?R sample_sys" by (rule reach_init) (auto simp: log_sys_init_def sample_sys_def)
  from reach_step [OF this Call_Log [where r = sample_record]] obtain s1 where
    s1: "?R s1" "ls_chan (sy_state s1) = (4096, [Record sample_record])" "sy_called s1 = []"
      "sy_accepted s1 = [Record sample_record]" "ls_stdout (sy_state s1) = []"
    by (force simp: sample_log_simps)
  from reach_step [OF this(1) Call_Flush [of 0]] s1(2-) obtain s2 where
    s2: "?R s2" "ls_chan (sy_state s2) = (4096, [Record sample_record])"
      "sy_called s2 = [(0, [sample_record])]" "ls_stdout (sy_state s2) = []"
    by force
  have "flush queue_mpsc 0 (sy_state s2) =
      Some (True, (sy_state s2)\<lparr>ls_chan := (4096, [Record sample_record, Flush 0])\<rparr>)"
    using s2(2) by (simp add: flush_def queue_mpsc_def)
  from reach_step [OF s2(1) Send_Flush [OF _ this]] s2(2-) obtain s3 where
    s3: "?R s3" "ls_chan (sy_state s3) = (4096, [Record sample_record, Flush 0])"
      "sy_called s3 = [(0, [sample_record])]"
    by force
  have "\<exists>st. run_writer_turn queue_mpsc ?p (sy_state s3) = Some st \<and> ls_chan st = (4096, [Flush 0])"
    using s3(2) by (simp add: run_writer_turn_def write_msg_def queue_mpsc_def)
  with reach_step [OF s3(1) Writer] s3(3) obtain s4 where
    s4: "?R s4" "ls_chan (sy_state s4) = (4096, [Flush 0])" "sy_called s4 = [(0, [sample_record])]"
    by force
  have "\<exists>st. run_writer_turn queue_mpsc ?p (sy_state s4) = Some st \<and> 0 \<in> set (ls_acks st)"
    using s4(2) by (simp add: run_writer_turn_def write_msg_def queue_mpsc_def)
  with reach_step [OF s4(1) Writer] s4(3) obtain s5 where
    s5: "?R s5" "0 \<in> set (ls_acks (sy_state s5))" "sy_called s5 = [(0, [sample_record])]"
    by force
  from flush_is_a_barrier [OF queue_mpsc_ok s5(1), of 0 "[sample_record]"] s5(2,3)
  have "prefix [''tools/list''] (ls_stdout (sy_state s5))"
    by (simp add: List.map_filter_def sample_record_def new_record_def)
  with s5(2,3) show ?thesis by blast
qed

section \<open>Sanitised URLs\<close>

lemma pair_of_part: "CHR ''='' \<notin> set k \<Longrightarrow> pair_of_part (k @ ''='' @ v) = (k, v)"
  by (auto simp: pair_of_part_def takeWhile_append dropWhile_append)

text \<open>A pair that survives printing without escapes.\<close>

definition plain_pair :: "string \<times> string \<Rightarrow> bool" where
  "plain_pair kv \<longleftrightarrow>
     plain_query (fst kv) \<and> plain_query (snd kv) \<and> CHR ''='' \<notin> set (fst kv) \<and>
     CHR ''&'' \<notin> set (fst kv) \<and> CHR ''&'' \<notin> set (snd kv)"

lemma form_pairs_join:
  assumes "kvs \<noteq> []" "\<forall>kv \<in> set kvs. plain_pair kv"
  shows "form_pairs (join ''&'' (map (\<lambda>(k, v). k @ ''='' @ v) kvs)) = kvs"
proof -
  let ?ps = "map (\<lambda>(k, v). k @ ''='' @ v) kvs"
  have "split_on CHR ''&'' (join [CHR ''&''] ?ps) = ?ps"
    using assms by (intro split_on_join) (auto simp: plain_pair_def)
  moreover have "filter (\<lambda>p. p \<noteq> []) ?ps = ?ps" by (auto simp: filter_id_conv)
  moreover have "map pair_of_part ?ps = kvs"
    unfolding map_map comp_def
    by (rule map_idI) (use assms(2) pair_of_part in \<open>auto simp: plain_pair_def\<close>)
  ultimately show ?thesis by (simp add: form_pairs_def)
qed

lemma plain_query_append: "plain_query (p @ q) \<longleftrightarrow> plain_query p \<and> plain_query q"
  by (auto simp: plain_query_def)

lemma plain_join: "plain_query sep \<Longrightarrow> \<forall>x \<in> set xs. plain_query x \<Longrightarrow> plain_query (join sep xs)"
  by (induction sep xs rule: join.induct) (simp_all add: plain_query_append, simp add: plain_query_def)

lemma plain_query_join:
  assumes "\<forall>kv \<in> set kvs. plain_pair kv"
  shows "plain_query (join ''&'' (map (\<lambda>(k, v). k @ ''='' @ v) kvs))"
proof (rule plain_join)
  show "plain_query ''&''" by code_simp
  have "plain_query ''=''" by code_simp
  with assms show "\<forall>x \<in> set (map (\<lambda>(k, v). k @ ''='' @ v) kvs). plain_query x"
    by (auto simp: plain_pair_def plain_query_append simp del: append_Cons)
qed

text \<open>
  The URL that is logged parses back to a URL whose query pairs are those of the original without the
  sensitive ones, in order, as long as the pairs kept are free of characters that need escapes; a URL
  without sensitive pairs is logged unchanged whatever its pairs.
\<close>

theorem sanitise_url_removes_secrets:
  assumes "url_ok api valid" "valid u"
    and "\<forall>kv \<in> set (ul_query_pairs api u). \<not> is_sensitive_param (fst kv) \<longrightarrow> plain_pair kv"
  shows "\<exists>u'. ul_parse api (sanitise_url api u) = Some u' \<and>
    ul_query_pairs api u' = filter (\<lambda>(k, _). \<not> is_sensitive_param k) (ul_query_pairs api u)"
proof -
  let ?kept = "filter (\<lambda>(k, _). \<not> is_sensitive_param k) (ul_query_pairs api u)"
  have plain: "\<forall>kv \<in> set ?kept. plain_pair kv" using assms(3) by auto
  have rt: "ul_parse api (ul_to_string api (ul_set_query api q u)) = Some (ul_set_query api q u)" for q
    using assms(1,2) by (simp add: url_ok_def)
  show ?thesis
  proof (cases "list_ex (\<lambda>(k, _). is_sensitive_param k) (ul_query_pairs api u)")
    case False
    then have "?kept = ul_query_pairs api u" by (auto simp: list_ex_iff filter_id_conv)
    with False assms(1,2) show ?thesis by (auto simp: sanitise_url_def url_ok_def)
  next
    case True
    then show ?thesis
      using assms(1) rt form_pairs_join [OF _ plain] plain_query_join [OF plain]
      by (cases "?kept = []") (simp_all add: sanitise_url_def url_ok_def Let_def)
  qed
qed

text \<open>A URL library for the examples: everything behind the first question mark is the query.\<close>

definition split_url :: "(string \<times> string option) url_api" where
  "split_url =
     \<lparr>ul_parse = (\<lambda>s. Some (takeWhile (\<lambda>c. c \<noteq> CHR ''?'') s,
         if CHR ''?'' \<in> set s then Some (drop 1 (dropWhile (\<lambda>c. c \<noteq> CHR ''?'') s)) else None)),
      ul_to_string = (\<lambda>(b, q). b @ (case q of None \<Rightarrow> [] | Some t \<Rightarrow> CHR ''?'' # t)),
      ul_query_pairs = (\<lambda>(b, q). case q of None \<Rightarrow> [] | Some t \<Rightarrow> form_pairs t),
      ul_set_query = (\<lambda>q (b, _). (b, q))\<rparr>"

lemma split_url_ok: "url_ok split_url (\<lambda>(b, q). CHR ''?'' \<notin> set b)"
  by (auto simp: url_ok_def split_url_def takeWhile_append dropWhile_append split: option.split
      dest: set_takeWhileD)

theorem sanitise_url_removes_secrets_witness:
  "\<exists>u'. ul_parse split_url (sanitise_url split_url (''https://h/p'', Some ''a=1&TOKEN=x&b=2'')) = Some u' \<and>
     ul_query_pairs split_url u' = [(''a'', ''1''), (''b'', ''2'')]"
proof -
  let ?u = "(''https://h/p'', Some ''a=1&TOKEN=x&b=2'') :: string \<times> string option"
  have q: "ul_query_pairs split_url ?u = [(''a'', ''1''), (''TOKEN'', ''x''), (''b'', ''2'')]" by code_simp
  have f: "filter (\<lambda>(k, _). \<not> is_sensitive_param k) (ul_query_pairs split_url ?u) = [(''a'', ''1''), (''b'', ''2'')]"
    unfolding q by code_simp
  have p: "plain_pair (''a'', ''1'')" "plain_pair (''b'', ''2'')" "is_sensitive_param ''TOKEN''" by code_simp+
  have "\<forall>kv \<in> set (ul_query_pairs split_url ?u). \<not> is_sensitive_param (fst kv) \<longrightarrow> plain_pair kv"
    unfolding q using p by simp
  from sanitise_url_removes_secrets [OF split_url_ok _ this] f show ?thesis by simp
qed

text \<open>
  The pairs kept are joined again without escapes. A value that spells an ampersand and the name of a
  sensitive parameter, sent beside a sensitive one, comes back as that parameter: the logged URL has
  the query pair that the function is meant to remove.
\<close>

theorem sanitise_url_unescapes:
  assumes "url_ok api valid" "valid u"
    and "ul_query_pairs api u = [(''q'', ''x&token=abc''), (''key'', k)]"
  shows "\<exists>u'. ul_parse api (sanitise_url api u) = Some u' \<and> (''token'', ''abc'') \<in> set (ul_query_pairs api u')"
proof -
  have s: "\<not> is_sensitive_param ''q''" "is_sensitive_param ''key''" by code_simp+
  have f: "plain_query ''q=x&token=abc''" "(''token'', ''abc'') \<in> set (form_pairs ''q=x&token=abc'')" by code_simp+
  have "sanitise_url api u = ul_to_string api (ul_set_query api (Some ''q=x&token=abc'') u)"
    using s by (simp add: sanitise_url_def assms(3))
  then show ?thesis using assms(1,2) f by (simp add: url_ok_def)
qed

end
