(* ===== verification/Float64.thy ===== *)
theory Float64
  imports Prelude
begin

text \<open>
  Rust's \<open>f64\<close>: IEEE 754 binary64 values as their 64-bit patterns, with the operations the
  transform engine uses. A finite value is an exact ratio of integers, arithmetic is done on the ratios
  and rounded once, to nearest with ties to even. Casts to \<open>i64\<close> saturate. A result that is not
  a number is the canonical quiet NaN (Rust leaves its payload open).
\<close>

section \<open>Decoding\<close>

datatype f64_class = F_NaN | F_Inf bool | F_Fin bool nat int

text \<open>\<open>F_Fin s m e\<close> is \<open>(- 1) ^ s * m * 2 ^ e\<close>.\<close>

definition f64_decode :: "u64 \<Rightarrow> f64_class" where
  "f64_decode w =
     (let n = unat w; s = (2 ^ 63 \<le> n); e = (n div 2 ^ 52) mod 2048; f = n mod 2 ^ 52 in
      if e = 2047 then (if f = 0 then F_Inf s else F_NaN)
      else if e = 0 then F_Fin s f (- 1074)
      else F_Fin s (2 ^ 52 + f) (int e - 1075))"

definition f64_encode :: "bool \<Rightarrow> nat \<Rightarrow> u64" where
  "f64_encode s n = of_nat ((if s then 2 ^ 63 else 0) + n)"

definition f64_nan :: u64 where "f64_nan = of_nat (2047 * 2 ^ 52 + 2 ^ 51)"

definition f64_inf_bits :: nat where "f64_inf_bits = 2047 * 2 ^ 52"

text \<open>The ratio of a finite value: a numerator with its sign, a positive denominator.\<close>

definition f64_ratio :: "bool \<Rightarrow> nat \<Rightarrow> int \<Rightarrow> int \<times> nat" where
  "f64_ratio s m e =
     ((if s then - 1 else 1) * int m * 2 ^ nat e, 2 ^ nat (- e))"

definition is_finite :: "u64 \<Rightarrow> bool" where
  "is_finite w = (case f64_decode w of F_Fin _ _ _ \<Rightarrow> True | _ \<Rightarrow> False)"

section \<open>Rounding\<close>

text \<open>\<open>n div d\<close> rounded to nearest, ties to even.\<close>

definition div_round_even :: "nat \<Rightarrow> nat \<Rightarrow> nat" where
  "div_round_even n d =
     (let q = n div d; r = n mod d in
      if 2 * r < d then q
      else if 2 * r > d then q + 1
      else if even q then q else q + 1)"

text \<open>The number of binary digits.\<close>

fun bit_len :: "nat \<Rightarrow> nat" where
  "bit_len n = (if n = 0 then 0 else Suc (bit_len (n div 2)))"

declare bit_len.simps [simp del]

text \<open>The exponent of \<open>n / d\<close> for positive \<open>n\<close> and \<open>d\<close>: the \<open>k\<close> with \<open>2^k \<le> n/d < 2^(k+1)\<close>.\<close>

definition ratio_log :: "nat \<Rightarrow> nat \<Rightarrow> int" where
  "ratio_log n d =
     (let k = int (bit_len n) - int (bit_len d) in
      if d * 2 ^ nat k \<le> n * 2 ^ nat (- k) then k else k - 1)"

text \<open>
  The value with sign \<open>s\<close> nearest to \<open>n / d\<close>. The exponent of the last place is at least
  -1074; a carry out of the significand moves into the exponent field of the encoding.
\<close>

definition f64_round :: "bool \<Rightarrow> nat \<Rightarrow> nat \<Rightarrow> u64" where
  "f64_round s n d =
     (if n = 0 then f64_encode s 0
      else
        let e = max (- 1074) (ratio_log n d - 52);
            q = div_round_even (n * 2 ^ nat (- e)) (d * 2 ^ nat e);
            bits = nat (e + 1074) * 2 ^ 52 + q
        in f64_encode s (min f64_inf_bits bits))"

definition f64_of_ratio :: "bool \<Rightarrow> int \<Rightarrow> nat \<Rightarrow> u64" where
  "f64_of_ratio zero_sign n d = (if n = 0 then f64_encode zero_sign 0 else f64_round (n < 0) (nat \<bar>n\<bar>) d)"

definition f64_of_int :: "int \<Rightarrow> u64" where
  "f64_of_int i = f64_of_ratio False i 1"

section \<open>Arithmetic\<close>

definition f64_add :: "u64 \<Rightarrow> u64 \<Rightarrow> u64" where
  "f64_add x y =
     (case (f64_decode x, f64_decode y) of
        (F_Fin s m e, F_Fin t k g) \<Rightarrow>
          (let (a, b) = f64_ratio s m e; (c, d) = f64_ratio t k g
           in f64_of_ratio (s \<and> t) (a * int d + c * int b) (b * d))
      | (F_Inf s, F_Inf t) \<Rightarrow> if s = t then f64_encode s f64_inf_bits else f64_nan
      | (F_Inf s, F_Fin _ _ _) \<Rightarrow> f64_encode s f64_inf_bits
      | (F_Fin _ _ _, F_Inf t) \<Rightarrow> f64_encode t f64_inf_bits
      | _ \<Rightarrow> f64_nan)"

definition f64_neg :: "u64 \<Rightarrow> u64" where
  "f64_neg x = word_of_nat ((unat x + 2 ^ 63) mod 2 ^ 64)"

definition f64_sub :: "u64 \<Rightarrow> u64 \<Rightarrow> u64" where
  "f64_sub x y = f64_add x (f64_neg y)"

definition f64_mul :: "u64 \<Rightarrow> u64 \<Rightarrow> u64" where
  "f64_mul x y =
     (case (f64_decode x, f64_decode y) of
        (F_Fin s m e, F_Fin t k g) \<Rightarrow>
          (let (a, b) = f64_ratio s m e; (c, d) = f64_ratio t k g
           in f64_of_ratio (s \<noteq> t) (a * c) (b * d))
      | (F_Inf s, F_Inf t) \<Rightarrow> f64_encode (s \<noteq> t) f64_inf_bits
      | (F_Inf s, F_Fin t m _) \<Rightarrow> if m = 0 then f64_nan else f64_encode (s \<noteq> t) f64_inf_bits
      | (F_Fin s m _, F_Inf t) \<Rightarrow> if m = 0 then f64_nan else f64_encode (s \<noteq> t) f64_inf_bits
      | _ \<Rightarrow> f64_nan)"

definition f64_div :: "u64 \<Rightarrow> u64 \<Rightarrow> u64" where
  "f64_div x y =
     (case (f64_decode x, f64_decode y) of
        (F_Fin s m e, F_Fin t k g) \<Rightarrow>
          (if k = 0 then (if m = 0 then f64_nan else f64_encode (s \<noteq> t) f64_inf_bits)
           else
             let (a, b) = f64_ratio False m e; (c, d) = f64_ratio False k g
             in if m = 0 then f64_encode (s \<noteq> t) 0
                else f64_round (s \<noteq> t) (nat a * d) (b * nat c))
      | (F_Inf s, F_Fin t _ _) \<Rightarrow> f64_encode (s \<noteq> t) f64_inf_bits
      | (F_Fin s _ _, F_Inf t) \<Rightarrow> f64_encode (s \<noteq> t) 0
      | _ \<Rightarrow> f64_nan)"

definition f64_is_zero :: "u64 \<Rightarrow> bool" where
  "f64_is_zero x = (case f64_decode x of F_Fin _ m _ \<Rightarrow> m = 0 | _ \<Rightarrow> False)"

text \<open>
  \<open>v.fract() == 0.0\<close> and, for such a value, the integer it is. The fraction of an infinity or a
  NaN is NaN.
\<close>

definition f64_whole :: "u64 \<Rightarrow> int option" where
  "f64_whole v =
     (case f64_decode v of
        F_Fin s m e \<Rightarrow> (let (n, d) = f64_ratio s m e in if n mod int d = 0 then Some (n div int d) else None)
      | _ \<Rightarrow> None)"

text \<open>\<open>v as i64\<close> of a whole number.\<close>

definition saturate_i64 :: "int \<Rightarrow> int" where
  "saturate_i64 i = max i64_min (min i64_max i)"

section \<open>Decimal text\<close>

text \<open>\<open>str::parse::<f64>\<close>: the grammar of the standard library, the exact value rounded once.\<close>

definition num_of_digits :: "string \<Rightarrow> nat" where
  "num_of_digits ds = fold (\<lambda>c n. 10 * n + (of_char c - 48)) ds 0"

definition split_sign :: "string \<Rightarrow> bool \<times> string" where
  "split_sign s =
     (case s of
        c # t \<Rightarrow> if c = CHR ''-'' then (True, t) else if c = CHR ''+'' then (False, t) else (False, s)
      | [] \<Rightarrow> (False, s))"

definition parse_exponent :: "string \<Rightarrow> int option" where
  "parse_exponent r =
     (case r of
        [] \<Rightarrow> Some 0
      | c # t \<Rightarrow>
          if c = CHR ''e'' \<or> c = CHR ''E'' then
            (let (neg, ds) = split_sign t in
             if ds \<noteq> [] \<and> list_all is_ascii_digit ds
             then Some (if neg then - int (num_of_digits ds) else int (num_of_digits ds)) else None)
          else None)"

definition parse_decimal :: "bool \<Rightarrow> string \<Rightarrow> u64 option" where
  "parse_decimal neg s =
     (let ip = takeWhile is_ascii_digit s; r = dropWhile is_ascii_digit s;
          frac = (r \<noteq> [] \<and> hd r = CHR ''.'');
          fp = (if frac then takeWhile is_ascii_digit (tl r) else []);
          r2 = (if frac then dropWhile is_ascii_digit (tl r) else r)
      in if ip = [] \<and> fp = [] then None
         else case parse_exponent r2 of
                None \<Rightarrow> None
              | Some x \<Rightarrow>
                  let e = x - int (length fp)
                  in Some (f64_round neg (num_of_digits (ip @ fp) * 10 ^ nat e) (10 ^ nat (- e))))"

definition parse_f64 :: "string \<Rightarrow> u64 option" where
  "parse_f64 s =
     (let (neg, t) = split_sign s; l = to_ascii_lowercase t in
      if l = ''inf'' \<or> l = ''infinity'' then Some (f64_encode neg f64_inf_bits)
      else if l = ''nan'' then Some f64_nan
      else parse_decimal neg t)"

section \<open>Integers up to 53 bits are exact\<close>

lemma bit_len_bounds: "0 < n \<Longrightarrow> 0 < bit_len n \<and> 2 ^ (bit_len n - 1) \<le> n \<and> n < 2 ^ bit_len n"
proof (induction n rule: bit_len.induct)
  case (1 n)
  then have b: "bit_len n = Suc (bit_len (n div 2))" by (subst bit_len.simps) simp
  show ?case
  proof (cases "n div 2 = 0")
    case True
    with 1(2) have "n = 1" by linarith
    then show ?thesis unfolding b True by (simp add: bit_len.simps [of 0])
  next
    case False
    with 1 have "0 < bit_len (n div 2)" "2 ^ (bit_len (n div 2) - 1) \<le> n div 2" "n div 2 < 2 ^ bit_len (n div 2)"
      by auto
    then show ?thesis unfolding b by (cases "bit_len (n div 2)") auto
  qed
qed

lemma bit_len_le: "n < 2 ^ k \<Longrightarrow> bit_len n \<le> k"
proof (cases "n = 0")
  case False
  assume "n < 2 ^ k"
  with False bit_len_bounds [of n] have "(2 :: nat) ^ (bit_len n - 1) < 2 ^ k" by linarith
  then show ?thesis by simp
qed (simp add: bit_len.simps)

lemma bit_len_one: "bit_len (Suc 0) = 1" "bit_len 0 = 0"
  by (simp_all add: bit_len.simps)

lemma ratio_log_one: "0 < n \<Longrightarrow> ratio_log n 1 = int (bit_len n) - 1"
  using bit_len_bounds [of n]
  by (auto simp: ratio_log_def Let_def bit_len_one nat_diff_distrib')

lemma div_round_even_exact: "0 < d \<Longrightarrow> div_round_even (q * d) d = q"
  by (simp add: div_round_even_def)

lemma unat_f64_encode: "n < 2 ^ 63 \<Longrightarrow> unat (f64_encode s n) = (if s then 2 ^ 63 else 0) + n"
  unfolding f64_encode_def unsigned_of_nat of_nat_id by (rule take_bit_nat_eq_self) (simp split: if_split)

lemma f64_decode_encode:
  assumes "g < 2046" "f < 2 ^ 52"
  shows "f64_decode (f64_encode s (Suc g * 2 ^ 52 + f)) = F_Fin s (2 ^ 52 + f) (int g - 1074)"
proof -
  let ?n = "Suc g * 2 ^ 52 + f"
  have lt: "?n < 2 ^ 63" using assms by simp
  have u: "unat (f64_encode s ?n) = (if s then 2048 * 2 ^ 52 else 0) + ?n"
    by (subst unat_f64_encode [OF lt]) simp
  have v: "unat (f64_encode s ?n) = f + 2 ^ 52 * ((if s then 2048 else 0) + Suc g)" unfolding u by simp
  have "unat (f64_encode s ?n) div 2 ^ 52 = (if s then 2048 else 0) + Suc g"
    unfolding v using assms(2) by (simp only: div_mult_self2 div_less)
  moreover have "(2048 + Suc g) mod 2048 = Suc g" using assms(1) by (simp only: mod_add_self1 mod_less)
  ultimately have "(unat (f64_encode s ?n) div 2 ^ 52) mod 2048 = Suc g"
    using assms(1) by (cases s) (simp_all only: if_True if_False, simp)
  moreover have "unat (f64_encode s ?n) mod 2 ^ 52 = f"
    unfolding v using assms(2) by (simp only: mod_mult_self2 mod_less)
  moreover have "(2 ^ 63 \<le> unat (f64_encode s ?n)) = s" unfolding u using lt by (cases s) simp_all
  ultimately show ?thesis using assms(1) by (simp add: f64_decode_def Let_def)
qed

lemma f64_round_small:
  assumes "0 < n" "n < 2 ^ 53"
  shows "f64_decode (f64_round s n 1) = F_Fin s (n * 2 ^ (53 - bit_len n)) (int (bit_len n) - 53)"
proof -
  let ?b = "bit_len n"
  let ?q = "n * 2 ^ (53 - ?b)"
  have b: "0 < ?b" "2 ^ (?b - 1) \<le> n" "n < 2 ^ ?b" "?b \<le> 53"
    using bit_len_bounds [OF assms(1)] bit_len_le [OF assms(2)] by auto
  have "(2 :: nat) ^ 52 = 2 ^ (?b - 1) * 2 ^ (53 - ?b)" using b by (simp flip: power_add)
  also have "\<dots> \<le> ?q" using b by simp
  finally have lo: "2 ^ 52 \<le> ?q" .
  have "?q < 2 ^ ?b * 2 ^ (53 - ?b)" using b by simp
  also have "\<dots> = (2 :: nat) ^ 53" using b by (simp flip: power_add)
  finally have hi: "?q < 2 ^ 53" .
  have e: "max (- 1074) (ratio_log n 1 - 52) = int ?b - 53"
    using b ratio_log_one [OF assms(1)] by simp
  have neg: "nat (- (int ?b - 53)) = 53 - ?b" "nat (int ?b - 53) = 0" "nat (int ?b - 53 + 1074) = ?b + 1021"
    using b by simp_all
  have "f64_round s n 1 = f64_encode s (min f64_inf_bits ((?b + 1021) * 2 ^ 52 + ?q))"
    unfolding f64_round_def e Let_def neg using assms(1) by (simp add: div_round_even_def)
  also have "(?b + 1021) * 2 ^ 52 + ?q = Suc (?b + 1021) * 2 ^ 52 + (?q - 2 ^ 52)" using lo by simp
  also have "min f64_inf_bits \<dots> = \<dots>" using b hi lo by (simp add: f64_inf_bits_def)
  finally have "f64_decode (f64_round s n 1) = F_Fin s (2 ^ 52 + (?q - 2 ^ 52)) (int (?b + 1021) - 1074)"
    using b hi lo f64_decode_encode [of "?b + 1021" "?q - 2 ^ 52" s] by simp
  with lo b show ?thesis by simp
qed

lemma f64_of_int_small:
  assumes "\<bar>i\<bar> < 2 ^ 53"
  shows "f64_whole (f64_of_int i) = Some i" "is_finite (f64_of_int i)"
proof -
  have "f64_whole (f64_of_int i) = Some i \<and> is_finite (f64_of_int i)"
  proof (cases "i = 0")
    case True
    then show ?thesis
      by (simp add: f64_of_int_def f64_of_ratio_def f64_whole_def is_finite_def f64_decode_def
          unat_f64_encode f64_ratio_def Let_def)
  next
    case False
    let ?n = "nat \<bar>i\<bar>"
    have n: "0 < ?n" "?n < 2 ^ 53" "bit_len ?n \<le> 53" using False assms bit_len_le [of ?n 53] by simp_all
    have "f64_decode (f64_of_int i) = F_Fin (i < 0) (?n * 2 ^ (53 - bit_len ?n)) (int (bit_len ?n) - 53)"
      using f64_round_small [OF n(1,2)] False by (simp add: f64_of_int_def f64_of_ratio_def)
    moreover have "nat (53 - int (bit_len ?n)) = 53 - bit_len ?n" by simp
    ultimately show ?thesis using n(3) by (simp add: f64_whole_def is_finite_def f64_ratio_def)
  qed
  then show "f64_whole (f64_of_int i) = Some i" "is_finite (f64_of_int i)" by simp_all
qed

end
