(* ===== verification/Transform.thy ===== *)
theory Transform
  imports Json Float64 "HOL-Library.Sublist"
begin

text \<open>
  The response transformation engine (\<open>services/gateway/src/transform.rs\<close>): the operations of a
  pipeline, each of which changes the document or adds a warning, and the wrapping of the result as MCP
  content. JSONPath, JSON text, the decimal text of numbers, Unicode case and dates belong to
  third-party crates or to the Unicode tables and are the fields of \<open>transform_ext\<close>. A date that
  cannot be printed with a format makes \<open>to_string\<close> panic: the outer \<open>None\<close>.
\<close>

section \<open>Configuration\<close>

definition MAX_RESPONSE_SIZE :: nat where "MAX_RESPONSE_SIZE = 100 * 1024"

datatype transform_error = ResponseTooLarge nat nat | InvalidJson string

record transform_warning =
  tw_op_index :: nat
  tw_op_name :: string
  tw_message :: string

datatype type_coercion =
    StringToNumber
  | NumberToString
  | StringToBool
  | BoolToString
  | DateFormat string string

datatype arith_op = Add | Subtract | Multiply | Divide

datatype string_operation = Concat string | Trim | Uppercase | Lowercase | Truncate nat

datatype transform_op =
    JsonpathExtract string string
  | FieldRename string string
  | TypeCoerce string type_coercion
  | Arithmetic string arith_op u64
  | StringOp string string_operation
  | ArrayFlatten string
  | SelectFields "string list"
  | DropFields "string list"

record transform_pipeline_config =
  tc_ops :: "transform_op list"

datatype pipeline_build_error = InvalidJsonPath nat string

record transform_pipeline =
  tp_config :: transform_pipeline_config
  tp_compiled_paths :: "(nat \<times> (json \<Rightarrow> json)) list"

record 'd transform_ext =
  tx_jsonpath :: "string \<Rightarrow> string + (json \<Rightarrow> json)"
  tx_from_str :: "string \<Rightarrow> string + json"
  tx_to_string :: "json \<Rightarrow> string option"
  tx_number_to_string :: "json_number \<Rightarrow> string"
  tx_f64_to_string :: "u64 \<Rightarrow> string"
  tx_to_uppercase :: "string \<Rightarrow> string"
  tx_to_lowercase :: "string \<Rightarrow> string"
  tx_parse_date :: "string \<Rightarrow> string \<Rightarrow> string + 'd"
  tx_format_date :: "'d \<Rightarrow> string \<Rightarrow> string option"

text \<open>The compilation loop of \<open>TransformPipeline::new\<close>, from operation \<open>i\<close> on.\<close>

fun compile_paths ::
  "'d transform_ext \<Rightarrow> nat \<Rightarrow> transform_op list \<Rightarrow> pipeline_build_error + (nat \<times> (json \<Rightarrow> json)) list" where
  "compile_paths tx i [] = Inr []"
| "compile_paths tx i (op # ops) =
     (case op of
        JsonpathExtract path _ \<Rightarrow>
          and_then (map_err (InvalidJsonPath i) (tx_jsonpath tx path))
            (\<lambda>compiled. and_then (compile_paths tx (Suc i) ops) (\<lambda>rest. Inr ((i, compiled) # rest)))
      | _ \<Rightarrow> compile_paths tx (Suc i) ops)"

definition pipeline_new ::
  "'d transform_ext \<Rightarrow> transform_pipeline_config \<Rightarrow> pipeline_build_error + transform_pipeline" where
  "pipeline_new tx config =
     and_then (compile_paths tx 0 (tc_ops config))
       (\<lambda>paths. Inr \<lparr>tp_config = config, tp_compiled_paths = paths\<rparr>)"

section \<open>Operations\<close>

type_synonym doc_state = "json \<times> transform_warning list"

definition warn :: "nat \<Rightarrow> string \<Rightarrow> string \<Rightarrow> doc_state \<Rightarrow> doc_state" where
  "warn op_index op_name message st =
     (fst st, snd st @ [\<lparr>tw_op_index = op_index, tw_op_name = op_name, tw_message = message\<rparr>])"

definition is_object :: "json \<Rightarrow> bool" where
  "is_object v = (case v of Object _ \<Rightarrow> True | _ \<Rightarrow> False)"

definition apply_jsonpath_extract :: "(json \<Rightarrow> json) \<Rightarrow> string \<Rightarrow> nat \<Rightarrow> doc_state \<Rightarrow> doc_state" where
  "apply_jsonpath_extract compiled target_field i st =
     (let result_value = compiled (fst st);
          matches = (case result_value of Array arr \<Rightarrow> arr | Null \<Rightarrow> [] | other \<Rightarrow> [other])
      in if matches = [] then
           warn i ''jsonpath_extract''
             (''JSONPath matched no values; '' @ [CHR 0x27] @ target_field @ [CHR 0x27] @ '' will not be set'') st
         else
           let extracted = (case matches of [m] \<Rightarrow> m | _ \<Rightarrow> Array matches);
               kvs = (case fst st of Object m \<Rightarrow> m | _ \<Rightarrow> [])
           in (Object (obj_insert target_field extracted kvs), snd st))"

text \<open>\<open>field '...'\<close> as the messages spell it.\<close>

definition field_msg :: "string \<Rightarrow> string \<Rightarrow> string" where
  "field_msg field rest = ''field '' @ [CHR 0x27] @ field @ [CHR 0x27] @ rest"

definition quoted :: "string \<Rightarrow> string" where
  "quoted s = [CHR 0x27] @ s @ [CHR 0x27]"

definition apply_field_rename :: "string \<Rightarrow> string \<Rightarrow> nat \<Rightarrow> doc_state \<Rightarrow> doc_state" where
  "apply_field_rename from to i st =
     (case fst st of
        Object kvs \<Rightarrow>
          (case obj_get from kvs of
             Some val \<Rightarrow> (Object (obj_insert to val (obj_remove from kvs)), snd st)
           | None \<Rightarrow> warn i ''field_rename'' (field_msg from '' not found'') st)
      | _ \<Rightarrow> warn i ''field_rename'' ''document is not an object'' st)"

definition number_from_f64 :: "u64 \<Rightarrow> json_number option" where
  "number_from_f64 w = (if is_finite w then Some (Float w) else None)"

definition number_from_i64 :: "int \<Rightarrow> json_number" where
  "number_from_i64 i = (if i < 0 then NegInt i else PosInt (word_of_int i))"

definition number_as_f64 :: "json_number \<Rightarrow> u64" where
  "number_as_f64 n = (case n of PosInt u \<Rightarrow> f64_of_int (uint u) | NegInt i \<Rightarrow> f64_of_int i | Float w \<Rightarrow> w)"

text \<open>The outer \<open>None\<close> is the panic.\<close>

definition coerce_value :: "'d transform_ext \<Rightarrow> json \<Rightarrow> type_coercion \<Rightarrow> (string + json) option" where
  "coerce_value tx val coerce =
     (case coerce of
        StringToNumber \<Rightarrow>
          Some (and_then (ok_or ''value is not a string'' (as_str val)) (\<lambda>s.
            and_then (ok_or (quoted s @ '' cannot be parsed as a number'') (parse_f64 s)) (\<lambda>n.
            and_then (ok_or (quoted s @ '' is not a finite number'') (number_from_f64 n)) (\<lambda>num.
            Inr (Number num)))))
      | NumberToString \<Rightarrow>
          Some (case val of Number n \<Rightarrow> Inr (String (tx_number_to_string tx n))
                | _ \<Rightarrow> Inl ''value is not a number'')
      | StringToBool \<Rightarrow>
          Some (and_then (ok_or ''value is not a string'' (as_str val)) (\<lambda>s.
            let l = to_ascii_lowercase s in
            if l \<in> set [''true'', ''1'', ''yes'', ''on''] then Inr (Bool True)
            else if l \<in> set [''false'', ''0'', ''no'', ''off''] then Inr (Bool False)
            else Inl (quoted l @ '' cannot be parsed as a boolean'')))
      | BoolToString \<Rightarrow>
          Some (case val of Bool b \<Rightarrow> Inr (String (if b then ''true'' else ''false''))
                | _ \<Rightarrow> Inl ''value is not a boolean'')
      | DateFormat from_format to_format \<Rightarrow>
          (case as_str val of
             None \<Rightarrow> Some (Inl ''value is not a string'')
           | Some s \<Rightarrow>
               (case tx_parse_date tx s from_format of
                  Inl e \<Rightarrow> Some (Inl (''date parse error with format '' @ quoted from_format @ '': '' @ e))
                | Inr dt \<Rightarrow> map_option (\<lambda>t. Inr (String t)) (tx_format_date tx dt to_format))))"

definition apply_type_coerce ::
  "'d transform_ext \<Rightarrow> string \<Rightarrow> type_coercion \<Rightarrow> nat \<Rightarrow> doc_state \<Rightarrow> doc_state option" where
  "apply_type_coerce tx field coerce i st =
     (case fst st of
        Object kvs \<Rightarrow>
          (case obj_get field kvs of
             Some current \<Rightarrow>
               (case coerce_value tx current coerce of
                  None \<Rightarrow> None
                | Some (Inr new_val) \<Rightarrow> Some (Object (obj_insert field new_val kvs), snd st)
                | Some (Inl msg) \<Rightarrow> Some (warn i ''type_coerce'' (field_msg field ('': '' @ msg)) st))
           | None \<Rightarrow> Some (warn i ''type_coerce'' (field_msg field '' not found'') st))
      | _ \<Rightarrow> Some (warn i ''type_coerce'' ''document is not an object'' st))"

text \<open>\<open>i64::MIN as f64\<close> is exact, \<open>i64::MAX as f64\<close> rounds up to \<open>2 ^ 63\<close>.\<close>

definition as_i64 :: "u64 \<Rightarrow> int option" where
  "as_i64 v =
     (case f64_whole v of
        Some i \<Rightarrow> if - (2 ^ 63) \<le> i \<and> i \<le> 2 ^ 63 then Some (saturate_i64 i) else None
      | None \<Rightarrow> None)"

definition checked_i64 :: "int \<Rightarrow> int option" where
  "checked_i64 i = (if i64_min \<le> i \<and> i \<le> i64_max then Some i else None)"

definition finite_or_overflow :: "u64 \<Rightarrow> string + u64" where
  "finite_or_overflow r = (if is_finite r then Inr r else Inl ''arithmetic overflow'')"

definition int_or_float ::
  "(int \<Rightarrow> int \<Rightarrow> int) \<Rightarrow> (u64 \<Rightarrow> u64 \<Rightarrow> u64) \<Rightarrow> string \<Rightarrow> u64 \<Rightarrow> u64 \<Rightarrow> string + u64" where
  "int_or_float iop fop err current operand =
     (case (as_i64 current, as_i64 operand) of
        (Some a, Some b) \<Rightarrow> and_then (ok_or err (checked_i64 (iop a b))) (\<lambda>r. Inr (f64_of_int r))
      | _ \<Rightarrow> finite_or_overflow (fop current operand))"

definition compute_arithmetic :: "u64 \<Rightarrow> arith_op \<Rightarrow> u64 \<Rightarrow> string + u64" where
  "compute_arithmetic current op operand =
     (case op of
        Divide \<Rightarrow>
          if f64_is_zero operand then Inl ''division by zero''
          else finite_or_overflow (f64_div current operand)
      | Add \<Rightarrow> int_or_float (+) f64_add ''integer overflow in addition'' current operand
      | Subtract \<Rightarrow> int_or_float (-) f64_sub ''integer overflow in subtraction'' current operand
      | Multiply \<Rightarrow> int_or_float (*) f64_mul ''integer overflow in multiplication'' current operand)"

text \<open>The number stored for a result: an \<open>i64\<close> when it is whole and in range.\<close>

definition result_number :: "u64 \<Rightarrow> json_number option" where
  "result_number result =
     (case as_i64 result of Some i \<Rightarrow> Some (number_from_i64 i) | None \<Rightarrow> number_from_f64 result)"

definition apply_arithmetic ::
  "'d transform_ext \<Rightarrow> string \<Rightarrow> arith_op \<Rightarrow> u64 \<Rightarrow> nat \<Rightarrow> doc_state \<Rightarrow> doc_state" where
  "apply_arithmetic tx field op operand i st =
     (case fst st of
        Object kvs \<Rightarrow>
          (case obj_get field kvs of
             Some (Number n) \<Rightarrow>
               (case compute_arithmetic (number_as_f64 n) op operand of
                  Inr result \<Rightarrow>
                    (case result_number result of
                       Some number \<Rightarrow> (Object (obj_insert field (Number number) kvs), snd st)
                     | None \<Rightarrow> warn i ''arithmetic''
                         (field_msg field ('': result '' @ tx_f64_to_string tx result @ '' is not a valid JSON number'')) st)
                | Inl msg \<Rightarrow> warn i ''arithmetic'' (field_msg field ('': '' @ msg)) st)
           | Some _ \<Rightarrow> warn i ''arithmetic'' (field_msg field '' is not a number'') st
           | None \<Rightarrow> warn i ''arithmetic'' (field_msg field '' not found'') st)
      | _ \<Rightarrow> warn i ''arithmetic'' ''document is not an object'' st)"

definition string_op_result :: "'d transform_ext \<Rightarrow> string_operation \<Rightarrow> string \<Rightarrow> string" where
  "string_op_result tx op current =
     (case op of
        Concat sfx \<Rightarrow> current @ sfx
      | Trim \<Rightarrow> trim current
      | Uppercase \<Rightarrow> tx_to_uppercase tx current
      | Lowercase \<Rightarrow> tx_to_lowercase tx current
      | Truncate max_len \<Rightarrow> take_chars max_len current)"

definition apply_string_op ::
  "'d transform_ext \<Rightarrow> string \<Rightarrow> string_operation \<Rightarrow> nat \<Rightarrow> doc_state \<Rightarrow> doc_state" where
  "apply_string_op tx field op i st =
     (case fst st of
        Object kvs \<Rightarrow>
          (case obj_get field kvs of
             Some (String current) \<Rightarrow>
               (Object (obj_insert field (String (string_op_result tx op current)) kvs), snd st)
           | Some _ \<Rightarrow> warn i ''string_op'' (field_msg field '' is not a string'') st
           | None \<Rightarrow> warn i ''string_op'' (field_msg field '' not found'') st)
      | _ \<Rightarrow> warn i ''string_op'' ''document is not an object'' st)"

fun flatten_items :: "json list \<Rightarrow> json list" where
  "flatten_items [] = []"
| "flatten_items (item # items) =
     (case item of Array inner \<Rightarrow> inner @ flatten_items items | other \<Rightarrow> other # flatten_items items)"

definition apply_array_flatten :: "string \<Rightarrow> nat \<Rightarrow> doc_state \<Rightarrow> doc_state" where
  "apply_array_flatten field i st =
     (case fst st of
        Object kvs \<Rightarrow>
          (case obj_get field kvs of
             Some (Array arr) \<Rightarrow> (Object (obj_insert field (Array (flatten_items arr)) kvs), snd st)
           | Some _ \<Rightarrow> warn i ''array_flatten'' (field_msg field '' is not an array'') st
           | None \<Rightarrow> warn i ''array_flatten'' (field_msg field '' not found'') st)
      | _ \<Rightarrow> warn i ''array_flatten'' ''document is not an object'' st)"

definition apply_select_fields :: "string list \<Rightarrow> nat \<Rightarrow> doc_state \<Rightarrow> doc_state" where
  "apply_select_fields names i st =
     (case fst st of
        Object kvs \<Rightarrow> (Object (filter (\<lambda>(k, _). k \<in> set names) kvs), snd st)
      | _ \<Rightarrow> warn i ''select_fields'' ''document is not an object'' st)"

definition apply_drop_fields :: "string list \<Rightarrow> nat \<Rightarrow> doc_state \<Rightarrow> doc_state" where
  "apply_drop_fields names i st =
     (case fst st of
        Object kvs \<Rightarrow> (Object (fold obj_remove names kvs), snd st)
      | _ \<Rightarrow> st)"

section \<open>The pipeline\<close>

definition wrap_as_mcp_content :: "'d transform_ext \<Rightarrow> json \<Rightarrow> json" where
  "wrap_as_mcp_content tx doc =
     (let text = (case tx_to_string tx doc of Some t \<Rightarrow> t | None \<Rightarrow> ''null'')
      in Array [json_obj [(''type'', String ''text''), (''text'', String text)]])"

definition apply_op ::
  "'d transform_ext \<Rightarrow> (nat \<times> (json \<Rightarrow> json)) list \<Rightarrow> nat \<Rightarrow> transform_op \<Rightarrow> doc_state \<Rightarrow> doc_state option" where
  "apply_op tx paths i op st =
     (case op of
        JsonpathExtract _ target_field \<Rightarrow>
          Some (case map_of paths i of
                  Some compiled \<Rightarrow> apply_jsonpath_extract compiled target_field i st
                | None \<Rightarrow> st)
      | FieldRename from to \<Rightarrow> Some (apply_field_rename from to i st)
      | TypeCoerce field coerce \<Rightarrow> apply_type_coerce tx field coerce i st
      | Arithmetic field kind operand \<Rightarrow> Some (apply_arithmetic tx field kind operand i st)
      | StringOp field kind \<Rightarrow> Some (apply_string_op tx field kind i st)
      | ArrayFlatten field \<Rightarrow> Some (apply_array_flatten field i st)
      | SelectFields names \<Rightarrow> Some (apply_select_fields names i st)
      | DropFields names \<Rightarrow> Some (apply_drop_fields names i st))"

fun apply_ops ::
  "'d transform_ext \<Rightarrow> (nat \<times> (json \<Rightarrow> json)) list \<Rightarrow> nat \<Rightarrow> transform_op list \<Rightarrow> doc_state \<Rightarrow> doc_state option" where
  "apply_ops tx paths i [] st = Some st"
| "apply_ops tx paths i (op # ops) st =
     (case apply_op tx paths i op st of
        None \<Rightarrow> None
      | Some st' \<Rightarrow> apply_ops tx paths (Suc i) ops st')"

definition apply_pipeline ::
  "'d transform_ext \<Rightarrow> transform_pipeline \<Rightarrow> string
   \<Rightarrow> (transform_error + json \<times> transform_warning list) option" where
  "apply_pipeline tx pipeline input =
     (let size = length input in
      if size > MAX_RESPONSE_SIZE then Some (Inl (ResponseTooLarge size MAX_RESPONSE_SIZE))
      else
        case tx_from_str tx input of
          Inl e \<Rightarrow> Some (Inl (InvalidJson e))
        | Inr doc \<Rightarrow>
            map_option (\<lambda>(doc', warnings). Inr (wrap_as_mcp_content tx doc', warnings))
              (apply_ops tx (tp_compiled_paths pipeline) 0 (tc_ops (tp_config pipeline)) (doc, [])))"

section \<open>Operations that fail\<close>

lemmas transform_ops = apply_jsonpath_extract_def apply_field_rename_def apply_type_coerce_def apply_arithmetic_def
  apply_string_op_def apply_array_flatten_def apply_select_fields_def apply_drop_fields_def

text \<open>What one operation may do: change the document, or add one warning with its own index.\<close>

definition op_effect :: "nat \<Rightarrow> doc_state \<Rightarrow> doc_state \<Rightarrow> bool" where
  "op_effect i st st' \<longleftrightarrow>
     snd st' = snd st \<or> (fst st' = fst st \<and> (\<exists>w. snd st' = snd st @ [w] \<and> tw_op_index w = i))"

lemma op_effect_refl: "op_effect i st st"
  by (simp add: op_effect_def)

lemma op_effect_doc: "op_effect i st (doc, snd st)"
  by (simp add: op_effect_def)

lemma op_effect_warn: "op_effect i st (warn i name msg st)"
  by (simp add: op_effect_def warn_def)

lemmas op_effects = op_effect_refl op_effect_doc op_effect_warn

lemma type_coerce_effect: "apply_type_coerce tx field coerce i st = Some st' \<Longrightarrow> op_effect i st st'"
  by (auto simp: apply_type_coerce_def op_effects split: json.splits option.splits sum.splits)

lemma apply_op_effect: "apply_op tx paths i op st = Some st' \<Longrightarrow> op_effect i st st'"
  by (cases op)
    (auto simp: apply_op_def apply_jsonpath_extract_def apply_field_rename_def apply_arithmetic_def
      apply_string_op_def apply_array_flatten_def apply_select_fields_def apply_drop_fields_def op_effects Let_def
      type_coerce_effect split: json.splits option.splits sum.splits json_number.splits)

text \<open>An operation looks at the document only: with other warnings before it, it does the same.\<close>

lemma warn_prefix: "warn i name msg (doc, ws @ vs) = (fst (warn i name msg (doc, vs)), ws @ snd (warn i name msg (doc, vs)))"
  by (simp add: warn_def)

lemma apply_op_prefix:
  "apply_op tx paths i op (doc, ws @ vs) =
     map_option (\<lambda>(d, us). (d, ws @ us)) (apply_op tx paths i op (doc, vs))"
  by (cases op)
    (simp_all add: apply_op_def transform_ops warn_prefix Let_def split_beta split: json.split option.split sum.split json_number.split)

text \<open>The loop over operations that carry their index.\<close>

fun apply_indexed ::
  "'d transform_ext \<Rightarrow> (nat \<times> (json \<Rightarrow> json)) list \<Rightarrow> (nat \<times> transform_op) list \<Rightarrow> doc_state \<Rightarrow> doc_state option" where
  "apply_indexed tx paths [] st = Some st"
| "apply_indexed tx paths ((i, op) # ops) st =
     (case apply_op tx paths i op st of
        None \<Rightarrow> None
      | Some st' \<Rightarrow> apply_indexed tx paths ops st')"

lemma apply_ops_indexed: "apply_ops tx paths i ops st = apply_indexed tx paths (enumerate i ops) st"
  by (induction ops arbitrary: i st) (auto split: option.split)

lemma apply_indexed_prefix:
  "apply_indexed tx paths ios (doc, ws @ vs) =
     map_option (\<lambda>(d, us). (d, ws @ us)) (apply_indexed tx paths ios (doc, vs))"
proof (induction tx paths ios "(doc, vs)" arbitrary: doc vs rule: apply_indexed.induct)
  case (2 tx paths i op ops)
  then show ?case
    by (cases "apply_op tx paths i op (doc, vs)") (auto simp: apply_op_prefix [of tx paths i op doc ws vs])
qed simp

lemma apply_indexed_skip:
  assumes "apply_indexed tx paths ios (doc, []) = Some (doc', ws)" "distinct (map fst ios)"
  shows "tw_op_index ` set ws \<subseteq> fst ` set ios \<and>
    subseq (map tw_op_index ws) (map fst ios) \<and>
    apply_indexed tx paths (filter (\<lambda>(i, _). i \<notin> tw_op_index ` set ws) ios) (doc, []) = Some (doc', [])"
  using assms
proof (induction ios arbitrary: doc ws)
  case (Cons io ios)
  obtain i op where io: "io = (i, op)" by (cases io)
  from Cons.prems(1) obtain d vs where a: "apply_op tx paths i op (doc, []) = Some (d, vs)"
    "apply_indexed tx paths ios (d, vs @ []) = Some (doc', ws)"
    by (auto simp: io split: option.splits)
  from a(2) obtain us where us: "apply_indexed tx paths ios (d, []) = Some (doc', us)" "ws = vs @ us"
    unfolding apply_indexed_prefix by auto
  have IH: "tw_op_index ` set us \<subseteq> fst ` set ios \<and> subseq (map tw_op_index us) (map fst ios) \<and>
    apply_indexed tx paths (filter (\<lambda>(i, _). i \<notin> tw_op_index ` set us) ios) (d, []) = Some (doc', [])"
    using Cons.IH [OF us(1)] Cons.prems(2) by simp
  from Cons.prems(2) have i: "i \<notin> fst ` set ios" by (auto simp: io)
  then have iu: "i \<notin> tw_op_index ` set us" using IH by blast
  from apply_op_effect [OF a(1)] consider (doc) "vs = []" | (warn) w where "vs = [w]" "tw_op_index w = i" "d = doc"
    by (auto simp: op_effect_def)
  then show ?case
  proof cases
    case doc
    with IH us(2) iu a(1) show ?thesis by (auto simp: io list_emb_Cons)
  next
    case warn
    have "filter (\<lambda>(j, _). j \<notin> tw_op_index ` set ws) (io # ios) =
        filter (\<lambda>(j, _). j \<notin> tw_op_index ` set us) ios"
      using i warn us(2) by (auto simp: io rev_image_eqI intro!: filter_cong)
    with IH us(2) warn show ?thesis by (auto simp: io)
  qed
qed simp

text \<open>An operation whose date format always prints cannot panic.\<close>

definition op_prints :: "'d transform_ext \<Rightarrow> transform_op \<Rightarrow> bool" where
  "op_prints tx op =
     (case op of TypeCoerce _ (DateFormat _ f) \<Rightarrow> (\<forall>d. tx_format_date tx d f \<noteq> None) | _ \<Rightarrow> True)"

lemma coerce_total: "op_prints tx (TypeCoerce field coerce) \<Longrightarrow> coerce_value tx val coerce \<noteq> None"
  by (cases coerce) (auto simp: coerce_value_def op_prints_def split: option.split sum.split)

lemma type_coerce_total:
  "op_prints tx (TypeCoerce field coerce) \<Longrightarrow> apply_type_coerce tx field coerce i st \<noteq> None"
  by (simp add: apply_type_coerce_def coerce_total split: json.split option.split sum.split)

lemma apply_op_total: "op_prints tx op \<Longrightarrow> apply_op tx paths i op st \<noteq> None"
  by (cases op) (simp_all add: apply_op_def type_coerce_total del: not_None_eq)

lemma apply_indexed_total:
  "\<forall>io \<in> set ios. op_prints tx (snd io) \<Longrightarrow> \<exists>st'. apply_indexed tx paths ios st = Some st'"
proof (induction tx paths ios st rule: apply_indexed.induct)
  case (2 tx paths i op ops st)
  then show ?case using apply_op_total [of tx op paths i st] by fastforce
qed simp


section \<open>Well-formed documents\<close>

lemma obj_ok_filter: "obj_ok kvs \<Longrightarrow> obj_ok (filter P kvs)"
  by (auto simp: obj_ok_def sorted_wrt_map intro: sorted_wrt_filter)

lemma json_ok_insert:
  "json_ok (Object kvs) \<Longrightarrow> json_ok v \<Longrightarrow> json_ok (Object (obj_insert k v kvs))"
  by (induction k v kvs rule: obj_insert.induct) (auto simp: obj_ok_def)

lemma json_ok_get: "json_ok (Object kvs) \<Longrightarrow> obj_get k kvs = Some v \<Longrightarrow> json_ok v"
  by (force dest: obj_get_mem)

lemma json_ok_filter: "json_ok (Object kvs) \<Longrightarrow> json_ok (Object (filter P kvs))"
  by (auto simp: obj_ok_filter)

lemma json_ok_remove: "json_ok (Object kvs) \<Longrightarrow> json_ok (Object (obj_remove k kvs))"
  unfolding obj_remove_def by (rule json_ok_filter)

lemma json_ok_fold_remove: "json_ok (Object kvs) \<Longrightarrow> json_ok (Object (fold obj_remove ks kvs))"
  by (induction ks arbitrary: kvs) (simp_all add: json_ok_remove del: json_ok.simps)

lemma json_ok_flatten: "\<forall>x \<in> set xs. json_ok x \<Longrightarrow> \<forall>x \<in> set (flatten_items xs). json_ok x"
  by (induction xs) (auto simp del: json_ok.simps(2) split: json.splits)

lemma json_ok_number:
  "result_number w = Some n \<Longrightarrow> json_ok (Number n)" "number_from_f64 w = Some n \<Longrightarrow> json_ok (Number n)"
  by (auto simp: result_number_def number_from_i64_def number_from_f64_def as_i64_def saturate_i64_def
      i64_min_def i64_max_def split: option.splits if_splits)

lemma json_ok_coerce: "coerce_value tx val coerce = Some (Inr v) \<Longrightarrow> json_ok v"
  by (cases coerce)
    (auto simp: coerce_value_def res_simps ok_or_def json_ok_number Let_def
      split: option.splits sum.splits json.splits if_splits)

lemmas json_ok_intros = json_ok_insert json_ok_filter json_ok_remove json_ok_fold_remove

lemma warn_doc [simp]: "fst (warn i name msg st) = fst st"
  by (simp add: warn_def)

lemma json_ok_type_coerce:
  "json_ok (fst st) \<Longrightarrow> apply_type_coerce tx field coerce i st = Some st' \<Longrightarrow> json_ok (fst st')"
  by (auto simp: apply_type_coerce_def json_ok_coerce json_ok_insert
      simp del: json_ok.simps split: json.splits option.splits sum.splits)

lemma json_ok_extract:
  assumes "json_ok (fst st)" "json_ok (compiled (fst st))"
  shows "json_ok (fst (apply_jsonpath_extract compiled target i st))"
proof -
  let ?ms = "case compiled (fst st) of Array arr \<Rightarrow> arr | Null \<Rightarrow> [] | other \<Rightarrow> [other]"
  have "\<forall>m \<in> set ?ms. json_ok m" using assms(2) by (auto simp del: json_ok.simps(2) split: json.splits)
  then have "json_ok (case ?ms of [m] \<Rightarrow> m | _ \<Rightarrow> Array ?ms)" by (auto split: list.split)
  moreover have "json_ok (Object (case fst st of Object m \<Rightarrow> m | _ \<Rightarrow> []))"
    using assms(1) by (auto simp del: json_ok.simps(2) simp: json_ok.simps(2) [of "[]"] split: json.splits)
  ultimately show ?thesis
    using assms(1) by (simp add: apply_jsonpath_extract_def Let_def json_ok_insert del: json_ok.simps)
qed

lemma json_ok_apply_op:
  assumes "apply_op tx paths i op st = Some st'" "json_ok (fst st)"
    and "\<forall>(j, f) \<in> set paths. \<forall>d. json_ok d \<longrightarrow> json_ok (f d)"
  shows "json_ok (fst st')"
proof (cases op)
  case (JsonpathExtract p target)
  have "json_ok (f (fst st))" if "map_of paths i = Some f" for f
    using map_of_SomeD [OF that] assms(2,3) by auto
  with JsonpathExtract assms(1,2) show ?thesis by (auto simp: apply_op_def json_ok_extract split: option.splits)
next
  case (TypeCoerce field coerce)
  with assms show ?thesis by (auto simp: apply_op_def intro: json_ok_type_coerce)
next
  case (Arithmetic field kind operand)
  with assms show ?thesis
    by (auto simp: apply_op_def apply_arithmetic_def json_ok_insert json_ok_number
        simp del: json_ok.simps split: json.splits option.splits sum.splits)
next
  case (ArrayFlatten field)
  have "json_ok (Object (obj_insert field (Array (flatten_items arr)) kvs))"
    if "json_ok (Object kvs)" "obj_get field kvs = Some (Array arr)" for kvs arr
    by (rule json_ok_insert [OF that(1)]) (use json_ok_get [OF that] json_ok_flatten [of arr] in simp)
  with ArrayFlatten assms(1,2) show ?thesis
    by (auto simp: apply_op_def apply_array_flatten_def simp del: json_ok.simps split: json.splits option.splits)
next
  case (FieldRename f t)
  with assms(1,2) show ?thesis
    by (auto simp: apply_op_def apply_field_rename_def simp del: json_ok.simps
        intro!: json_ok_insert json_ok_remove intro: json_ok_get split: json.splits option.splits)
next
  case (StringOp field kind)
  have "json_ok (String t)" for t by simp
  with StringOp assms(1,2) show ?thesis
    by (auto simp: apply_op_def apply_string_op_def simp del: json_ok.simps
        intro!: json_ok_insert split: json.splits option.splits)
next
  case (SelectFields names)
  with assms(1,2) show ?thesis
    by (auto simp: apply_op_def apply_select_fields_def simp del: json_ok.simps intro: json_ok_filter split: json.splits)
next
  case (DropFields names)
  with assms(1,2) show ?thesis
    by (auto simp: apply_op_def apply_drop_fields_def simp del: json_ok.simps intro: json_ok_fold_remove split: json.splits)
qed

lemma json_ok_apply_indexed:
  assumes "apply_indexed tx paths ios st = Some st'" "json_ok (fst st)"
    and "\<forall>(j, f) \<in> set paths. \<forall>d. json_ok d \<longrightarrow> json_ok (f d)"
  shows "json_ok (fst st')"
  using assms
proof (induction tx paths ios st rule: apply_indexed.induct)
  case (2 tx paths i op ops st)
  then obtain st1 where st1: "apply_op tx paths i op st = Some st1" "apply_indexed tx paths ops st1 = Some st'"
    by (auto split: option.splits)
  show ?case by (rule 2(1) [OF st1 json_ok_apply_op [OF st1(1) 2(3,4)] 2(4)])
qed simp

lemma compile_paths_from:
  "compile_paths tx i ops = Inr paths \<Longrightarrow> (j, f) \<in> set paths \<Longrightarrow> \<exists>p. tx_jsonpath tx p = Inr f"
proof (induction tx i ops arbitrary: paths rule: compile_paths.induct)
  case (2 tx i op ops)
  then show ?case by (cases op) (auto simp: res_simps map_err_def split: sum.splits)
qed simp

text \<open>
  The document keeps the type invariant of the JSON library through every operation: keys sorted and
  unique, negative integers within \<open>i64\<close>. A compiled pipeline keeps it as a whole when the parser
  and the JSONPath expressions of the libraries do.
\<close>

theorem transform_keeps_json_ok:
  assumes "pipeline_new tx config = Inr pl" "json_ok doc"
    and "\<forall>p f d. tx_jsonpath tx p = Inr f \<longrightarrow> json_ok d \<longrightarrow> json_ok (f d)"
    and "apply_ops tx (tp_compiled_paths pl) 0 (tc_ops (tp_config pl)) (doc, []) = Some (doc', ws)"
  shows "json_ok doc'"
proof -
  have "\<forall>(j, f) \<in> set (tp_compiled_paths pl). \<forall>d. json_ok d \<longrightarrow> json_ok (f d)"
    using assms(1,3) by (auto simp: pipeline_new_def res_simps dest: compile_paths_from)
  from json_ok_apply_indexed [OF assms(4) [unfolded apply_ops_indexed] _ this] assms(2) show ?thesis by simp
qed

section \<open>Arithmetic\<close>

definition int_op :: "arith_op \<Rightarrow> int \<Rightarrow> int \<Rightarrow> int" where
  "int_op op a b = (case op of Add \<Rightarrow> a + b | Subtract \<Rightarrow> a - b | Multiply \<Rightarrow> a * b | Divide \<Rightarrow> a div b)"

lemma as_i64_small: "\<bar>i\<bar> < 2 ^ 53 \<Longrightarrow> as_i64 (f64_of_int i) = Some i"
  using f64_of_int_small [of i] by (auto simp: as_i64_def saturate_i64_def i64_min_def i64_max_def)

lemma compute_small:
  assumes "op \<noteq> Divide" "\<bar>a\<bar> < 2 ^ 53" "\<bar>b\<bar> < 2 ^ 53" "\<bar>int_op op a b\<bar> < 2 ^ 53"
  shows "compute_arithmetic (f64_of_int a) op (f64_of_int b) = Inr (f64_of_int (int_op op a b))"
  using assms
  by (cases op) (auto simp: compute_arithmetic_def int_or_float_def as_i64_small checked_i64_def int_op_def
      i64_min_def i64_max_def)

text \<open>
  Sums, differences and products of integers below \<open>2 ^ 53\<close> whose result is below \<open>2 ^ 53\<close> too
  are exact and stored as integers, other fields keep their value, and no warning is added. Division by
  zero leaves the document as it is and warns.
\<close>

theorem arithmetic_exact:
  assumes "obj_ok kvs" "obj_get field kvs = Some (Number (number_from_i64 a))" "\<bar>a\<bar> < 2 ^ 53"
  shows "(op \<noteq> Divide \<and> \<bar>b\<bar> < 2 ^ 53 \<and> \<bar>int_op op a b\<bar> < 2 ^ 53 \<longrightarrow>
      (\<exists>kvs'. apply_arithmetic tx field op (f64_of_int b) i (Object kvs, ws) = (Object kvs', ws) \<and>
         obj_get field kvs' = Some (Number (number_from_i64 (int_op op a b))) \<and>
         (\<forall>k. k \<noteq> field \<longrightarrow> obj_get k kvs' = obj_get k kvs))) \<and>
    fst (apply_arithmetic tx field Divide (f64_of_int 0) i (Object kvs, ws)) = Object kvs \<and>
    length (snd (apply_arithmetic tx field Divide (f64_of_int 0) i (Object kvs, ws))) = Suc (length ws)"
proof -
  have as: "number_as_f64 (number_from_i64 a) = f64_of_int a"
  proof (cases "a < 0")
    case False
    with assms(3) have "uint (word_of_int a :: u64) = a"
      unfolding uint_word_of_int by (intro mod_pos_pos_trivial) auto
    with False show ?thesis by (simp add: number_as_f64_def number_from_i64_def)
  qed (simp add: number_as_f64_def number_from_i64_def)
  have z: "f64_is_zero (f64_of_int 0)"
    by (simp add: f64_is_zero_def f64_of_int_def f64_of_ratio_def f64_decode_def unat_f64_encode Let_def)
  have "\<exists>kvs'. apply_arithmetic tx field op (f64_of_int b) i (Object kvs, ws) = (Object kvs', ws) \<and>
         obj_get field kvs' = Some (Number (number_from_i64 (int_op op a b))) \<and>
         (\<forall>k. k \<noteq> field \<longrightarrow> obj_get k kvs' = obj_get k kvs)"
    if "op \<noteq> Divide" "\<bar>b\<bar> < 2 ^ 53" "\<bar>int_op op a b\<bar> < 2 ^ 53"
  proof -
    have "apply_arithmetic tx field op (f64_of_int b) i (Object kvs, ws) =
        (Object (obj_insert field (Number (number_from_i64 (int_op op a b))) kvs), ws)"
      by (simp add: apply_arithmetic_def assms(2) as compute_small [OF that(1) assms(3) that(2,3)]
          result_number_def as_i64_small [OF that(3)])
    then show ?thesis using assms(1) by simp
  qed
  moreover have "apply_arithmetic tx field Divide (f64_of_int 0) i (Object kvs, ws) =
      warn i ''arithmetic'' (field_msg field '': division by zero'') (Object kvs, ws)"
    by (simp add: apply_arithmetic_def assms(2) compute_arithmetic_def z)
  ultimately show ?thesis by (simp add: warn_def)
qed

lemmas f64_eval = f64_of_int_def f64_of_ratio_def f64_round_def ratio_log_def bit_len.simps div_round_even_def
  f64_encode_def f64_inf_bits_def Let_def

lemma f64_of_large: "f64_of_int 9223372036854775808 = 4890909195324358656"
  "f64_of_int 9223372036854775807 = 4890909195324358656" "f64_of_int 0 = 0"
  "f64_of_int 9007199254740993 = 4845873199050653696" "f64_of_int 9007199254740992 = 4845873199050653696"
  by (simp_all add: f64_eval)

lemma as_i64_eval:
  "as_i64 4890909195324358656 = Some 9223372036854775807" "as_i64 0 = Some 0"
  "as_i64 4845873199050653696 = Some 9007199254740992"
  by (simp_all add: as_i64_def f64_whole_def f64_decode_def f64_ratio_def saturate_i64_def i64_max_def i64_min_def Let_def)

text \<open>
  Numbers go through \<open>f64\<close>, and the largest \<open>i64\<close> is compared as \<open>2 ^ 63\<close>: subtracting
  zero from \<open>2 ^ 63\<close> stores \<open>2 ^ 63 - 1\<close>, and adding zero to \<open>2 ^ 53 + 1\<close> stores
  \<open>2 ^ 53\<close>, in both cases as integers and without a warning.
\<close>

theorem arithmetic_changes_large_integers:
  "apply_arithmetic tx ''n'' Subtract (f64_of_int 0) 0 (Object [(''n'', Number (PosInt 9223372036854775808))], []) =
     (Object [(''n'', Number (PosInt 9223372036854775807))], []) \<and>
   apply_arithmetic tx ''n'' Add (f64_of_int 0) 0 (Object [(''n'', Number (PosInt 9007199254740993))], []) =
     (Object [(''n'', Number (PosInt 9007199254740992))], [])"
  by (simp add: apply_arithmetic_def number_as_f64_def compute_arithmetic_def int_or_float_def checked_i64_def
      f64_of_large as_i64_eval result_number_def number_from_i64_def i64_min_def i64_max_def)

section \<open>Examples\<close>

definition sample_tx :: "nat transform_ext" where
  "sample_tx =
     \<lparr>tx_jsonpath = (\<lambda>p. if p = [] then Inl ''empty'' else Inr (\<lambda>d. Array [d])),
      tx_from_str = (\<lambda>_. Inr (Object [(''a'', Number (PosInt 20)), (''b'', String ''x'')])),
      tx_to_string = (\<lambda>_. Some ''text''), tx_number_to_string = (\<lambda>_. ''1''), tx_f64_to_string = (\<lambda>_. ''1''),
      tx_to_uppercase = to_ascii_uppercase, tx_to_lowercase = to_ascii_lowercase,
      tx_parse_date = (\<lambda>_ _. Inl ''bad date''), tx_format_date = (\<lambda>_ _. Some ''d'')\<rparr>"

definition sample_ops :: "transform_op list" where
  "sample_ops = [FieldRename ''b'' ''c'', ArrayFlatten ''a'', StringOp ''c'' Uppercase, JsonpathExtract ''$'' ''all'']"

definition sample_pipeline :: transform_pipeline where
  "sample_pipeline =
     \<lparr>tp_config = \<lparr>tc_ops = sample_ops\<rparr>, tp_compiled_paths = [(3, \<lambda>d. Array [d])]\<rparr>"

lemma sample_pipeline_new: "pipeline_new sample_tx \<lparr>tc_ops = sample_ops\<rparr> = Inr sample_pipeline"
  by (simp add: pipeline_new_def sample_ops_def sample_tx_def sample_pipeline_def)


theorem transform_keeps_json_ok_witness:
  "\<exists>doc' ws. apply_ops sample_tx (tp_compiled_paths sample_pipeline) 0 sample_ops
      (Object [(''b'', String ''x'')], []) = Some (doc', ws) \<and> json_ok doc'"
proof -
  have "\<exists>r. apply_ops sample_tx (tp_compiled_paths sample_pipeline) 0 sample_ops
      (Object [(''b'', String ''x'')], []) = Some r"
    unfolding apply_ops_indexed by (rule apply_indexed_total) (simp add: sample_ops_def op_prints_def)
  then obtain doc' ws where r: "apply_ops sample_tx (tp_compiled_paths sample_pipeline) 0
      (tc_ops (tp_config sample_pipeline)) (Object [(''b'', String ''x'')], []) = Some (doc', ws)"
    by (auto simp: sample_pipeline_def)
  have "json_ok doc'"
    by (rule transform_keeps_json_ok [OF sample_pipeline_new _ _ r])
      (auto simp: sample_tx_def obj_ok_def split: if_splits)
  with r show ?thesis by (auto simp: sample_pipeline_def)
qed

theorem arithmetic_exact_witness:
  "\<exists>kvs'. apply_arithmetic sample_tx ''a'' Multiply (f64_of_int (- 3)) 0
      (Object [(''a'', Number (PosInt 14))], []) = (Object kvs', []) \<and>
     obj_get ''a'' kvs' = Some (Number (NegInt (- 42)))"
  using arithmetic_exact [of "[(''a'', Number (PosInt 14))]" "''a''" 14 Multiply "- 3" sample_tx 0 "[]"]
  by (simp add: number_from_i64_def int_op_def obj_ok_def) blast

end
