(* ===== verification/Router.thy ===== *)
theory Router
  imports Tool_Schema Sidecar Json_Rpc Logging Transform
begin

text \<open>
  The request router (\<open>services/gateway/src/router.rs\<close>): resolution of a server slug, the method
  handlers, and the pipeline of a tool call through the request builder, the executor and the transform
  engine, with the log record of each request. The third-party code that the stages call is collected in
  \<open>router_ext\<close>; the clock and the network of one request are in \<open>dispatch_env\<close>.
\<close>

section \<open>Codes and messages\<close>

definition CODE_SERVER_NOT_FOUND :: int where "CODE_SERVER_NOT_FOUND = - 32001"
definition CODE_UPSTREAM_UNAVAILABLE :: int where "CODE_UPSTREAM_UNAVAILABLE = - 32002"
definition CODE_UPSTREAM_ERROR :: int where "CODE_UPSTREAM_ERROR = - 32003"
definition CODE_CIRCUIT_OPEN :: int where "CODE_CIRCUIT_OPEN = - 32004"

lemmas router_codes = CODE_SERVER_NOT_FOUND_def CODE_UPSTREAM_UNAVAILABLE_def CODE_UPSTREAM_ERROR_def
  CODE_CIRCUIT_OPEN_def rpc_codes

text \<open>The \<open>Display\<close> texts that reach a response.\<close>

fun build_error_text :: "build_error \<Rightarrow> string" where
  "build_error_text (MissingPathParam p) = ''missing required path parameter: '' @ p"
| "build_error_text InsecureUrl = ''base_url must use HTTPS; set GATEWAY_ALLOW_HTTP=true to override''"
| "build_error_text (UrlTooLong n) =
     ''constructed URL is '' @ show_nat n @ '' characters, exceeding the 8,192 character limit''"
| "build_error_text (InvalidBodyTemplate e) = ''invalid body template: '' @ e"
| "build_error_text (InvalidConfig e) = ''invalid server config_json: '' @ e"
| "build_error_text (ToolNotFound t) = ''tool not found in server config: '' @ t"

fun transform_error_text :: "transform_error \<Rightarrow> string" where
  "transform_error_text (ResponseTooLarge n limit) =
     ''response body is '' @ show_nat n @ '' bytes; maximum allowed is '' @ show_nat limit @ '' bytes''"
| "transform_error_text (InvalidJson e) = ''upstream response is not valid JSON: '' @ e"

fun pipeline_error_text :: "pipeline_build_error \<Rightarrow> string" where
  "pipeline_error_text (InvalidJsonPath index reason) =
     ''invalid JSONPath expression at op['' @ show_nat index @ '']: '' @ reason"

definition warning_text :: "transform_warning \<Rightarrow> string" where
  "warning_text w = ''['' @ show_nat (tw_op_index w) @ '':'' @ tw_op_name w @ ''] '' @ tw_message w"

section \<open>State\<close>

record 's upstream_pipeline =
  up_executor :: "'s upstream_executor"
  up_request_builder :: upstream_request_builder

definition pipeline_of :: "'s upstream_executor \<Rightarrow> upstream_request_builder \<Rightarrow> 's upstream_pipeline" where
  "pipeline_of executor request_builder = \<lparr>up_executor = executor, up_request_builder = request_builder\<rparr>"

record tools_call_log_meta =
  tm_tool_name :: "string option"
  tm_upstream_url :: "string option"
  tm_upstream_status :: "u16 option"
  tm_upstream_latency_ms :: "u64 option"
  tm_response_size_bytes :: "nat option"
  tm_transform_warnings :: "string list"

definition meta_default :: tools_call_log_meta where
  "meta_default =
     \<lparr>tm_tool_name = None, tm_upstream_url = None, tm_upstream_status = None, tm_upstream_latency_ms = None,
      tm_response_size_bytes = None, tm_transform_warnings = []\<rparr>"

record tools_call_outcome =
  to_result :: "json_rpc_error + json"
  to_meta :: tools_call_log_meta

definition outcome_error :: "tools_call_log_meta \<Rightarrow> json_rpc_error \<Rightarrow> tools_call_outcome" where
  "outcome_error meta err = \<lparr>to_result = Inl err, to_meta = meta\<rparr>"

record ('s, 'c) router =
  rt_cache :: config_cache
  rt_upstream :: "'s upstream_pipeline"
  rt_schema_cache :: schema_cache
  rt_logger :: request_logger
  rt_log :: "'c log_state"

definition router_new ::
  "config_cache \<Rightarrow> 's upstream_pipeline \<Rightarrow> request_logger \<Rightarrow> 'c log_state \<Rightarrow> ('s, 'c) router" where
  "router_new cache upstream logger log_state =
     \<lparr>rt_cache = cache, rt_upstream = upstream, rt_schema_cache = schema_cache_new, rt_logger = logger,
      rt_log = log_state\<rparr>"

record ('s, 'c, 'd, 'u) router_ext =
  rx_semaphore :: "'s semaphore_api"
  rx_mpsc :: "(log_msg, 'c) mpsc_api"
  rx_url :: "'u url_api"
  rx_upstream :: upstream_ext
  rx_sidecar :: sidecar_ext
  rx_transform :: "'d transform_ext"
  rx_params_from_value :: "json \<Rightarrow> string + tool_call_params"

record dispatch_env =
  de_elapsed_ms :: u64
  de_now :: string
  de_trace_id :: "string option"
  de_call :: call_env

section \<open>Responses\<close>

definition rpc_error :: "int \<Rightarrow> string \<Rightarrow> json option \<Rightarrow> json_rpc_error" where
  "rpc_error code message data = \<lparr>je_code = code, je_message = message, je_data = data\<rparr>"

definition make_ok_response :: "json option \<Rightarrow> json \<Rightarrow> json_rpc_response" where
  "make_ok_response rid result =
     \<lparr>jr_jsonrpc = ''2.0'', jr_result = Some result, jr_error = None, jr_id = rid\<rparr>"

definition make_error_response :: "json option \<Rightarrow> int \<Rightarrow> string \<Rightarrow> json option \<Rightarrow> json_rpc_response" where
  "make_error_response rid code message data =
     \<lparr>jr_jsonrpc = ''2.0'', jr_result = None, jr_error = Some (rpc_error code message data), jr_id = rid\<rparr>"

fun execute_error_to_jsonrpc_error :: "execute_error \<Rightarrow> json_rpc_error" where
  "execute_error_to_jsonrpc_error (CircuitOpen ms) =
     rpc_error CODE_CIRCUIT_OPEN ''Upstream temporarily unavailable''
       (Some (json_obj [(''retry_after_ms'', Number (PosInt ms))]))"
| "execute_error_to_jsonrpc_error SidecarUnavailable =
     rpc_error CODE_UPSTREAM_UNAVAILABLE ''Upstream unavailable''
       (Some (json_obj [(''reason'', String ''credential_service_unreachable'')]))"
| "execute_error_to_jsonrpc_error Timeout = rpc_error CODE_UPSTREAM_UNAVAILABLE ''Upstream timeout'' None"
| "execute_error_to_jsonrpc_error (UpstreamError status) =
     rpc_error CODE_UPSTREAM_ERROR ''Upstream error''
       (Some (json_obj [(''status'', Number (PosInt (ucast status)))]))"

section \<open>Handlers\<close>

definition resolve_slug :: "string \<Rightarrow> config_cache \<Rightarrow> server_config option \<times> config_cache" where
  "resolve_slug slug cache =
     (case slug_to_id slug cache of None \<Rightarrow> (None, cache) | Some sid \<Rightarrow> cache_get sid cache)"

definition handle_initialize :: "server_config \<Rightarrow> json" where
  "handle_initialize config =
     json_obj [(''protocolVersion'', String ''2025-03-26''),
       (''capabilities'', json_obj [(''tools'', json_obj [])]),
       (''serverInfo'', json_obj [(''name'', String (sc_name config)), (''version'', String ''1.0.0'')])]"

definition handle_tools_list :: "upstream_ext \<Rightarrow> server_config \<Rightarrow> schema_cache \<Rightarrow> json \<times> schema_cache" where
  "handle_tools_list ux config sc =
     (let (tools, sc') = get_or_generate ux config sc in (tools_list_json \<lparr>tl_tools = tools\<rparr>, sc'))"

text \<open>
  The checks before anything is sent: the request to send with the authentication type, or the error.
\<close>

definition prepare_call ::
  "('s, 'c, 'd, 'u) router_ext \<Rightarrow> upstream_request_builder \<Rightarrow> server_config \<Rightarrow> json option
   \<Rightarrow> (tools_call_log_meta \<times> json_rpc_error) + (tools_call_log_meta \<times> gateway_config \<times> upstream_request)" where
  "prepare_call rx b config params =
     (case params of
        None \<Rightarrow> Inl (meta_default, rpc_error INVALID_PARAMS ''tools/call requires a params object'' None)
      | Some p \<Rightarrow>
          (case rx_params_from_value rx p of
             Inl e \<Rightarrow> Inl (meta_default, rpc_error INVALID_PARAMS (''Invalid tools/call params: '' @ e) None)
           | Inr tool_params \<Rightarrow>
               let meta = meta_default\<lparr>tm_tool_name := Some (tc_name tool_params)\<rparr> in
               (case ux_from_value (rx_upstream rx) (sc_config_json config) of
                  Inl e \<Rightarrow> Inl (meta, rpc_error INTERNAL_ERROR (''Invalid server config_json: '' @ e) None)
                | Inr gw_config \<Rightarrow>
                    if \<not> list_ex (\<lambda>t. td_name t = tc_name tool_params) (gc_tools gw_config) then
                      Inl (meta, rpc_error INVALID_PARAMS (''Unknown tool: '' @ tc_name tool_params) None)
                    else
                      (case build (rx_upstream rx) b config tool_params of
                         Inl e \<Rightarrow> Inl (meta, rpc_error INVALID_PARAMS (build_error_text e) None)
                       | Inr req \<Rightarrow>
                           Inr (meta\<lparr>tm_upstream_url :=
                                  map_option (sanitise_url (rx_url rx)) (ul_parse (rx_url rx) (ur_url req))\<rparr>,
                                gw_config, req)))))"

text \<open>The stages after the upstream has answered. The outer \<open>None\<close> is a panic of the pipeline.\<close>

definition finish_call ::
  "('s, 'c, 'd, 'u) router_ext \<Rightarrow> tools_call_log_meta \<Rightarrow> upstream_response \<Rightarrow> tools_call_outcome option" where
  "finish_call rx meta0 resp =
     (let meta = meta0\<lparr>tm_upstream_status := Some (us_status resp),
            tm_upstream_latency_ms := Some (us_latency_ms resp),
            tm_response_size_bytes := Some (length (us_body resp))\<rparr>;
          body_str = from_utf8_lossy (map unat (us_body resp))
      in case pipeline_new (rx_transform rx) \<lparr>tc_ops = []\<rparr> of
           Inl e \<Rightarrow> Some (outcome_error meta
             (rpc_error INTERNAL_ERROR (''Failed to build transform pipeline: '' @ pipeline_error_text e) None))
         | Inr pipeline \<Rightarrow>
             (case apply_pipeline (rx_transform rx) pipeline body_str of
                None \<Rightarrow> None
              | Some (Inl e) \<Rightarrow> Some (outcome_error meta
                  (rpc_error INTERNAL_ERROR (''Transform failed: '' @ transform_error_text e) None))
              | Some (Inr (content, warnings)) \<Rightarrow>
                  Some \<lparr>to_result = Inr (json_obj [(''content'', content)]),
                        to_meta = meta\<lparr>tm_transform_warnings := map warning_text warnings\<rparr>\<rparr>))"

text \<open>\<open>None\<close>: the call never returns, because it waits for a permit or a stage panicked.\<close>

definition handle_tools_call ::
  "('s, 'c, 'd, 'u) router_ext \<Rightarrow> call_env \<Rightarrow> server_config \<Rightarrow> json option \<Rightarrow> 's upstream_pipeline
   \<Rightarrow> (tools_call_outcome \<times> 's upstream_pipeline) option" where
  "handle_tools_call rx env config params up =
     (case prepare_call rx (up_request_builder up) config params of
        Inl (meta, err) \<Rightarrow> Some (outcome_error meta err, up)
      | Inr (meta, gw_config, req) \<Rightarrow>
          (case execute (rx_semaphore rx) (rx_sidecar rx) env (sc_id config) req (gc_auth_type gw_config)
                  (up_executor up) of
             None \<Rightarrow> None
           | Some (Inl e, ex) \<Rightarrow>
               Some (outcome_error meta (execute_error_to_jsonrpc_error e), up\<lparr>up_executor := ex\<rparr>)
           | Some (Inr resp, ex) \<Rightarrow>
               map_option (\<lambda>out. (out, up\<lparr>up_executor := ex\<rparr>)) (finish_call rx meta resp)))"

section \<open>Dispatch\<close>

definition base_record :: "dispatch_env \<Rightarrow> ('s, 'c) router \<Rightarrow> server_config \<Rightarrow> string \<Rightarrow> string \<Rightarrow> log_record" where
  "base_record env rt config slug method =
     new_record (de_now env) (de_trace_id env) (rt_logger rt) (sc_id config) slug method (de_elapsed_ms env)"

definition write_log ::
  "('s, 'c, 'd, 'u) router_ext \<Rightarrow> log_record \<Rightarrow> ('s, 'c) router \<Rightarrow> ('s, 'c) router" where
  "write_log rx r rt = rt\<lparr>rt_log := log (rx_mpsc rx) r (rt_log rt)\<rparr>"

definition log_if_debug ::
  "('s, 'c, 'd, 'u) router_ext \<Rightarrow> dispatch_env \<Rightarrow> server_config \<Rightarrow> string \<Rightarrow> string \<Rightarrow> ('s, 'c) router
   \<Rightarrow> ('s, 'c) router" where
  "log_if_debug rx env config slug method rt =
     (if is_debug_enabled (rt_logger rt) then write_log rx (base_record env rt config slug method) rt else rt)"

definition call_record ::
  "dispatch_env \<Rightarrow> ('s, 'c) router \<Rightarrow> server_config \<Rightarrow> string \<Rightarrow> string option \<Rightarrow> tools_call_log_meta \<Rightarrow> log_record" where
  "call_record env rt config slug token_prefix meta =
     (base_record env rt config slug ''tools/call'')
       \<lparr>lr_tool_name := tm_tool_name meta, lr_upstream_url := tm_upstream_url meta,
        lr_upstream_status := tm_upstream_status meta, lr_upstream_latency_ms := tm_upstream_latency_ms meta,
        lr_response_size_bytes := tm_response_size_bytes meta,
        lr_transform_warnings := tm_transform_warnings meta, lr_token_prefix := token_prefix\<rparr>"

definition dispatch_request ::
  "('s, 'c, 'd, 'u) router_ext \<Rightarrow> dispatch_env \<Rightarrow> string \<Rightarrow> parsed_request \<Rightarrow> string option \<Rightarrow> ('s, 'c) router
   \<Rightarrow> (json_rpc_response \<times> ('s, 'c) router) option" where
  "dispatch_request rx env slug request token_prefix rt0 =
     (let rid = pr_id request;
          (found, cache) = resolve_slug slug (rt_cache rt0);
          rt = rt0\<lparr>rt_cache := cache\<rparr>
      in case found of
           None \<Rightarrow> Some (make_error_response rid CODE_SERVER_NOT_FOUND ''Server not found'' None, rt)
         | Some config \<Rightarrow>
             if pr_method request = ''initialize'' then
               Some (make_ok_response rid (handle_initialize config), log_if_debug rx env config slug ''initialize'' rt)
             else if pr_method request = ''initialized'' then
               Some (\<lparr>jr_jsonrpc = ''2.0'', jr_result = None, jr_error = None, jr_id = Some Null\<rparr>, rt)
             else if pr_method request = ''ping'' then
               Some (make_ok_response rid (json_obj []), log_if_debug rx env config slug ''ping'' rt)
             else if pr_method request = ''tools/list'' then
               (let (result, sc) = handle_tools_list (rx_upstream rx) config (rt_schema_cache rt);
                    rt1 = rt\<lparr>rt_schema_cache := sc\<rparr>;
                    record = (base_record env rt1 config slug ''tools/list'')\<lparr>lr_token_prefix := token_prefix\<rparr>
                in Some (make_ok_response rid result, write_log rx record rt1))
             else if pr_method request = ''tools/call'' then
               (case handle_tools_call rx (de_call env) config (pr_params request) (rt_upstream rt) of
                  None \<Rightarrow> None
                | Some (outcome, up) \<Rightarrow>
                    let rt1 = rt\<lparr>rt_upstream := up\<rparr>;
                        record = call_record env rt1 config slug token_prefix (to_meta outcome)
                    in Some (case to_result outcome of
                               Inr v \<Rightarrow> make_ok_response rid v
                             | Inl err \<Rightarrow> \<lparr>jr_jsonrpc = ''2.0'', jr_result = None, jr_error = Some err, jr_id = rid\<rparr>,
                             write_log rx record rt1))
             else Some (make_error_response rid METHOD_NOT_FOUND ''Method not found'' None, rt))"

section \<open>Tool calls\<close>

lemma rpc_error_simps [simp]:
  "je_code (rpc_error c m d) = c" "je_message (rpc_error c m d) = m" "je_data (rpc_error c m d) = d"
  by (simp_all add: rpc_error_def)

lemma outcome_error_simps [simp]:
  "to_result (outcome_error meta err) = Inl err" "to_meta (outcome_error meta err) = meta"
  by (simp_all add: outcome_error_def)

lemma prepare_error_code:
  "prepare_call rx b config params = Inl (meta, err) \<Longrightarrow> je_code err \<in> {- 32602, - 32603}"
  by (auto simp: prepare_call_def Let_def router_codes split: option.splits sum.splits if_splits)

lemma execute_error_code:
  "je_code (execute_error_to_jsonrpc_error e) \<in> {- 32002, - 32003, - 32004} \<and>
   (je_code (execute_error_to_jsonrpc_error e) = - 32004 \<longleftrightarrow> (\<exists>ms. e = CircuitOpen ms)) \<and>
   (je_code (execute_error_to_jsonrpc_error e) = - 32003 \<longleftrightarrow> (\<exists>st. e = UpstreamError st))"
  by (cases e) (simp_all add: router_codes)

lemma finish_total:
  "\<exists>out. finish_call rx meta resp = Some out \<and> (\<forall>err. to_result out = Inl err \<longrightarrow> je_code err = - 32603)"
  by (auto simp: finish_call_def pipeline_new_def apply_pipeline_def router_codes Let_def split: sum.split)

lemma handle_tools_call_cases:
  assumes "handle_tools_call rx env config params up = Some (out, up')"
  obtains (Refused) meta err where "prepare_call rx (up_request_builder up) config params = Inl (meta, err)"
      "out = outcome_error meta err" "up' = up"
  | (Failed) meta gw req e ex where "prepare_call rx (up_request_builder up) config params = Inr (meta, gw, req)"
      "execute (rx_semaphore rx) (rx_sidecar rx) env (sc_id config) req (gc_auth_type gw) (up_executor up) = Some (Inl e, ex)"
      "out = outcome_error meta (execute_error_to_jsonrpc_error e)" "up' = up\<lparr>up_executor := ex\<rparr>"
  | (Answered) meta gw req resp ex where "prepare_call rx (up_request_builder up) config params = Inr (meta, gw, req)"
      "execute (rx_semaphore rx) (rx_sidecar rx) env (sc_id config) req (gc_auth_type gw) (up_executor up) = Some (Inr resp, ex)"
      "finish_call rx meta resp = Some out" "up' = up\<lparr>up_executor := ex\<rparr>"
  using assms unfolding handle_tools_call_def
  by (cases "prepare_call rx (up_request_builder up) config params") (auto split: option.splits sum.splits)

text \<open>
  C10: The error codes of a tool call tell what happened. A refused call (-32602) has not touched the
  executor. The code is -32004 exactly when the arguments were accepted and the circuit breaker of
  the server refuses, and then no connection was used. It is -32003 exactly when the upstream answered
  with an error status. A result means that the upstream was called and answered with success.
\<close>

theorem tools_call_codes:
  assumes "handle_tools_call rx env config params up = Some (out, up')"
    and "cb_inv (breaker_of (up_executor up) (sc_id config))"
  shows "case to_result out of
      Inl err \<Rightarrow>
        je_code err \<in> {- 32602, - 32603, - 32002, - 32003, - 32004} \<and>
        (je_code err = - 32602 \<longrightarrow> up' = up) \<and>
        (je_code err = - 32004 \<longleftrightarrow>
           (\<exists>r. prepare_call rx (up_request_builder up) config params = Inr r) \<and>
           \<not> fst (spec_check (ce_check_time env) (cb_abs (breaker_of (up_executor up) (sc_id config))))) \<and>
        (je_code err = - 32004 \<longrightarrow> ue_pool (up_executor up') = ue_pool (up_executor up)) \<and>
        (je_code err = - 32003 \<longleftrightarrow>
           (\<exists>meta gw req st. prepare_call rx (up_request_builder up) config params = Inr (meta, gw, req) \<and>
              execute (rx_semaphore rx) (rx_sidecar rx) env (sc_id config) req (gc_auth_type gw) (up_executor up) =
                Some (Inl (UpstreamError st), up_executor up')))
    | Inr v \<Rightarrow>
        \<exists>meta gw req resp. prepare_call rx (up_request_builder up) config params = Inr (meta, gw, req) \<and>
          execute (rx_semaphore rx) (rx_sidecar rx) env (sc_id config) req (gc_auth_type gw) (up_executor up) =
            Some (Inr resp, up_executor up')"
  using assms(1)
proof (cases rule: handle_tools_call_cases)
  case (Refused meta err)
  then show ?thesis using prepare_error_code [OF Refused(1)] by auto
next
  case (Failed meta gw req e ex)
  from execute_follows [OF Failed(2) assms(2)] execute_error_code [of e] Failed show ?thesis by auto
next
  case (Answered meta gw req resp ex)
  obtain out' where "finish_call rx meta resp = Some out'"
    "\<forall>err. to_result out' = Inl err \<longrightarrow> je_code err = - 32603" using finish_total by blast
  with execute_follows [OF Answered(2) assms(2)] Answered show ?thesis by (auto split: sum.split)
qed

section \<open>Responses\<close>

lemma tools_call_no_server_code:
  assumes "handle_tools_call rx env config params up = Some (out, up')" "to_result out = Inl err"
  shows "je_code err \<noteq> - 32001"
  using assms(1)
proof (cases rule: handle_tools_call_cases)
  case (Refused meta err')
  with prepare_error_code [OF Refused(1)] assms(2) show ?thesis by auto
next
  case (Failed meta gw req e ex)
  with execute_error_code [of e] assms(2) show ?thesis by auto
next
  case (Answered meta gw req resp ex)
  with finish_total [of rx meta resp] assms(2) show ?thesis by auto
qed

lemma dispatch_cases:
  assumes "dispatch_request rx env slug req tok rt = Some (resp, rt')"
  obtains (Unknown) "fst (resolve_slug slug (rt_cache rt)) = None"
      "resp = make_error_response (pr_id req) CODE_SERVER_NOT_FOUND ''Server not found'' None" "rt_log rt' = rt_log rt"
  | (Debug_Method) config where "fst (resolve_slug slug (rt_cache rt)) = Some config"
      "pr_method req \<in> {''initialize'', ''ping''}" "\<exists>v. resp = make_ok_response (pr_id req) v"
      "rt_log rt' = (if is_debug_enabled (rt_logger rt) then
         log (rx_mpsc rx) (base_record env rt config slug (pr_method req)) (rt_log rt) else rt_log rt)"
  | (Initialized) config where "fst (resolve_slug slug (rt_cache rt)) = Some config" "pr_method req = ''initialized''"
      "resp = \<lparr>jr_jsonrpc = ''2.0'', jr_result = None, jr_error = None, jr_id = Some Null\<rparr>" "rt_log rt' = rt_log rt"
  | (Listed) config where "fst (resolve_slug slug (rt_cache rt)) = Some config" "pr_method req = ''tools/list''"
      "resp = make_ok_response (pr_id req) (fst (handle_tools_list (rx_upstream rx) config (rt_schema_cache rt)))"
      "rt_log rt' = log (rx_mpsc rx)
         ((base_record env rt config slug ''tools/list'')\<lparr>lr_token_prefix := tok\<rparr>) (rt_log rt)"
  | (Called) config out up where "fst (resolve_slug slug (rt_cache rt)) = Some config" "pr_method req = ''tools/call''"
      "handle_tools_call rx (de_call env) config (pr_params req) (rt_upstream rt) = Some (out, up)"
      "resp = (case to_result out of Inr v \<Rightarrow> make_ok_response (pr_id req) v
         | Inl err \<Rightarrow> \<lparr>jr_jsonrpc = ''2.0'', jr_result = None, jr_error = Some err, jr_id = pr_id req\<rparr>)"
      "rt_upstream rt' = up"
      "rt_log rt' = log (rx_mpsc rx) (call_record env rt config slug tok (to_meta out)) (rt_log rt)"
  | (Other) config where "fst (resolve_slug slug (rt_cache rt)) = Some config"
      "pr_method req \<notin> set RECOGNIZED_METHODS"
      "resp = make_error_response (pr_id req) METHOD_NOT_FOUND ''Method not found'' None" "rt_log rt' = rt_log rt"
proof (cases "fst (resolve_slug slug (rt_cache rt))")
  case None
  with assms Unknown show thesis by (auto simp: dispatch_request_def split_beta Let_def)
next
  case (Some config)
  note d = assms [unfolded dispatch_request_def split_beta Let_def Some option.case]
  have br: "base_record env (rt\<lparr>rt_cache := c\<rparr>) config slug m = base_record env rt config slug m"
    "base_record env (rt\<lparr>rt_cache := c, rt_schema_cache := sc\<rparr>) config slug m = base_record env rt config slug m"
    "call_record env (rt\<lparr>rt_cache := c, rt_upstream := up\<rparr>) config slug tok meta = call_record env rt config slug tok meta"
    for c sc up m meta by (simp_all add: base_record_def call_record_def)
  consider "pr_method req \<in> {''initialize'', ''ping''}" | "pr_method req = ''initialized''"
    | "pr_method req = ''tools/list''" | "pr_method req = ''tools/call''" | "pr_method req \<notin> set RECOGNIZED_METHODS"
    by (auto simp: RECOGNIZED_METHODS_def)
  then show thesis
  proof cases
    case 1
    with d show thesis
      by (intro Debug_Method [OF Some 1]) (auto simp: log_if_debug_def write_log_def br)
  next
    case 2
    with d show thesis by (intro Initialized [OF Some 2]) auto
  next
    case 3
    with d show thesis by (intro Listed [OF Some 3]) (auto simp: write_log_def br)
  next
    case 4
    with d show thesis
      by (auto simp: write_log_def br split: option.splits intro: Called [OF Some 4])
  next
    case 5
    with d show thesis by (intro Other [OF Some 5]) (auto simp: RECOGNIZED_METHODS_def)
  qed
qed

text \<open>
  C12: Every response has version 2.0. The acknowledgement of \<open>initialized\<close> has neither a result nor an
  error and a null id; every other response echoes the id of the request and has either a result or an
  error. The code -32001 is answered exactly when the slug does not lead to a server in the cache.
\<close>

theorem dispatch_response_shape:
  assumes "dispatch_request rx env slug req tok rt = Some (resp, rt')"
  defines "known \<equiv> fst (resolve_slug slug (rt_cache rt)) \<noteq> None"
  shows "jr_jsonrpc resp = ''2.0'' \<and>
    (if known \<and> pr_method req = ''initialized''
     then jr_result resp = None \<and> jr_error resp = None \<and> jr_id resp = Some Null
     else jr_id resp = pr_id req \<and> (jr_result resp = None \<longleftrightarrow> jr_error resp \<noteq> None)) \<and>
    (map_option je_code (jr_error resp) = Some (- 32001) \<longleftrightarrow> \<not> known)"
  using assms(1)
proof (cases rule: dispatch_cases)
  case (Called config out up)
  with tools_call_no_server_code [OF Called(3)] show ?thesis
    by (auto simp: known_def make_ok_response_def split: sum.split)
qed (auto simp: known_def make_ok_response_def make_error_response_def router_codes RECOGNIZED_METHODS_def)

lemma call_url_sanitised:
  assumes "handle_tools_call rx env config params up = Some (out, up')" "tm_upstream_url (to_meta out) = Some t"
  shows "\<exists>u. t = sanitise_url (rx_url rx) u"
proof -
  have prep: "\<exists>u. t = sanitise_url (rx_url rx) u"
    if "tm_upstream_url meta = Some t"
      "prepare_call rx (up_request_builder up) config params = Inl (meta, err) \<or>
       prepare_call rx (up_request_builder up) config params = Inr (meta, gw, req)" for meta err gw req
    using that
    by (auto simp: prepare_call_def meta_default_def Let_def split: option.splits sum.splits if_splits)
  have fin: "tm_upstream_url (to_meta out) = tm_upstream_url meta" if "finish_call rx meta resp = Some out" for meta resp
    using that by (auto simp: finish_call_def Let_def split: option.splits sum.splits)
  from assms(1) show ?thesis
    by (cases rule: handle_tools_call_cases) (use prep fin assms(2) in \<open>fastforce+\<close>)
qed

text \<open>
  Every \<open>tools/list\<close> and \<open>tools/call\<close> for a known server hands exactly one record to the
  logger, with the server, the slug, the method and the token prefix; \<open>initialize\<close> and \<open>ping\<close> do so
  only at debug level; nothing else is logged. The URL in the record of a call is the sanitised one of
  the request that was built.
\<close>

theorem dispatch_logs_once:
  assumes "dispatch_request rx env slug req tok rt = Some (resp, rt')"
  shows "case fst (resolve_slug slug (rt_cache rt)) of
      None \<Rightarrow> rt_log rt' = rt_log rt
    | Some config \<Rightarrow>
        if pr_method req \<in> {''tools/list'', ''tools/call''} \<or>
           (is_debug_enabled (rt_logger rt) \<and> pr_method req \<in> {''initialize'', ''ping''})
        then \<exists>r. rt_log rt' = log (rx_mpsc rx) r (rt_log rt) \<and> lr_server_id r = sc_id config \<and>
          lr_server_slug r = slug \<and> lr_method r = pr_method req \<and>
          (pr_method req \<in> {''tools/list'', ''tools/call''} \<longrightarrow> lr_token_prefix r = tok) \<and>
          (\<forall>t. lr_upstream_url r = Some t \<longrightarrow> (\<exists>u. t = sanitise_url (rx_url rx) u))
        else rt_log rt' = rt_log rt"
  using assms
proof (cases rule: dispatch_cases)
  case (Called config out up)
  then show ?thesis
    using call_url_sanitised [OF Called(3)] by (auto simp: call_record_def base_record_def new_record_def)
qed (auto simp: base_record_def new_record_def RECOGNIZED_METHODS_def)

section \<open>Listed tools can be called\<close>

lemma find_distinct:
  "distinct (map f xs) \<Longrightarrow> x \<in> set xs \<Longrightarrow> find (\<lambda>y. f y = f x) xs = Some x"
  by (induction xs) auto

lemma build_no_path_error:
  assumes "ux_from_value ux (sc_config_json config) = Inr gw"
    and "find (\<lambda>t. td_name t = tc_name call) (gc_tools gw) = Some tool"
    and "interpolate_path ux (td_path_template tool) (tc_arguments call) = Inr path"
    and "build ux b config call = Inl e"
  shows "e = InsecureUrl \<or> (\<exists>n. e = UrlTooLong n) \<or> (\<exists>m. e = InvalidBodyTemplate m)"
  using assms by (auto simp: build_def Let_def res_simps map_err_def split: if_splits option.splits sum.splits)

text \<open>
  What \<open>tools/list\<close> shows can be called. With unique tool names and well-formed path templates, a
  call of a listed tool with every argument its listed schema requires is never refused as unknown, as
  badly configured or for a missing path parameter: either a request is built, or the URL is insecure
  or too long, or the body template cannot be filled.
\<close>

theorem listed_tools_callable:
  assumes "percent_encode_ok (rx_upstream rx)"
    and "ux_from_value (rx_upstream rx) (sc_config_json config) = Inr gw" "distinct (map td_name (gc_tools gw))"
    and "\<forall>tool \<in> set (gc_tools gw). \<exists>segs. segments_ok segs \<and> td_path_template tool = render segs"
    and "t \<in> set (generate_tool_schemas (rx_upstream rx) config)"
    and "rx_params_from_value rx p = Inr \<lparr>tc_name = mt_name t, tc_arguments = args\<rparr>"
    and "\<forall>n \<in> set (is_required (mt_input_schema t)). obj_get n args \<noteq> None"
  shows "case prepare_call rx b config (Some p) of
      Inr (_, gw', req) \<Rightarrow> gw' = gw
    | Inl (_, err) \<Rightarrow> \<exists>e. je_code err = - 32602 \<and> je_message err = build_error_text e \<and>
        (e = InsecureUrl \<or> (\<exists>n. e = UrlTooLong n) \<or> (\<exists>m. e = InvalidBodyTemplate m))"
proof -
  let ?ux = "rx_upstream rx"
  let ?call = "\<lparr>tc_name = mt_name t, tc_arguments = args\<rparr>"
  from assms(2,5) obtain tool where tool: "tool \<in> set (gc_tools gw)" "build_mcp_tool tool = Some t"
    by (auto simp: generate_tool_schemas_def List.map_filter_def)
  then have t: "mt_name t = td_name tool" "mt_input_schema t = build_input_schema tool"
    by (auto simp: build_mcp_tool_def split: if_splits)
  have found: "find (\<lambda>x. td_name x = tc_name ?call) (gc_tools gw) = Some tool"
    using find_distinct [OF assms(3) tool(1)] t(1) by simp
  from assms(4) tool(1) obtain segs where "segments_ok segs" "td_path_template tool = render segs" by auto
  from required_path_ok [OF assms(1) this] assms(7) t(2)
  obtain path where path: "interpolate_path ?ux (td_path_template tool) (tc_arguments ?call) = Inr path" by auto
  have "list_ex (\<lambda>x. td_name x = mt_name t) (gc_tools gw)" using tool(1) t(1) by (auto simp: list_ex_iff)
  with build_no_path_error [OF assms(2) found path, of b] assms(2,6) show ?thesis
    by (cases "build ?ux b config ?call") (auto simp: prepare_call_def Let_def router_codes)
qed

section \<open>Examples\<close>

definition sample_rx :: "(nat, nat \<times> log_msg list, nat, string \<times> string option) router_ext" where
  "sample_rx =
     \<lparr>rx_semaphore = nat_semaphore, rx_mpsc = queue_mpsc, rx_url = split_url, rx_upstream = sample_build_ux,
      rx_sidecar = sample_sx, rx_transform = sample_tx,
      rx_params_from_value = (\<lambda>_. Inr \<lparr>tc_name = ''get_user'', tc_arguments = [(''id'', String ''7'')]\<rparr>)\<rparr>"

definition sample_router :: "(nat, nat \<times> log_msg list) router" where
  "sample_router =
     router_new (cache_upsert (config_of_row sample_row) cache_new)
       (pipeline_of fresh_executor (with_allow_http False)) sample_logger
       \<lparr>ls_chan = (2, []), ls_stdout = [], ls_drops = 0, ls_closed = 0, ls_acks = []\<rparr>"

definition sample_env :: "u16 \<Rightarrow> dispatch_env" where
  "sample_env st = \<lparr>de_elapsed_ms = 4, de_now = ''t'', de_trace_id = None, de_call = status_env st 100\<rparr>"

definition sample_call :: parsed_request where
  "sample_call = \<lparr>pr_jsonrpc = ''2.0'', pr_id = Some (String ''1''), pr_method = ''tools/call'', pr_params = Some Null\<rparr>"

lemma sample_dispatch:
  "map_option (\<lambda>(r, rt). (jr_error r = None, rt_log rt = rt_log sample_router))
     (dispatch_request sample_rx (sample_env 404) (db_slug sample_row) sample_call None sample_router) = Some (False, False)"
  by code_simp

lemma sample_refused:
  "map_option (\<lambda>(r, rt). map_option je_code (jr_error r))
     (dispatch_request sample_rx (sample_env 200) ''nowhere'' sample_call None sample_router) = Some (Some (- 32001))"
  by code_simp

lemma sample_failed:
  "map_option (\<lambda>(out, up). case to_result out of Inl err \<Rightarrow> je_code err | Inr _ \<Rightarrow> 0)
     (handle_tools_call sample_rx (status_env 404 100) (config_of_row sample_row) (Some Null) (rt_upstream sample_router)) =
   Some (- 32003)"
  by code_simp

theorem dispatch_response_shape_witness:
  "\<exists>resp rt'. dispatch_request sample_rx (sample_env 200) ''nowhere'' sample_call None sample_router = Some (resp, rt') \<and>
     jr_id resp = Some (String ''1'') \<and> jr_result resp = None"
proof -
  from sample_refused obtain resp rt' where
    d: "dispatch_request sample_rx (sample_env 200) ''nowhere'' sample_call None sample_router = Some (resp, rt')"
    and c: "map_option je_code (jr_error resp) = Some (- 32001)" by (auto simp: split_beta)
  from dispatch_response_shape [OF d] c d show ?thesis by (auto simp: sample_call_def split: if_splits)
qed

theorem dispatch_logs_once_witness:
  "\<exists>resp rt' r. dispatch_request sample_rx (sample_env 404) (db_slug sample_row) sample_call None sample_router =
       Some (resp, rt') \<and> rt_log rt' = log queue_mpsc r (rt_log sample_router) \<and> lr_method r = ''tools/call''"
proof -
  from sample_dispatch obtain resp rt' where
    d: "dispatch_request sample_rx (sample_env 404) (db_slug sample_row) sample_call None sample_router = Some (resp, rt')"
    and l: "rt_log rt' \<noteq> rt_log sample_router" by (auto simp: split_beta)
  from dispatch_logs_once [OF d] l d show ?thesis
    by (auto simp: sample_call_def sample_rx_def split: option.splits)
qed

theorem tools_call_codes_witness:
  "\<exists>out up' err. handle_tools_call sample_rx (status_env 404 100) (config_of_row sample_row) (Some Null)
       (rt_upstream sample_router) = Some (out, up') \<and> to_result out = Inl err \<and> je_code err = - 32003 \<and>
     (\<exists>meta gw req st. prepare_call sample_rx (with_allow_http False) (config_of_row sample_row) (Some Null) =
        Inr (meta, gw, req) \<and> execute nat_semaphore sample_sx (status_env 404 100) (db_id sample_row) req
          (gc_auth_type gw) fresh_executor = Some (Inl (UpstreamError st), up_executor up'))"
proof -
  let ?up = "rt_upstream sample_router"
  have up: "up_request_builder ?up = with_allow_http False" "up_executor ?up = fresh_executor"
    by (simp_all add: sample_router_def router_new_def pipeline_of_def)
  obtain out up' where h: "handle_tools_call sample_rx (status_env 404 100) (config_of_row sample_row) (Some Null) ?up =
      Some (out, up')" and c: "(case to_result out of Inl err \<Rightarrow> je_code err | Inr _ \<Rightarrow> 0) = - 32003"
    using sample_failed by (auto simp: split_beta)
  obtain err where err: "to_result out = Inl err" "je_code err = - 32003" using c by (cases "to_result out") auto
  have "cb_inv (breaker_of (up_executor ?up) (sc_id (config_of_row sample_row)))"
    by (simp add: up fresh_breaker)
  from tools_call_codes [OF h this] err h show ?thesis
    unfolding up by (fastforce simp: sample_rx_def config_of_row_def)
qed

theorem listed_tools_callable_witness:
  "case prepare_call sample_rx (with_allow_http False) (config_of_row sample_row) (Some Null) of
      Inr (_, gw', req) \<Rightarrow> gc_tools gw' = [sample_tool]
    | Inl (_, err) \<Rightarrow> je_code err = - 32602"
proof -
  obtain t where t: "build_mcp_tool sample_tool = Some t" "is_required (mt_input_schema t) = [''id'']" "mt_name t = ''get_user''"
  proof -
    have "map_option (\<lambda>t. (is_required (mt_input_schema t), mt_name t)) (build_mcp_tool sample_tool) = Some ([''id''], ''get_user'')"
      by code_simp
    then show thesis using that by auto
  qed
  define gw where "gw = \<lparr>gc_base_url = ''https://api.example.com/'', gc_timeout_ms = 500, gc_auth_type = AuthNone,
      gc_tools = [sample_tool]\<rparr>"
  have gw: "ux_from_value (rx_upstream sample_rx) (sc_config_json (config_of_row sample_row)) = Inr gw"
    by (simp add: sample_rx_def sample_build_ux_def gw_def)
  have enc: "percent_encode_ok (rx_upstream sample_rx)"
    by (simp add: sample_rx_def sample_build_ux_def percent_encode_ok_def sample_ux_def)
  have seg: "\<forall>tool \<in> set (gc_tools gw). \<exists>segs. segments_ok segs \<and> td_path_template tool = render segs"
    by (simp add: gw_def sample_tool_def)
      (intro exI [of _ "[Lit ''/users/'', Hole ''id'']"], simp add: segments_ok_def render_def placeholder_def)
  have mem: "t \<in> set (generate_tool_schemas (rx_upstream sample_rx) (config_of_row sample_row))"
    using gw t(1) by (simp add: generate_tool_schemas_def List.map_filter_def gw_def)
  have call: "rx_params_from_value sample_rx Null = Inr \<lparr>tc_name = mt_name t, tc_arguments = [(''id'', String ''7'')]\<rparr>"
    by (simp add: sample_rx_def t)
  have "case prepare_call sample_rx (with_allow_http False) (config_of_row sample_row) (Some Null) of
      Inr (_, gw', req) \<Rightarrow> gw' = gw
    | Inl (_, err) \<Rightarrow> \<exists>e. je_code err = - 32602 \<and> je_message err = build_error_text e \<and>
        (e = InsecureUrl \<or> (\<exists>n. e = UrlTooLong n) \<or> (\<exists>m. e = InvalidBodyTemplate m))"
    by (rule listed_tools_callable [OF enc gw _ seg mem call]) (simp_all add: gw_def t)
  then show ?thesis by (auto simp: gw_def split: sum.splits)
qed

end
