(* ===== verification/Auth.thy ===== *)
theory Auth
  imports Config_Cache Connections
begin

text \<open>
  Bearer-token authentication (\<open>services/gateway/src/auth.rs\<close>): parsing of the header, the
  validation cache with its time to live, and verification against the server's Argon2id hash. Argon2,
  base64, the random generator and the text of a UUID are the fields of \<open>auth_ext\<close>; the semaphore
  is the one of theory \<open>Connections\<close>. moka's cache is a list of entries with their time of insertion;
  its capacity only removes entries.
\<close>

section \<open>Data\<close>

definition TOKEN_BYTES :: nat where "TOKEN_BYTES = 32"
definition TOKEN_PREFIX_LEN :: nat where "TOKEN_PREFIX_LEN = 8"
definition ARGON2_MEMORY_KIB :: u32 where "ARGON2_MEMORY_KIB = 65536"
definition ARGON2_TIME_COST :: u32 where "ARGON2_TIME_COST = 1"
definition ARGON2_PARALLELISM :: u32 where "ARGON2_PARALLELISM = 1"
definition CACHE_TTL_SECS :: int where "CACHE_TTL_SECS = 30"
definition AUTH_CACHE_MAX_CAPACITY :: u64 where "AUTH_CACHE_MAX_CAPACITY = 100000"

datatype auth_error = MissingHeader | MalformedHeader | InvalidToken | ServerSuspended

datatype token_generation_error = Argon2 string

text \<open>
  \<open>'h\<close> is a parsed PHC string. \<open>ag_params\<close> is \<open>Params::new\<close> and \<open>ag_hash\<close> hashes
  with a salt; \<open>ag_verify\<close> is \<open>verify_password(..).is_ok()\<close>.
\<close>

record ('h, 'p) auth_ext =
  ag_parse :: "string \<Rightarrow> 'h option"
  ag_verify :: "string \<Rightarrow> 'h \<Rightarrow> bool"
  ag_params :: "u32 \<Rightarrow> u32 \<Rightarrow> u32 \<Rightarrow> string + 'p"
  ag_hash :: "'p \<Rightarrow> string \<Rightarrow> string \<Rightarrow> string + string"
  ag_base64_url :: "u8 list \<Rightarrow> string"
  ag_uuid_string :: "uuid \<Rightarrow> string"

text \<open>An entry of the cache is the result and the second at which it was inserted.\<close>

record 's token_validator =
  tv_semaphore :: 's
  tv_cache :: "(string \<times> bool \<times> int) list"

definition validator_new :: "'s semaphore_api \<Rightarrow> u64 option \<Rightarrow> 's token_validator" where
  "validator_new api available_parallelism =
     (let parallelism = (case available_parallelism of Some n \<Rightarrow> n | None \<Rightarrow> 4);
          semaphore_permits = parallelism * 2
      in \<lparr>tv_semaphore = sem_new api semaphore_permits, tv_cache = []\<rparr>)"

text \<open>moka's \<open>get\<close>: an entry that is as old as the time to live is expired.\<close>

definition validation_get :: "int \<Rightarrow> string \<Rightarrow> 's token_validator \<Rightarrow> bool option" where
  "validation_get now key tv =
     (case map_of (tv_cache tv) key of
        Some (valid, t) \<Rightarrow> if now - t < CACHE_TTL_SECS then Some valid else None
      | None \<Rightarrow> None)"

definition validation_insert :: "int \<Rightarrow> string \<Rightarrow> bool \<Rightarrow> 's token_validator \<Rightarrow> 's token_validator" where
  "validation_insert now key valid tv = tv\<lparr>tv_cache := AList.update key (valid, now) (tv_cache tv)\<rparr>"

section \<open>Validation\<close>

definition extract_bearer_token :: "string option \<Rightarrow> auth_error + string" where
  "extract_bearer_token authorization =
     and_then (ok_or MissingHeader authorization) (\<lambda>header.
     and_then (ok_or MalformedHeader (strip_prefix ''Bearer '' header)) (\<lambda>token.
     if token = [] then Inl MalformedHeader else Inr token))"

definition verify_argon2 :: "('h, 'p) auth_ext \<Rightarrow> string \<Rightarrow> string \<Rightarrow> bool" where
  "verify_argon2 ag raw_token phc_hash =
     (case ag_parse ag phc_hash of None \<Rightarrow> False | Some parsed \<Rightarrow> ag_verify ag raw_token parsed)"

definition check_suspended :: "server_config \<Rightarrow> auth_error + unit" where
  "check_suspended config = (if sc_status config = ''suspended'' then Inl ServerSuspended else Inr ())"

definition extract_token_prefix :: "string \<Rightarrow> string" where
  "extract_token_prefix raw_token = take_chars TOKEN_PREFIX_LEN raw_token"

definition generate_token ::
  "('h, 'p) auth_ext \<Rightarrow> u8 list \<Rightarrow> string \<Rightarrow> token_generation_error + (string \<times> string)" where
  "generate_token ag random_bytes salt =
     (let raw_token = ag_base64_url ag random_bytes in
      and_then (map_err Argon2 (ag_params ag ARGON2_MEMORY_KIB ARGON2_TIME_COST ARGON2_PARALLELISM)) (\<lambda>params.
      and_then (map_err Argon2 (ag_hash ag params raw_token salt)) (\<lambda>phc_hash.
      Inr (raw_token, phc_hash))))"

definition cache_key :: "('h, 'p) auth_ext \<Rightarrow> uuid \<Rightarrow> string \<Rightarrow> string" where
  "cache_key ag sid raw_token = ag_uuid_string ag sid @ '':'' @ raw_token"

text \<open>
  \<open>None\<close>: the caller waits for a permit. \<open>now\<close> is the second of the lookup, \<open>done\<close> the one
  of the insertion after the hash; \<open>joined\<close> says whether the blocking task returned at all.
\<close>

record auth_env =
  ae_now :: int
  ae_done :: int
  ae_joined :: bool

definition validate_request ::
  "('h, 'p) auth_ext \<Rightarrow> 's semaphore_api \<Rightarrow> auth_env \<Rightarrow> string option \<Rightarrow> server_config \<Rightarrow> 's token_validator
   \<Rightarrow> ((auth_error + unit) \<times> 's token_validator) option" where
  "validate_request ag api env authorization_header config tv =
     (case extract_bearer_token authorization_header of
        Inl e \<Rightarrow> Some (Inl e, tv)
      | Inr raw_token \<Rightarrow>
          let key = cache_key ag (sc_id config) raw_token in
          (case validation_get (ae_now env) key tv of
             Some cached_valid \<Rightarrow>
               Some (if cached_valid then check_suspended config else Inl InvalidToken, tv)
           | None \<Rightarrow>
               (case sc_token_hash config of
                  None \<Rightarrow> Some (Inl InvalidToken, validation_insert (ae_now env) key False tv)
                | Some token_hash \<Rightarrow>
                    if token_hash = [] then Some (Inl InvalidToken, validation_insert (ae_now env) key False tv)
                    else
                      (case sem_try_acquire api (tv_semaphore tv) of
                         None \<Rightarrow> None
                       | Some s \<Rightarrow>
                           let is_valid = (ae_joined env \<and> verify_argon2 ag raw_token token_hash);
                               tv1 = validation_insert (ae_done env) key is_valid (tv\<lparr>tv_semaphore := s\<rparr>);
                               tv2 = tv1\<lparr>tv_semaphore := sem_release api (tv_semaphore tv1)\<rparr>
                           in Some (if is_valid then check_suspended config else Inl InvalidToken, tv2)))))"

section \<open>What is accepted\<close>

lemma strip_bearer [simp]:
  "strip_prefix ''Bearer ''
     (CHR ''B'' # CHR ''e'' # CHR ''a'' # CHR ''r'' # CHR ''e'' # CHR ''r'' # CHR '' '' # raw) = Some raw"
  by (simp add: strip_prefix_def starts_with_def)

lemma extract_bearer_iff: "extract_bearer_token h = Inr raw \<longleftrightarrow> h = Some (''Bearer '' @ raw) \<and> raw \<noteq> []"
  by (auto simp: extract_bearer_token_def res_simps ok_or_def strip_prefix_eq_Some split: option.splits if_splits)

text \<open>
  The requests of a history, in the order in which their results were stored. \<open>None\<close> if one waits
  for ever.
\<close>

type_synonym auth_request = "auth_env \<times> string option \<times> server_config"

fun validate_all ::
  "('h, 'p) auth_ext \<Rightarrow> 's semaphore_api \<Rightarrow> auth_request list \<Rightarrow> 's token_validator
   \<Rightarrow> ((auth_error + unit) list \<times> 's token_validator) option" where
  "validate_all ag api [] tv = Some ([], tv)"
| "validate_all ag api ((env, h, config) # reqs) tv =
     (case validate_request ag api env h config tv of
        None \<Rightarrow> None
      | Some (r, tv1) \<Rightarrow> map_option (\<lambda>(rs, tv2). (r # rs, tv2)) (validate_all ag api reqs tv1))"

text \<open>Request \<open>(env, h, config)\<close> had its token verified against the hash it found, at \<open>ae_done env\<close>.\<close>

definition verified_in :: "('h, 'p) auth_ext \<Rightarrow> uuid \<Rightarrow> string \<Rightarrow> int \<Rightarrow> auth_request \<Rightarrow> bool" where
  "verified_in ag sid raw t req \<longleftrightarrow>
     (case req of (env, h, config) \<Rightarrow>
        sc_id config = sid \<and> h = Some (''Bearer '' @ raw) \<and> ae_done env = t \<and>
        (\<exists>hash. sc_token_hash config = Some hash \<and> verify_argon2 ag raw hash))"

text \<open>The text of a UUID has a fixed length and determines the UUID.\<close>

definition uuid_text_ok :: "('h, 'p) auth_ext \<Rightarrow> bool" where
  "uuid_text_ok ag \<longleftrightarrow> inj (ag_uuid_string ag) \<and> (\<forall>i. length (ag_uuid_string ag i) = 36)"

lemma cache_key_inject:
  "uuid_text_ok ag \<Longrightarrow> cache_key ag i r = cache_key ag j q \<longleftrightarrow> i = j \<and> r = q"
  by (auto simp: cache_key_def uuid_text_ok_def inj_eq)

definition cache_backed :: "('h, 'p) auth_ext \<Rightarrow> auth_request set \<Rightarrow> 's token_validator \<Rightarrow> bool" where
  "cache_backed ag reqs tv \<longleftrightarrow>
     (\<forall>key t. map_of (tv_cache tv) key = Some (True, t) \<longrightarrow>
        (\<exists>sid raw. key = cache_key ag sid raw \<and> (\<exists>req \<in> reqs. verified_in ag sid raw t req)))"

lemma cache_backed_insert:
  assumes "cache_backed ag reqs tv"
    and "v \<Longrightarrow> \<exists>sid raw. key = cache_key ag sid raw \<and> (\<exists>req \<in> reqs. verified_in ag sid raw t req)"
  shows "cache_backed ag reqs (validation_insert t key v tv)"
  using assms by (auto simp: cache_backed_def validation_insert_def update_conv')

lemma cache_backed_semaphore [simp]:
  "cache_backed ag reqs (tv\<lparr>tv_semaphore := s\<rparr>) = cache_backed ag reqs tv"
  by (simp add: cache_backed_def)

lemma validate_step:
  assumes "validate_request ag api env h config tv = Some (r, tv')" "cache_backed ag reqs tv"
  shows "cache_backed ag (insert (env, h, config) reqs) tv'"
proof -
  have ins: "cache_backed ag (insert (env, h, config) reqs) tv" using assms(2) by (fastforce simp: cache_backed_def)
  show ?thesis
  proof (cases "extract_bearer_token h")
    case (Inl e)
    with assms(1) ins show ?thesis by (simp add: validate_request_def)
  next
    case (Inr raw)
    then have h: "h = Some (''Bearer '' @ raw)" by (simp add: extract_bearer_iff)
    have ok: "\<exists>sid raw'. cache_key ag (sc_id config) raw = cache_key ag sid raw' \<and>
        (\<exists>req \<in> insert (env, h, config) reqs. verified_in ag sid raw' (ae_done env) req)"
      if "verify_argon2 ag raw hash" "sc_token_hash config = Some hash" for hash
      using that h by (auto simp: verified_in_def)
    show ?thesis
      using assms(1) Inr ins ok
      by (auto simp: validate_request_def Let_def
          intro!: cache_backed_insert split: option.splits if_splits)
  qed
qed

lemma validate_all_backed:
  assumes "validate_all ag api reqs tv = Some (rs, tv')" "cache_backed ag past tv"
  shows "cache_backed ag (set reqs \<union> past) tv'"
  using assms
proof (induction reqs arbitrary: tv rs past)
  case (Cons req reqs)
  obtain env h config where req: "req = (env, h, config)" by (cases req)
  from Cons.prems(1) obtain r tv1 rs' where s: "validate_request ag api env h config tv = Some (r, tv1)"
    "validate_all ag api reqs tv1 = Some (rs', tv')" by (auto simp: req split: option.splits)
  from Cons.IH [OF s(2) validate_step [OF s(1) Cons.prems(2)]] show ?case by (simp add: req)
qed simp

lemma cache_backed_new: "cache_backed ag {} (validator_new api p)"
  by (simp add: cache_backed_def validator_new_def Let_def)

lemma accepted_backed:
  assumes "uuid_text_ok ag" "cache_backed ag past tv"
    and "validate_request ag api env h config tv = Some (Inr u, tv')" "ae_now env \<le> ae_done env"
  shows "\<exists>raw. h = Some (''Bearer '' @ raw) \<and> raw \<noteq> [] \<and> sc_status config \<noteq> ''suspended'' \<and>
    (\<exists>req \<in> insert (env, h, config) past. \<exists>t. verified_in ag (sc_id config) raw t req \<and> ae_now env - t < 30)"
proof -
  obtain raw where raw: "extract_bearer_token h = Inr raw"
    using assms(3) by (cases "extract_bearer_token h") (auto simp: validate_request_def)
  then have h: "h = Some (''Bearer '' @ raw)" "raw \<noteq> []" by (simp_all add: extract_bearer_iff)
  let ?key = "cache_key ag (sc_id config) raw"
  have susp: "sc_status config \<noteq> ''suspended''"
    using assms(3) raw by (auto simp: validate_request_def check_suspended_def Let_def split: option.splits if_splits)
  show ?thesis
  proof (cases "validation_get (ae_now env) ?key tv")
    case None
    then obtain hash where "sc_token_hash config = Some hash" "verify_argon2 ag raw hash"
      using assms(3) raw by (auto simp: validate_request_def Let_def split: option.splits if_splits)
    then have "verified_in ag (sc_id config) raw (ae_done env) (env, h, config)" using h by (simp add: verified_in_def)
    moreover have "ae_now env - ae_done env < 30" using assms(4) by simp
    ultimately show ?thesis using h susp by auto
  next
    case (Some v)
    with assms(3) raw have "validation_get (ae_now env) ?key tv = Some True"
      by (auto simp: validate_request_def Let_def split: if_splits)
    then obtain t where t: "map_of (tv_cache tv) ?key = Some (True, t)" "ae_now env - t < 30"
      by (auto simp: validation_get_def CACHE_TTL_SECS_def split: option.splits if_splits)
    from assms(2) t(1) obtain req where "req \<in> past" "verified_in ag (sc_id config) raw t req"
      using cache_key_inject [OF assms(1)] unfolding cache_backed_def by metis
    with h susp t(2) show ?thesis by auto
  qed
qed

text \<open>
  A request is accepted only with a header \<open>Bearer\<close> and a token, for a server that is not suspended,
  and only if that token was verified against a hash of that same server by this request or by one of the
  requests before it, less than thirty seconds ago. A token that was replaced or revoked is accepted for at
  most that long.
\<close>

theorem accepted_token_was_verified:
  assumes "uuid_text_ok ag" "validate_all ag api reqs (validator_new api p) = Some (rs, tv)"
    and "validate_request ag api env h config tv = Some (Inr u, tv')" "ae_now env \<le> ae_done env"
  shows "\<exists>raw. h = Some (''Bearer '' @ raw) \<and> raw \<noteq> [] \<and> sc_status config \<noteq> ''suspended'' \<and>
    (\<exists>req \<in> set ((env, h, config) # reqs). \<exists>t. verified_in ag (sc_id config) raw t req \<and> ae_now env - t < 30)"
  using accepted_backed [OF assms(1) validate_all_backed [OF assms(2) cache_backed_new] assms(3,4)] by simp

text \<open>
  The header alone decides the first two errors, no request leaks a permit, and a request without a
  stored result and with a configured hash waits exactly when no permit is free.
\<close>

theorem validate_request_errors:
  assumes "semaphore_ok api"
  shows "case validate_request ag api env h config tv of
      None \<Rightarrow> sem_available api (tv_semaphore tv) = 0
    | Some (r, tv') \<Rightarrow>
        (r = Inl MissingHeader \<longleftrightarrow> h = None) \<and>
        (r = Inl MalformedHeader \<longleftrightarrow> (\<exists>s. h = Some s \<and> (\<forall>raw. s = ''Bearer '' @ raw \<longrightarrow> raw = []))) \<and>
        sem_available api (tv_semaphore tv') = sem_available api (tv_semaphore tv)"
proof (cases "extract_bearer_token h")
  case (Inl e)
  then have "(e = MissingHeader \<longleftrightarrow> h = None) \<and>
      (e = MalformedHeader \<longleftrightarrow> (\<exists>s. h = Some s \<and> (\<forall>raw. s = ''Bearer '' @ raw \<longrightarrow> raw = [])))"
    by (cases h) (auto simp: extract_bearer_token_def ok_or_def strip_prefix_eq_Some split: option.splits if_splits)
  with Inl show ?thesis by (simp add: validate_request_def)
next
  case (Inr raw)
  then have h: "h = Some (''Bearer '' @ raw)" "raw \<noteq> []" by (simp_all add: extract_bearer_iff)
  have ne: "check_suspended config \<noteq> Inl MissingHeader" "check_suspended config \<noteq> Inl MalformedHeader"
    by (simp_all add: check_suspended_def)
  show ?thesis
    using assms Inr h ne
    by (auto simp: validate_request_def semaphore_ok_def validation_insert_def Let_def split: option.splits)
qed

section \<open>Examples\<close>

text \<open>Sixteen bytes and padding, in place of the hyphenated hexadecimal text.\<close>

definition sample_uuid_string :: "uuid \<Rightarrow> string" where
  "sample_uuid_string i =
     map (\<lambda>k. Char (bit i (8 * k)) (bit i (8 * k + 1)) (bit i (8 * k + 2)) (bit i (8 * k + 3))
        (bit i (8 * k + 4)) (bit i (8 * k + 5)) (bit i (8 * k + 6)) (bit i (8 * k + 7))) [0..<36]"

lemma inj_sample_uuid: "inj sample_uuid_string"
proof (rule injI)
  fix i j :: uuid
  assume eq: "sample_uuid_string i = sample_uuid_string j"
  show "i = j"
  proof (rule bit_word_eqI)
    fix n assume n: "n < LENGTH(128)"
    obtain k m where nk: "n = 8 * k + m" "m < 8" "k < 36"
    proof
      show "n = 8 * (n div 8) + n mod 8" "n mod 8 < 8" "n div 8 < 36" using n by simp_all
    qed
    have "sample_uuid_string i ! k = sample_uuid_string j ! k" by (simp add: eq)
    then have ch: "bit i (8 * k) = bit j (8 * k) \<and> bit i (8 * k + 1) = bit j (8 * k + 1) \<and>
        bit i (8 * k + 2) = bit j (8 * k + 2) \<and> bit i (8 * k + 3) = bit j (8 * k + 3) \<and>
        bit i (8 * k + 4) = bit j (8 * k + 4) \<and> bit i (8 * k + 5) = bit j (8 * k + 5) \<and>
        bit i (8 * k + 6) = bit j (8 * k + 6) \<and> bit i (8 * k + 7) = bit j (8 * k + 7)"
      using nk(3) by (simp add: sample_uuid_string_def)
    from nk(2) consider "m = 0" | "m = 1" | "m = 2" | "m = 3" | "m = 4" | "m = 5" | "m = 6" | "m = 7" by linarith
    then show "bit i n = bit j n" by cases (simp_all only: nk(1) ch add_0_right)
  qed
qed

definition sample_ag :: "(string, unit) auth_ext" where
  "sample_ag =
     \<lparr>ag_parse = Some, ag_verify = (\<lambda>raw h. h = rev raw), ag_params = (\<lambda>_ _ _. Inr ()),
      ag_hash = (\<lambda>_ raw _. Inr (rev raw)), ag_base64_url = (\<lambda>_. ''tok''), ag_uuid_string = sample_uuid_string\<rparr>"

lemma sample_ag_ok: "uuid_text_ok sample_ag"
  by (simp add: uuid_text_ok_def sample_ag_def inj_sample_uuid) (simp add: sample_uuid_string_def)

definition sample_auth_env :: "int \<Rightarrow> auth_env" where
  "sample_auth_env t = \<lparr>ae_now = t, ae_done = t, ae_joined = True\<rparr>"

text \<open>A server whose token is verified at second 100, and again with another hash at second 120.\<close>

definition auth_config :: "string \<Rightarrow> server_config" where
  "auth_config hash = (config_of_row sample_row)\<lparr>sc_token_hash := Some hash, sc_status := ''active''\<rparr>"

lemma sample_validations:
  "map_option fst (validate_all sample_ag nat_semaphore
      [(sample_auth_env 100, Some ''Bearer abc'', auth_config ''cba'')] (validator_new nat_semaphore None)) = Some [Inr ()]"
  "map_option fst (validate_all sample_ag nat_semaphore
      [(sample_auth_env 100, Some ''Bearer abc'', auth_config ''cba''),
       (sample_auth_env 120, Some ''Bearer abc'', auth_config ''zzz'')] (validator_new nat_semaphore None)) =
     Some [Inr (), Inr ()]"
  by code_simp+

theorem accepted_token_was_verified_witness:
  "\<exists>tv tv'. validate_request sample_ag nat_semaphore (sample_auth_env 120) (Some ''Bearer abc'') (auth_config ''zzz'') tv =
       Some (Inr (), tv') \<and>
     (\<exists>req \<in> {(sample_auth_env 120, Some ''Bearer abc'', auth_config ''zzz''),
              (sample_auth_env 100, Some ''Bearer abc'', auth_config ''cba'')}.
        \<exists>t. verified_in sample_ag (db_id sample_row) ''abc'' t req \<and> 120 - t < 30)"
proof -
  obtain rs tv where a: "validate_all sample_ag nat_semaphore
      [(sample_auth_env 100, Some ''Bearer abc'', auth_config ''cba'')] (validator_new nat_semaphore None) = Some (rs, tv)"
    using sample_validations(1) by auto
  with sample_validations(2) obtain tv' where b: "validate_request sample_ag nat_semaphore (sample_auth_env 120)
      (Some ''Bearer abc'') (auth_config ''zzz'') tv = Some (Inr (), tv')"
    by (auto split: option.splits)
  have "ae_now (sample_auth_env 120) \<le> ae_done (sample_auth_env 120)" by (simp add: sample_auth_env_def)
  from accepted_token_was_verified [OF sample_ag_ok a b this] b show ?thesis
    by (auto simp: sample_auth_env_def auth_config_def config_of_row_def)
qed

theorem validate_request_errors_witness:
  "\<exists>tv'. validate_request sample_ag nat_semaphore (sample_auth_env 1) None (auth_config ''x'')
       (validator_new nat_semaphore (Some 2)) = Some (Inl MissingHeader, tv') \<and>
     sem_available nat_semaphore (tv_semaphore tv') = 4"
  using validate_request_errors [OF nat_semaphore_ok, where ag = sample_ag and env = "sample_auth_env 1" and h = None
      and config = "auth_config ''x''" and tv = "validator_new nat_semaphore (Some 2)"]
  by (simp add: validate_request_def extract_bearer_token_def validator_new_def nat_semaphore_def)

end
