(* ===== verification/Transport.thy ===== *)
theory Transport
  imports Router Auth
begin

text \<open>
  The Streamable HTTP transport (\<open>services/gateway/src/transport.rs\<close>): the whole handler of
  \<open>POST /mcp/:slug\<close> from the shutdown check to the response, with the connection guard it holds, and
  the event stream that takes the guard over. Requests are handled one at a time here; the interleaving
  of their accesses to the connection counters is the subject of theory \<open>Connections\<close>. The cache of
  the transport and the cache of the router are one object (\<open>main.rs\<close> clones one \<open>Arc\<close>).
  A response has the headers that the handlers set; what axum adds to them is not modelled.
\<close>

section \<open>State\<close>

record ('s, 'c) transport_state =
  ts_validator :: "'s token_validator"
  ts_router :: "('s, 'c) router"
  ts_connection_tracker :: "'s connection_tracker"
  ts_sse_keepalive_secs :: u64
  ts_is_shutting_down :: bool

definition transport_new ::
  "'s token_validator \<Rightarrow> ('s, 'c) router \<Rightarrow> 's connection_tracker \<Rightarrow> bool \<Rightarrow> ('s, 'c) transport_state" where
  "transport_new validator rt tracker shutting_down =
     \<lparr>ts_validator = validator, ts_router = rt, ts_connection_tracker = tracker, ts_sse_keepalive_secs = 60,
      ts_is_shutting_down = shutting_down\<rparr>"

text \<open>The state of the event stream: the event still to be sent, the seconds to hold, the guard.\<close>

record sse_stream =
  st_data :: "string option"
  st_secs :: u64
  st_guard :: connection_guard

datatype response_body = Empty_Body | Text_Body string | Sse_Body sse_stream

record http_response =
  ht_status :: nat
  ht_headers :: "(string \<times> string) list"
  ht_body :: response_body

text \<open>\<open>HeaderMap::insert\<close> replaces what the name had.\<close>

definition set_header :: "string \<Rightarrow> string \<Rightarrow> http_response \<Rightarrow> http_response" where
  "set_header k v r = r\<lparr>ht_headers := AList.update k v (ht_headers r)\<rparr>"

record ('s, 'c, 'd, 'u, 'h, 'p) transport_ext =
  te_router :: "('s, 'c, 'd, 'u) router_ext"
  te_auth :: "('h, 'p) auth_ext"
  te_from_slice :: "string \<Rightarrow> json option"
  te_value_to_string :: "json \<Rightarrow> string"
  te_response_to_string :: "json_rpc_response \<Rightarrow> string option"
  te_batch_to_string :: "json_rpc_response list \<Rightarrow> string option"

text \<open>The clocks of one request; \<open>pe_dispatch i\<close> belongs to the \<open>i\<close>-th message of its body.\<close>

record post_env =
  pe_auth :: auth_env
  pe_now :: nat
  pe_dispatch :: "nat \<Rightarrow> dispatch_env"

text \<open>A header has a value that is text, or one that is not visible ASCII (\<open>to_str\<close> fails).\<close>

type_synonym headers = "(string \<times> string option) list"

definition header_str :: "string \<Rightarrow> headers \<Rightarrow> string option" where
  "header_str k hs = (case map_of hs k of Some v \<Rightarrow> v | None \<Rightarrow> None)"

section \<open>Helpers\<close>

definition build_json_response :: "nat \<Rightarrow> string \<Rightarrow> http_response" where
  "build_json_response status body =
     set_header ''access-control-allow-origin'' ''*'' (set_header ''cache-control'' ''no-store''
       (set_header ''content-type'' ''application/json''
         \<lparr>ht_status = status, ht_headers = [], ht_body = Text_Body body\<rparr>))"

definition build_json_error ::
  "('s, 'c, 'd, 'u, 'h, 'p) transport_ext \<Rightarrow> nat \<Rightarrow> int \<Rightarrow> string \<Rightarrow> http_response" where
  "build_json_error te status code message =
     build_json_response status
       (te_value_to_string te
         (json_obj [(''jsonrpc'', String ''2.0''),
            (''error'', json_obj [(''code'', json_int code), (''message'', String message)]),
            (''id'', Null)]))"

definition build_sse_response :: "string \<Rightarrow> u64 \<Rightarrow> connection_guard \<Rightarrow> http_response" where
  "build_sse_response json_str keepalive_secs guard =
     set_header ''access-control-allow-origin'' ''*'' (set_header ''cache-control'' ''no-store''
       \<lparr>ht_status = 200, ht_headers = [],
        ht_body = Sse_Body \<lparr>st_data = Some json_str, st_secs = keepalive_secs, st_guard = guard\<rparr>\<rparr>)"

text \<open>
  One poll of the stream that runs to completion: the event and the next state, or the end. The sleep
  before the end is the number of seconds returned.
\<close>

definition sse_next ::
  "'s semaphore_api \<Rightarrow> sse_stream \<Rightarrow> 's connection_tracker
   \<Rightarrow> (string \<times> sse_stream) option \<times> u64 \<times> 's connection_tracker" where
  "sse_next api st t =
     (case st_data st of
        Some data \<Rightarrow> (Some (data, st\<lparr>st_data := None\<rparr>), 0, t)
      | None \<Rightarrow> (None, if st_secs st > 0 then st_secs st else 0, guard_drop api (st_guard st) t))"

definition serialize_rpc :: "('s, 'c, 'd, 'u, 'h, 'p) transport_ext \<Rightarrow> json_rpc_response \<Rightarrow> string" where
  "serialize_rpc te resp =
     (case te_response_to_string te resp of
        Some s \<Rightarrow> s
      | None \<Rightarrow>
          ''{\"jsonrpc\":\"2.0\",\"error\":{\"code\":-32603,\"message\":\"Internal serialization error\"},\"id\":null}'')"

definition is_json_content_type :: "headers \<Rightarrow> bool" where
  "is_json_content_type hs =
     (case header_str ''content-type'' hs of
        Some ct \<Rightarrow> starts_with ''application/json'' ct
      | None \<Rightarrow> False)"

definition dispatch_result ::
  "('s, 'c, 'd, 'u) router_ext \<Rightarrow> dispatch_env \<Rightarrow> string \<Rightarrow> parse_result \<Rightarrow> string option \<Rightarrow> ('s, 'c) router
   \<Rightarrow> (json_rpc_response \<times> ('s, 'c) router) option" where
  "dispatch_result rx env slug result token_prefix rt =
     (case result of
        Request req \<Rightarrow> dispatch_request rx env slug req token_prefix rt
      | Notification req \<Rightarrow> dispatch_request rx env slug req token_prefix rt
      | Error resp \<Rightarrow> Some (resp, rt))"

definition is_note :: "parse_result \<Rightarrow> bool" where
  "is_note r = (case r of Notification _ \<Rightarrow> True | _ \<Rightarrow> False)"

text \<open>The loop over a batch, from item \<open>i\<close> on.\<close>

fun dispatch_batch ::
  "('s, 'c, 'd, 'u) router_ext \<Rightarrow> (nat \<Rightarrow> dispatch_env) \<Rightarrow> string \<Rightarrow> string option \<Rightarrow> nat \<Rightarrow> parse_result list
   \<Rightarrow> ('s, 'c) router \<Rightarrow> (json_rpc_response list \<times> ('s, 'c) router) option" where
  "dispatch_batch rx env slug token_prefix i [] rt = Some ([], rt)"
| "dispatch_batch rx env slug token_prefix i (result # results) rt =
     (case dispatch_result rx (env i) slug result token_prefix rt of
        None \<Rightarrow> None
      | Some (rpc_response, rt1) \<Rightarrow>
          map_option (\<lambda>(responses, rt2). ((if is_note result then [] else [rpc_response]) @ responses, rt2))
            (dispatch_batch rx env slug token_prefix (Suc i) results rt1))"

section \<open>The handler\<close>

definition shutdown_response :: "('s, 'c, 'd, 'u, 'h, 'p) transport_ext \<Rightarrow> http_response" where
  "shutdown_response te =
     set_header ''retry-after'' ''1'' (set_header ''connection'' ''close''
       (build_json_error te 503 (- 32005) ''Gateway is shutting down''))"

definition unsupported_response :: http_response where
  "unsupported_response =
     set_header ''access-control-allow-origin'' ''*'' (set_header ''cache-control'' ''no-store''
       \<lparr>ht_status = 415, ht_headers = [],
        ht_body = Text_Body (''Content-Type must be application/json'' @ [CHR 10])\<rparr>)"

definition auth_error_response :: "('s, 'c, 'd, 'u, 'h, 'p) transport_ext \<Rightarrow> auth_error \<Rightarrow> http_response" where
  "auth_error_response te e =
     (case e of
        ServerSuspended \<Rightarrow> build_json_error te 403 (- 32000) ''Forbidden''
      | _ \<Rightarrow> set_header ''www-authenticate'' ''Bearer realm=\"mcp-gateway\"''
                (build_json_error te 401 (- 32000) ''Unauthorized''))"

definition capacity_response :: "('s, 'c, 'd, 'u, 'h, 'p) transport_ext \<Rightarrow> capacity_error \<Rightarrow> http_response" where
  "capacity_response te e =
     set_header ''retry-after'' ''1''
       (build_json_error te 503 (- 32005)
         (case e of ServerLimitReached \<Rightarrow> ''Server at capacity'' | GlobalLimitReached \<Rightarrow> ''Gateway at capacity''))"

definition accepted_response :: http_response where
  "accepted_response =
     set_header ''access-control-allow-origin'' ''*'' (set_header ''cache-control'' ''no-store''
       \<lparr>ht_status = 202, ht_headers = [], ht_body = Empty_Body\<rparr>)"

definition wants_sse :: "headers \<Rightarrow> bool" where
  "wants_sse hs =
     (case header_str ''accept'' hs of Some v \<Rightarrow> contains_str ''text/event-stream'' v | None \<Rightarrow> False)"

text \<open>
  The last step of the handler: an event stream takes the guard with it; otherwise the guard is
  dropped when the handler returns.
\<close>

definition finish_response ::
  "'s semaphore_api \<Rightarrow> bool \<Rightarrow> string \<Rightarrow> connection_guard \<Rightarrow> ('s, 'c) transport_state
   \<Rightarrow> http_response \<times> ('s, 'c) transport_state" where
  "finish_response api sse json_str guard st =
     (if sse then (build_sse_response json_str (ts_sse_keepalive_secs st) guard, st)
      else (build_json_response 200 json_str,
            st\<lparr>ts_connection_tracker := guard_drop api guard (ts_connection_tracker st)\<rparr>))"

text \<open>Steps 5 to 7, with the guard held.\<close>

definition serve_message ::
  "('s, 'c, 'd, 'u, 'h, 'p) transport_ext \<Rightarrow> post_env \<Rightarrow> string \<Rightarrow> headers \<Rightarrow> string \<Rightarrow> string option
   \<Rightarrow> connection_guard \<Rightarrow> ('s, 'c) transport_state \<Rightarrow> (http_response \<times> ('s, 'c) transport_state) option" where
  "serve_message te env slug hs body token_prefix conn_guard st =
     (let rx = te_router te; api = rx_semaphore rx in
      case parse_message (te_from_slice te) body of
        Single parse_result \<Rightarrow>
          (case dispatch_result rx (pe_dispatch env 0) slug parse_result token_prefix (ts_router st) of
             None \<Rightarrow> None
           | Some (rpc_response, rt) \<Rightarrow>
               let st1 = st\<lparr>ts_router := rt\<rparr> in
               if is_note parse_result \<and> jr_result rpc_response = None \<and> jr_error rpc_response = None then
                 Some (accepted_response,
                       st1\<lparr>ts_connection_tracker := guard_drop api conn_guard (ts_connection_tracker st1)\<rparr>)
               else Some (finish_response api (wants_sse hs) (serialize_rpc te rpc_response) conn_guard st1))
      | Batch parse_results \<Rightarrow>
          (case dispatch_batch rx (pe_dispatch env) slug token_prefix 0 parse_results (ts_router st) of
             None \<Rightarrow> None
           | Some (responses, rt) \<Rightarrow>
               let json_str = (case te_batch_to_string te responses of Some s \<Rightarrow> s | None \<Rightarrow> ''[]'')
               in Some (finish_response api (wants_sse hs) json_str conn_guard (st\<lparr>ts_router := rt\<rparr>))))"

definition mcp_post_handler ::
  "('s, 'c, 'd, 'u, 'h, 'p) transport_ext \<Rightarrow> post_env \<Rightarrow> string \<Rightarrow> headers \<Rightarrow> string \<Rightarrow> ('s, 'c) transport_state
   \<Rightarrow> (http_response \<times> ('s, 'c) transport_state) option" where
  "mcp_post_handler te env slug hs body st =
     (let api = rx_semaphore (te_router te) in
      if ts_is_shutting_down st then Some (shutdown_response te, st)
      else if \<not> is_json_content_type hs then Some (unsupported_response, st)
      else
        let (found, cache) = resolve_slug slug (rt_cache (ts_router st));
            st1 = st\<lparr>ts_router := (ts_router st)\<lparr>rt_cache := cache\<rparr>\<rparr>
        in case found of
             None \<Rightarrow> Some (build_json_error te 404 (- 32001) ''Server not found'', st1)
           | Some config \<Rightarrow>
               let auth_header = header_str ''authorization'' hs in
               (case validate_request (te_auth te) api (pe_auth env) auth_header config (ts_validator st1) of
                  None \<Rightarrow> None
                | Some (Inl e, tv) \<Rightarrow> Some (auth_error_response te e, st1\<lparr>ts_validator := tv\<rparr>)
                | Some (Inr _, tv) \<Rightarrow>
                    let st2 = st1\<lparr>ts_validator := tv\<rparr>;
                        token_prefix = Option.bind auth_header
                          (\<lambda>h. map_option extract_token_prefix (strip_prefix ''Bearer '' h));
                        (acquired, tracker) = try_acquire api (pe_now env) (sc_id config) (sc_max_connections config)
                          (ts_connection_tracker st2);
                        st3 = st2\<lparr>ts_connection_tracker := tracker\<rparr>
                    in case acquired of
                         Inl e \<Rightarrow> Some (capacity_response te e, st3)
                       | Inr conn_guard \<Rightarrow> serve_message te env slug hs body token_prefix conn_guard st3))"

definition mcp_options_handler :: http_response where
  "mcp_options_handler =
     \<lparr>ht_status = 204,
      ht_headers = [(''access-control-allow-origin'', ''*''),
        (''access-control-allow-methods'', ''POST, OPTIONS''),
        (''access-control-allow-headers'', ''content-type, authorization, accept''),
        (''access-control-max-age'', ''86400''), (''cache-control'', ''no-store'')],
      ht_body = Empty_Body\<rparr>"

section \<open>Connections are given back\<close>

definition tracker_same :: "'s semaphore_api \<Rightarrow> 's connection_tracker \<Rightarrow> 's connection_tracker \<Rightarrow> bool" where
  "tracker_same api t t' \<longleftrightarrow>
     (\<forall>sid. server_count t' sid = server_count t sid) \<and> ct_global_count t' = ct_global_count t \<and>
     sem_available api (ct_global_semaphore t') = sem_available api (ct_global_semaphore t)"

lemma tracker_same_refl [simp]: "tracker_same api t t"
  by (simp add: tracker_same_def)

lemma refused_same:
  assumes "semaphore_ok api" "try_acquire api now sid n t = (Inl e, t')"
  shows "tracker_same api t t'"
  using assms
  by (auto simp: try_acquire_def tracker_same_def semaphore_ok_def server_count_def ensure_counter_def
      maybe_warn_capacity_def Let_def split: option.splits if_splits)

lemma acquire_drop_same:
  assumes "semaphore_ok api" "try_acquire api now sid n t = (Inr g, t')"
  shows "tracker_same api t (guard_drop api g t')"
  using assms
  by (auto simp: try_acquire_def tracker_same_def semaphore_ok_def server_count_def ensure_counter_def
      guard_drop_def inc_below_def Let_def split: option.splits if_splits)

lemma serve_message_tracker:
  assumes "serve_message te env slug hs body tok g st = Some (resp, st')"
  shows "case ht_body resp of
      Sse_Body s \<Rightarrow> st_guard s = g \<and> st_data s \<noteq> None \<and> ts_connection_tracker st' = ts_connection_tracker st
    | _ \<Rightarrow> ts_connection_tracker st' = guard_drop (rx_semaphore (te_router te)) g (ts_connection_tracker st)"
  using assms
  by (auto simp: serve_message_def finish_response_def accepted_response_def build_sse_response_def
      build_json_response_def set_header_def Let_def split: message.splits option.splits if_splits)

lemma sse_two_polls:
  assumes "st_data s \<noteq> None"
  shows "\<exists>data s'. sse_next api s t = (Some (data, s'), 0, t) \<and> fst (sse_next api s' t) = None \<and>
    snd (snd (sse_next api s' t)) = guard_drop api (st_guard s) t"
  using assms by (intro exI [of _ "the (st_data s)"] exI [of _ "s\<lparr>st_data := None\<rparr>"]) (auto simp: sse_next_def)

lemma error_status [simp]:
  "ht_status (build_json_error te s c m) = s" "ht_status (set_header k v r) = ht_status r"
  "ht_body (set_header k v r) = ht_body r"
  by (simp_all add: build_json_error_def build_json_response_def set_header_def)

lemma error_body: "\<exists>t. ht_body (build_json_error te s c m) = Text_Body t"
  by (simp add: build_json_error_def build_json_response_def)

lemma serve_message_status:
  "serve_message te env slug hs body tok g st = Some (resp, st') \<Longrightarrow> ht_status resp \<in> {200, 202}"
  by (auto simp: serve_message_def finish_response_def accepted_response_def build_sse_response_def
      build_json_response_def Let_def split: message.splits option.splits if_splits)

text \<open>The ways through the handler.\<close>

lemma post_cases:
  assumes "mcp_post_handler te env slug hs body st = Some (resp, st')"
  obtains (Early) "ts_is_shutting_down st \<and> ht_status resp = 503 \<or> \<not> is_json_content_type hs \<and> ht_status resp = 415"
      "st' = st" "\<forall>s. ht_body resp \<noteq> Sse_Body s"
  | (Missing) "\<not> ts_is_shutting_down st" "fst (resolve_slug slug (rt_cache (ts_router st))) = None" "ht_status resp = 404"
      "st' = st\<lparr>ts_router := (ts_router st)\<lparr>rt_cache := snd (resolve_slug slug (rt_cache (ts_router st)))\<rparr>\<rparr>"
      "\<forall>s. ht_body resp \<noteq> Sse_Body s"
  | (Denied) config e tv where "\<not> ts_is_shutting_down st"
      "fst (resolve_slug slug (rt_cache (ts_router st))) = Some config"
      "validate_request (te_auth te) (rx_semaphore (te_router te)) (pe_auth env) (header_str ''authorization'' hs) config
         (ts_validator st) = Some (Inl e, tv)" "ht_status resp \<in> {401, 403}"
      "st' = st\<lparr>ts_router := (ts_router st)\<lparr>rt_cache := snd (resolve_slug slug (rt_cache (ts_router st)))\<rparr>,
             ts_validator := tv\<rparr>" "\<forall>s. ht_body resp \<noteq> Sse_Body s"
  | (Full) config u tv e t where "\<not> ts_is_shutting_down st"
      "fst (resolve_slug slug (rt_cache (ts_router st))) = Some config"
      "validate_request (te_auth te) (rx_semaphore (te_router te)) (pe_auth env) (header_str ''authorization'' hs) config
         (ts_validator st) = Some (Inr u, tv)"
      "try_acquire (rx_semaphore (te_router te)) (pe_now env) (sc_id config) (sc_max_connections config)
         (ts_connection_tracker st) = (Inl e, t)" "ht_status resp = 503"
      "st' = st\<lparr>ts_router := (ts_router st)\<lparr>rt_cache := snd (resolve_slug slug (rt_cache (ts_router st)))\<rparr>,
             ts_validator := tv, ts_connection_tracker := t\<rparr>" "\<forall>s. ht_body resp \<noteq> Sse_Body s"
  | (Served) config u tv g t tok where "\<not> ts_is_shutting_down st"
      "fst (resolve_slug slug (rt_cache (ts_router st))) = Some config"
      "validate_request (te_auth te) (rx_semaphore (te_router te)) (pe_auth env) (header_str ''authorization'' hs) config
         (ts_validator st) = Some (Inr u, tv)"
      "try_acquire (rx_semaphore (te_router te)) (pe_now env) (sc_id config) (sc_max_connections config)
         (ts_connection_tracker st) = (Inr g, t)"
      "serve_message te env slug hs body tok g
         (st\<lparr>ts_router := (ts_router st)\<lparr>rt_cache := snd (resolve_slug slug (rt_cache (ts_router st)))\<rparr>,
             ts_validator := tv, ts_connection_tracker := t\<rparr>) = Some (resp, st')"
proof (cases "ts_is_shutting_down st \<or> \<not> is_json_content_type hs")
  case True
  with assms Early error_body [of te 503 "- 32005" "''Gateway is shutting down''"] show thesis
    by (auto simp: mcp_post_handler_def shutdown_response_def unsupported_response_def Let_def split: if_splits)
next
  case False
  note d = assms [unfolded mcp_post_handler_def Let_def split_beta] and ns = False
  show thesis
  proof (cases "fst (resolve_slug slug (rt_cache (ts_router st)))")
    case None
    with d ns error_body [of te 404 "- 32001" "''Server not found''"] show thesis by (intro Missing) auto
  next
    case (Some config)
    let ?v = "validate_request (te_auth te) (rx_semaphore (te_router te)) (pe_auth env)
        (header_str ''authorization'' hs) config (ts_validator st)"
    from d ns Some obtain r tv where v: "?v = Some (r, tv)" by (cases ?v) auto
    show thesis
    proof (cases r)
      case (Inl e)
      have "ht_status (auth_error_response te e) \<in> {401, 403} \<and> (\<forall>s. ht_body (auth_error_response te e) \<noteq> Sse_Body s)"
        using error_body [of te] by (cases e) (auto simp: auth_error_response_def build_json_error_def build_json_response_def)
      with d ns Some v Inl show thesis by (intro Denied [of config e tv]) auto
    next
      case (Inr u)
      let ?a = "try_acquire (rx_semaphore (te_router te)) (pe_now env) (sc_id config) (sc_max_connections config)
         (ts_connection_tracker st)"
      obtain a t where a: "?a = (a, t)" by (cases ?a)
      show thesis
      proof (cases a)
        case (Inl e)
        have "ht_status (capacity_response te e) = 503 \<and> (\<forall>s. ht_body (capacity_response te e) \<noteq> Sse_Body s)"
          using error_body [of te] by (auto simp: capacity_response_def build_json_error_def build_json_response_def)
        with d ns Some v Inr a Inl show thesis by (intro Full [of config u tv e t]) auto
      next
        case (Inr g)
        with d ns Some v \<open>r = Inr u\<close> a show thesis by (intro Served [of config u tv g t]) auto
      qed
    qed
  qed
qed

text \<open>
  C5: Whatever happens to a request, its connection is given back: after a response that is not an event
  stream all counters and the number of free permits are what they were before; an event stream holds
  the one guard of the request, sends its event with the first poll, and with the second ends and brings
  the counters back, as does dropping it when the client disconnects.
\<close>

theorem connection_given_back:
  assumes "semaphore_ok (rx_semaphore (te_router te))" "mcp_post_handler te env slug hs body st = Some (resp, st')"
  shows "case ht_body resp of
      Sse_Body s \<Rightarrow>
        tracker_same (rx_semaphore (te_router te)) (ts_connection_tracker st)
          (guard_drop (rx_semaphore (te_router te)) (st_guard s) (ts_connection_tracker st')) \<and>
        (\<exists>data s'. sse_next (rx_semaphore (te_router te)) s (ts_connection_tracker st') =
             (Some (data, s'), 0, ts_connection_tracker st') \<and>
           fst (sse_next (rx_semaphore (te_router te)) s' (ts_connection_tracker st')) = None \<and>
           tracker_same (rx_semaphore (te_router te)) (ts_connection_tracker st)
             (snd (snd (sse_next (rx_semaphore (te_router te)) s' (ts_connection_tracker st')))))
    | _ \<Rightarrow> tracker_same (rx_semaphore (te_router te)) (ts_connection_tracker st) (ts_connection_tracker st')"
  using assms(2)
proof (cases rule: post_cases)
  case (Full config u tv e t)
  then show ?thesis using refused_same [OF assms(1) Full(4)] by (auto split: response_body.split)
next
  case (Served config u tv g t tok)
  note same = acquire_drop_same [OF assms(1) Served(4)] serve_message_tracker [OF Served(5)]
  show ?thesis
  proof (cases "ht_body resp")
    case (Sse_Body s)
    with same sse_two_polls [of s "rx_semaphore (te_router te)" "ts_connection_tracker st'"] show ?thesis by fastforce
  qed (use same in simp_all)
qed (auto split: response_body.split)


section \<open>Histories of requests\<close>

text \<open>What the handlers read of the configuration cache; they change its counters only.\<close>

definition cache_view :: "config_cache \<Rightarrow> (uuid \<times> server_config) list \<times> (string \<times> uuid) list" where
  "cache_view c = (cc_inner c, cc_slug_index c)"

lemma resolve_view [simp]: "cache_view (snd (resolve_slug slug c)) = cache_view c"
  by (simp add: resolve_slug_def cache_get_def cache_view_def Let_def split: option.split)

lemma resolve_cong: "cache_view c = cache_view d \<Longrightarrow> fst (resolve_slug slug c) = fst (resolve_slug slug d)"
  by (simp add: resolve_slug_def cache_get_def cache_view_def slug_to_id_def Let_def split: option.split)

lemma dispatch_view:
  "dispatch_request rx env slug req tok rt = Some (resp, rt') \<Longrightarrow> cache_view (rt_cache rt') = cache_view (rt_cache rt)"
  by (auto simp: dispatch_request_def log_if_debug_def write_log_def Let_def split_beta
      split: option.splits if_splits)

lemma dispatch_result_view:
  "dispatch_result rx env slug r tok rt = Some (resp, rt') \<Longrightarrow> cache_view (rt_cache rt') = cache_view (rt_cache rt)"
  by (cases r) (auto simp: dispatch_result_def dest: dispatch_view)

lemma dispatch_batch_view:
  "dispatch_batch rx env slug tok i rs rt = Some (resps, rt') \<Longrightarrow> cache_view (rt_cache rt') = cache_view (rt_cache rt)"
proof (induction rs arbitrary: i rt resps)
  case (Cons r rs)
  then show ?case by (fastforce split: option.splits dest: dispatch_result_view)
qed simp

lemma serve_message_view:
  assumes "serve_message te env slug hs body tok g st = Some (resp, st')"
  shows "cache_view (rt_cache (ts_router st')) = cache_view (rt_cache (ts_router st)) \<and> ts_validator st' = ts_validator st"
proof (cases "parse_message (te_from_slice te) body")
  case (Single pr)
  with assms obtain rpc rt where d: "dispatch_result (te_router te) (pe_dispatch env 0) slug pr tok (ts_router st) = Some (rpc, rt)"
    and st: "ts_router st' = rt" "ts_validator st' = ts_validator st"
    by (auto simp: serve_message_def finish_response_def Let_def split: option.splits if_splits)
  show ?thesis using dispatch_result_view [OF d] st by simp
next
  case (Batch prs)
  with assms obtain rpcs rt where d: "dispatch_batch (te_router te) (pe_dispatch env) slug tok 0 prs (ts_router st) = Some (rpcs, rt)"
    and st: "ts_router st' = rt" "ts_validator st' = ts_validator st"
    by (auto simp: serve_message_def finish_response_def Let_def split: option.splits if_splits)
  show ?thesis using dispatch_batch_view [OF d] st by simp
qed

lemma post_view:
  assumes "mcp_post_handler te env slug hs body st = Some (resp, st')"
  shows "cache_view (rt_cache (ts_router st')) = cache_view (rt_cache (ts_router st))"
  using assms
proof (cases rule: post_cases)
  case (Served config u tv g t tok)
  with serve_message_view [OF Served(5)] show ?thesis by simp
qed simp_all

type_synonym post = "post_env \<times> string \<times> headers \<times> string"

fun post_all ::
  "('s, 'c, 'd, 'u, 'h, 'p) transport_ext \<Rightarrow> post list \<Rightarrow> ('s, 'c) transport_state
   \<Rightarrow> (http_response list \<times> ('s, 'c) transport_state) option" where
  "post_all te [] st = Some ([], st)"
| "post_all te ((env, slug, hs, body) # posts) st =
     (case mcp_post_handler te env slug hs body st of
        None \<Rightarrow> None
      | Some (resp, st1) \<Rightarrow> map_option (\<lambda>(resps, st2). (resp # resps, st2)) (post_all te posts st1))"

text \<open>The authentication attempts of the requests, with the configuration their slug leads to.\<close>

definition post_auths :: "config_cache \<Rightarrow> post list \<Rightarrow> auth_request set" where
  "post_auths cache posts =
     (\<Union>(env, slug, hs, body) \<in> set posts.
        (\<lambda>config. (pe_auth env, header_str ''authorization'' hs, config)) ` set_option (fst (resolve_slug slug cache)))"

lemma post_auths_Nil: "post_auths cache [] = {}"
  by (simp add: post_auths_def)

lemma post_auths_Cons: "post_auths cache ((env, slug, hs, body) # posts) =
    (\<lambda>config. (pe_auth env, header_str ''authorization'' hs, config)) ` set_option (fst (resolve_slug slug cache)) \<union>
    post_auths cache posts"
  by (simp add: post_auths_def)

lemma post_auths_cong: "cache_view c = cache_view d \<Longrightarrow> post_auths c posts = post_auths d posts"
  by (simp add: post_auths_def resolve_cong [of c d])

lemma cache_backed_mono: "cache_backed ag A tv \<Longrightarrow> A \<subseteq> B \<Longrightarrow> cache_backed ag B tv"
  unfolding cache_backed_def by blast

lemma post_backed:
  assumes "mcp_post_handler te env slug hs body st = Some (resp, st')" "cache_backed (te_auth te) past (ts_validator st)"
  shows "cache_backed (te_auth te) (post_auths (rt_cache (ts_router st)) [(env, slug, hs, body)] \<union> past) (ts_validator st')"
proof -
  have new: "cache_backed (te_auth te) (post_auths (rt_cache (ts_router st)) [(env, slug, hs, body)] \<union> past) tv"
    if "validate_request (te_auth te) (rx_semaphore (te_router te)) (pe_auth env) (header_str ''authorization'' hs) config
         (ts_validator st) = Some (r, tv)" "fst (resolve_slug slug (rt_cache (ts_router st))) = Some config" for config r tv
    by (rule cache_backed_mono [OF validate_step [OF that(1) assms(2)]]) (use that(2) in \<open>auto simp: post_auths_Cons\<close>)
  have old: "cache_backed (te_auth te) (post_auths (rt_cache (ts_router st)) [(env, slug, hs, body)] \<union> past) (ts_validator st)"
    by (rule cache_backed_mono [OF assms(2)]) simp
  from assms(1) show ?thesis
  proof (cases rule: post_cases)
    case (Served config u tv g t tok)
    with serve_message_view [OF Served(5)] new [OF Served(3,2)] show ?thesis by simp
  qed (use old new in auto)
qed

lemma post_all_backed:
  assumes "post_all te posts st = Some (resps, st')" "cache_backed (te_auth te) past (ts_validator st)"
  shows "cache_backed (te_auth te) (post_auths (rt_cache (ts_router st)) posts \<union> past) (ts_validator st') \<and>
    cache_view (rt_cache (ts_router st')) = cache_view (rt_cache (ts_router st))"
  using assms
proof (induction posts arbitrary: st resps past)
  case (Cons p posts)
  obtain env slug hs body where p: "p = (env, slug, hs, body)" by (cases p)
  from Cons.prems(1) obtain resp st1 resps' where s: "mcp_post_handler te env slug hs body st = Some (resp, st1)"
    "post_all te posts st1 = Some (resps', st')" by (auto simp: p split: option.splits)
  note v = post_view [OF s(1)]
  have "post_auths (rt_cache (ts_router st)) (p # posts) =
      post_auths (rt_cache (ts_router st)) posts \<union> post_auths (rt_cache (ts_router st)) [(env, slug, hs, body)]"
    by (auto simp: post_auths_Cons post_auths_Nil p)
  with Cons.IH [OF s(2) post_backed [OF s(1) Cons.prems(2)]] v post_auths_cong [OF v, of posts] show ?case
    by (simp add: Un_ac)
qed (simp add: post_auths_Nil)

text \<open>
  C1: End to end: whatever requests came before, a request is answered with 200 or 202 only if it carries a
  bearer token that this request, or an earlier one for the same server less than thirty seconds ago,
  verified against that server's stored hash, and the server is not suspended.
\<close>

theorem served_token_was_verified:
  assumes "uuid_text_ok (te_auth te)" "ts_validator st0 = validator_new api p"
    and "post_all te posts st0 = Some (resps, st)" "mcp_post_handler te env slug hs body st = Some (resp, st')"
    and "ht_status resp \<in> {200, 202}" "ae_now (pe_auth env) \<le> ae_done (pe_auth env)"
  shows "\<exists>config raw. fst (resolve_slug slug (rt_cache (ts_router st0))) = Some config \<and>
    header_str ''authorization'' hs = Some (''Bearer '' @ raw) \<and> raw \<noteq> [] \<and> sc_status config \<noteq> ''suspended'' \<and>
    (\<exists>req \<in> post_auths (rt_cache (ts_router st0)) ((env, slug, hs, body) # posts). \<exists>t.
       verified_in (te_auth te) (sc_id config) raw t req \<and> ae_now (pe_auth env) - t < 30)"
proof -
  let ?c = "rt_cache (ts_router st0)"
  have b: "cache_backed (te_auth te) (post_auths ?c posts) (ts_validator st)"
    "cache_view (rt_cache (ts_router st)) = cache_view ?c"
    using post_all_backed [OF assms(3), of "{}"] cache_backed_new [of "te_auth te" api p] assms(2) by simp_all
  from assms(4) show ?thesis
  proof (cases rule: post_cases)
    case (Served config u tv g t tok)
    then have c: "fst (resolve_slug slug ?c) = Some config" using resolve_cong [OF b(2)] by metis
    then have "insert (pe_auth env, header_str ''authorization'' hs, config) (post_auths ?c posts) \<subseteq>
        post_auths ?c ((env, slug, hs, body) # posts)" by (auto simp: post_auths_Cons)
    with accepted_backed [OF assms(1) b(1) Served(3) assms(6)] c show ?thesis by blast
  qed (use assms(5) in auto)
qed

section \<open>Batches and notifications\<close>

definition result_id :: "parse_result \<Rightarrow> json option" where
  "result_id r = (case r of Request q \<Rightarrow> pr_id q | Notification q \<Rightarrow> pr_id q | Error e \<Rightarrow> jr_id e)"

definition is_initialized :: "parse_result \<Rightarrow> bool" where
  "is_initialized r = (case r of Request q \<Rightarrow> pr_method q = ''initialized'' | _ \<Rightarrow> False)"

lemma dispatch_result_id:
  assumes "dispatch_result rx env slug r tok rt = Some (resp, rt')"
  shows "is_note r \<or> is_initialized r \<or> jr_id resp = result_id r"
proof (cases r)
  case (Request q)
  with assms have "dispatch_request rx env slug q tok rt = Some (resp, rt')" by (simp add: dispatch_result_def)
  then show ?thesis
    by (cases rule: dispatch_cases)
      (auto simp: Request result_id_def is_initialized_def make_ok_response_def make_error_response_def split: sum.split)
qed (use assms in \<open>auto simp: dispatch_result_def result_id_def is_note_def\<close>)

text \<open>
  A batch is answered with one response per item that is not a notification, in the order of the items,
  each with the id of its item; the acknowledgement of a request \<open>initialized\<close> has a null id instead.
\<close>

theorem batch_answers_in_order:
  assumes "dispatch_batch rx env slug tok i results rt = Some (resps, rt')"
  shows "list_all2 (\<lambda>r resp. is_initialized r \<or> jr_id resp = result_id r)
    (filter (\<lambda>r. \<not> is_note r) results) resps"
  using assms
proof (induction results arbitrary: i rt resps)
  case (Cons r results)
  then obtain resp rt1 resps' where s: "dispatch_result rx (env i) slug r tok rt = Some (resp, rt1)"
    "dispatch_batch rx env slug tok (Suc i) results rt1 = Some (resps', rt')"
    "resps = (if is_note r then [] else [resp]) @ resps'" by (auto split: option.splits)
  from Cons.IH [OF s(2)] dispatch_result_id [OF s(1)] s(3) show ?case by auto
qed simp

text \<open>
  A notification whose method has a result is answered: a \<open>ping\<close> without an id, which JSON-RPC
  forbids to answer, gets status 200 and a body.
\<close>

theorem ping_notification_answered:
  assumes "parse_message (te_from_slice te) body = Single (Notification req)" "pr_method req = ''ping''"
    and "fst (resolve_slug slug (rt_cache (ts_router st))) = Some config" "\<not> wants_sse hs"
  shows "\<exists>st' t. serve_message te env slug hs body tok g st =
    Some (build_json_response 200 t, st') \<and> t = serialize_rpc te (make_ok_response (pr_id req) (json_obj []))"
proof -
  have "\<exists>rt'. dispatch_request (te_router te) (pe_dispatch env 0) slug req tok (ts_router st) =
      Some (make_ok_response (pr_id req) (json_obj []), rt')"
    using assms(2,3) by (simp add: dispatch_request_def split_beta Let_def)
  then show ?thesis
    using assms(1,4)
    by (auto simp: serve_message_def dispatch_result_def make_ok_response_def finish_response_def Let_def)
qed

section \<open>Examples\<close>

definition sample_te :: "(nat, nat \<times> log_msg list, nat, string \<times> string option, string, unit) transport_ext" where
  "sample_te =
     \<lparr>te_router = sample_rx, te_auth = sample_ag,
      te_from_slice = (\<lambda>_. Some (json_obj [(''jsonrpc'', String ''2.0''), (''method'', String ''ping''), (''id'', String ''1'')])),
      te_value_to_string = (\<lambda>_. ''value''), te_response_to_string = (\<lambda>_. Some ''response''),
      te_batch_to_string = (\<lambda>_. Some ''batch'')\<rparr>"

definition sample_transport :: "(nat, nat \<times> log_msg list) transport_state" where
  "sample_transport =
     transport_new (validator_new nat_semaphore None)
       (sample_router\<lparr>rt_cache := cache_upsert (auth_config ''cba'') cache_new\<rparr>) (tracker_new nat_semaphore 10) False"

definition sample_headers :: headers where
  "sample_headers = [(''content-type'', Some ''application/json''), (''authorization'', Some ''Bearer abc'')]"

definition sample_post_env :: "int \<Rightarrow> post_env" where
  "sample_post_env t = \<lparr>pe_auth = sample_auth_env t, pe_now = 5, pe_dispatch = (\<lambda>_. sample_env 200)\<rparr>"

definition sample_ping :: parsed_request where
  "sample_ping = \<lparr>pr_jsonrpc = ''2.0'', pr_id = Some (String ''1''), pr_method = ''ping'', pr_params = None\<rparr>"

lemma sample_parse: "parse_message (te_from_slice sample_te) ''x'' = Single (Request sample_ping)"
  by (simp add: parse_message_def MAX_BODY_SIZE_def sample_te_def parse_single_def json_obj_def obj_get_of
      RECOGNIZED_METHODS_def sample_ping_def)

lemma sample_resolve: "fst (resolve_slug (db_slug sample_row) (rt_cache (ts_router sample_transport))) = Some (auth_config ''cba'')"
  by code_simp

lemma sample_admitted:
  "map_option fst (validate_request sample_ag nat_semaphore (sample_auth_env 100) (Some ''Bearer abc'') (auth_config ''cba'')
     (ts_validator sample_transport)) = Some (Inr ())"
  "is_ok (fst (try_acquire nat_semaphore 5 (sc_id (auth_config ''cba'')) (sc_max_connections (auth_config ''cba''))
     (ts_connection_tracker sample_transport)))"
  by code_simp+

lemma sample_checks: "is_json_content_type sample_headers" "\<not> wants_sse sample_headers"
  "header_str ''authorization'' sample_headers = Some ''Bearer abc''" "\<not> ts_is_shutting_down sample_transport"
  by code_simp+

lemma ping_served:
  assumes "parse_message (te_from_slice te) body = Single (Request req)" "pr_method req = ''ping''"
    and "fst (resolve_slug slug (rt_cache (ts_router st))) = Some config" "\<not> wants_sse hs"
  shows "\<exists>st' t. serve_message te env slug hs body tok g st = Some (build_json_response 200 t, st')"
proof -
  have "\<exists>rt'. dispatch_request (te_router te) (pe_dispatch env 0) slug req tok (ts_router st) =
      Some (make_ok_response (pr_id req) (json_obj []), rt')"
    using assms(2,3) by (simp add: dispatch_request_def split_beta Let_def)
  then show ?thesis
    using assms(1,4) by (auto simp: serve_message_def dispatch_result_def is_note_def finish_response_def Let_def)
qed

lemma sample_post:
  "\<exists>t st'. mcp_post_handler sample_te (sample_post_env 100) (db_slug sample_row) sample_headers ''x'' sample_transport =
     Some (build_json_response 200 t, st')"
proof -
  let ?a = "try_acquire nat_semaphore 5 (sc_id (auth_config ''cba'')) (sc_max_connections (auth_config ''cba''))
     (ts_connection_tracker sample_transport)"
  obtain tv where v: "validate_request sample_ag nat_semaphore (sample_auth_env 100) (Some ''Bearer abc'')
      (auth_config ''cba'') (ts_validator sample_transport) = Some (Inr (), tv)" using sample_admitted(1) by auto
  obtain g t where a: "?a = (Inr g, t)"
    using sample_admitted(2) by (cases "fst ?a"; cases ?a) (auto simp del: split_paired_Ex)
  have te: "te_router sample_te = sample_rx" "te_auth sample_te = sample_ag" "rx_semaphore sample_rx = nat_semaphore"
    "pe_auth (sample_post_env 100) = sample_auth_env 100" "pe_now (sample_post_env 100) = 5"
    by (simp_all add: sample_te_def sample_rx_def sample_post_env_def)
  let ?st = "sample_transport\<lparr>ts_router := (ts_router sample_transport)
        \<lparr>rt_cache := snd (resolve_slug (db_slug sample_row) (rt_cache (ts_router sample_transport)))\<rparr>,
       ts_validator := tv, ts_connection_tracker := t\<rparr>"
  have "fst (resolve_slug (db_slug sample_row) (rt_cache (ts_router ?st))) = Some (auth_config ''cba'')"
    using sample_resolve resolve_cong [OF resolve_view] by simp
  note served = ping_served [OF sample_parse _ this sample_checks(2)]
  have "\<exists>ta st'. serve_message sample_te (sample_post_env 100) (db_slug sample_row) sample_headers ''x'' tok g ?st =
      Some (build_json_response 200 ta, st')" for tok
    using served [where env = "sample_post_env 100" and tok = tok and g = g] by (auto simp: sample_ping_def)
  then show ?thesis
    by (simp add: mcp_post_handler_def Let_def split_beta sample_resolve v a te sample_checks sample_ping_def)
qed

lemma sample_batch:
  "\<exists>resps rt'. dispatch_batch sample_rx (\<lambda>_. sample_env 200) (db_slug sample_row) None 0
     [Request sample_ping, Notification sample_ping, Request sample_ping] (ts_router sample_transport) = Some (resps, rt')"
proof -
  have "\<exists>rt'. dispatch_request sample_rx e (db_slug sample_row) sample_ping None rt =
      Some (make_ok_response (pr_id sample_ping) (json_obj []), rt')"
    if "fst (resolve_slug (db_slug sample_row) (rt_cache rt)) = Some config" for e config rt
    using that by (simp add: dispatch_request_def split_beta Let_def sample_ping_def)
  then have step: "\<exists>r rt'. dispatch_result sample_rx e (db_slug sample_row) pr None rt = Some (r, rt') \<and>
      fst (resolve_slug (db_slug sample_row) (rt_cache rt')) = Some config"
    if "fst (resolve_slug (db_slug sample_row) (rt_cache rt)) = Some config"
      "pr = Request sample_ping \<or> pr = Notification sample_ping" for e config rt pr
    using that resolve_cong [OF dispatch_view] by (fastforce simp: dispatch_result_def)
  obtain r1 rt1 where s1: "dispatch_result sample_rx (sample_env 200) (db_slug sample_row) (Request sample_ping) None
      (ts_router sample_transport) = Some (r1, rt1)"
    "fst (resolve_slug (db_slug sample_row) (rt_cache rt1)) = Some (auth_config ''cba'')"
    using step [OF sample_resolve] by blast
  obtain r2 rt2 where s2: "dispatch_result sample_rx (sample_env 200) (db_slug sample_row) (Notification sample_ping) None
      rt1 = Some (r2, rt2)" "fst (resolve_slug (db_slug sample_row) (rt_cache rt2)) = Some (auth_config ''cba'')"
    using step [OF s1(2)] by blast
  obtain r3 rt3 where s3: "dispatch_result sample_rx (sample_env 200) (db_slug sample_row) (Request sample_ping) None
      rt2 = Some (r3, rt3)" using step [OF s2(2)] by blast
  show ?thesis by (simp add: s1 s2 s3)
qed

theorem connection_given_back_witness:
  "\<exists>st'. tracker_same nat_semaphore (ts_connection_tracker sample_transport) (ts_connection_tracker st') \<and>
     (\<exists>resp. mcp_post_handler sample_te (sample_post_env 100) (db_slug sample_row) sample_headers ''x'' sample_transport =
       Some (resp, st'))"
proof -
  have sem: "rx_semaphore (te_router sample_te) = nat_semaphore" by (simp add: sample_te_def sample_rx_def)
  obtain t st' where p: "mcp_post_handler sample_te (sample_post_env 100) (db_slug sample_row) sample_headers ''x''
      sample_transport = Some (build_json_response 200 t, st')" using sample_post by blast
  have "semaphore_ok (rx_semaphore (te_router sample_te))" by (simp add: sem nat_semaphore_ok)
  from connection_given_back [OF this p] p show ?thesis by (auto simp: sem build_json_response_def set_header_def)
qed


theorem served_token_was_verified_witness:
  "\<exists>req \<in> post_auths (rt_cache (ts_router sample_transport))
       [(sample_post_env 100, db_slug sample_row, sample_headers, ''x'')].
     \<exists>t. verified_in sample_ag (db_id sample_row) ''abc'' t req \<and> 100 - t < 30"
proof -
  have te: "te_auth sample_te = sample_ag" by (simp add: sample_te_def)
  have tv: "ts_validator sample_transport = validator_new nat_semaphore None"
    by (simp add: sample_transport_def transport_new_def)
  have now: "ae_now (pe_auth (sample_post_env 100)) \<le> ae_done (pe_auth (sample_post_env 100))"
    "ae_now (pe_auth (sample_post_env 100)) = 100" by (simp_all add: sample_post_env_def sample_auth_env_def)
  obtain t st' where p: "mcp_post_handler sample_te (sample_post_env 100) (db_slug sample_row) sample_headers ''x''
      sample_transport = Some (build_json_response 200 t, st')" using sample_post by blast
  have ok: "uuid_text_ok (te_auth sample_te)" by (simp add: te sample_ag_ok)
  have s: "ht_status (build_json_response 200 t) \<in> {200, 202}" by (simp add: build_json_response_def set_header_def)
  have "post_all sample_te [] sample_transport = Some ([], sample_transport)" by simp
  from served_token_was_verified [OF ok tv this p s now(1)] show ?thesis
    by (auto simp: sample_resolve sample_checks te now(2) auth_config_def config_of_row_def)
qed

theorem batch_answers_in_order_witness:
  "\<exists>resps rt'. dispatch_batch sample_rx (\<lambda>_. sample_env 200) (db_slug sample_row) None 0
     [Request sample_ping, Notification sample_ping, Request sample_ping] (ts_router sample_transport) = Some (resps, rt') \<and>
     map jr_id resps = [Some (String ''1''), Some (String ''1'')]"
proof -
  obtain resps rt' where b: "dispatch_batch sample_rx (\<lambda>_. sample_env 200) (db_slug sample_row) None 0
     [Request sample_ping, Notification sample_ping, Request sample_ping] (ts_router sample_transport) = Some (resps, rt')"
    using sample_batch by blast
  from batch_answers_in_order [OF b] b show ?thesis
    by (auto simp: is_note_def is_initialized_def result_id_def sample_ping_def list_all2_Cons1)
qed

end
