(* ===== verification/Sse.thy ===== *)
theory Sse
  imports Transport
begin

text \<open>
  The SSE fallback transport (\<open>services/gateway/src/sse.rs\<close>): the registry of sessions and its
  sweeper, \<open>GET /sse/:slug\<close> with the event stream that holds the connection guard, and
  \<open>POST /messages/:slug\<close>, whose responses travel over the stream of the session. The channel of a
  session is tokio's \<open>mpsc\<close> (\<open>mpsc_api\<close> of theory \<open>Logging\<close>); a channel has a number,
  the registry's handle owns its sender and the stream its receiver. The configuration cache, the router,
  the token validator and the connection tracker are the ones of theory \<open>Transport\<close>.
\<close>

section \<open>The registry\<close>

definition MAX_SSE_SESSIONS :: nat where "MAX_SSE_SESSIONS = 10000"
definition SESSION_TIMEOUT_SECS :: u64 where "SESSION_TIMEOUT_SECS = 120"
definition SWEEP_INTERVAL_SECS :: u64 where "SWEEP_INTERVAL_SECS = 30"

record session_handle =
  sh_sender :: nat
  sh_last_activity :: u64
  sh_slug :: string
  sh_token_prefix :: "string option"

text \<open>\<open>sr_chans ! n\<close> is the channel with number \<open>n\<close>.\<close>

record 'k session_registry =
  sr_sessions :: "(uuid \<times> session_handle) list"
  sr_chans :: "'k list"

text \<open>\<open>kx_drop_receiver\<close> is the drop of the receiving half, after which every send is refused.\<close>

record 'k session_chan_api =
  kx_mpsc :: "(string, 'k) mpsc_api"
  kx_drop_receiver :: "'k \<Rightarrow> 'k"

datatype session_send_error = NotFound | SessionClosed

definition session_registry_new :: "'k session_registry" where
  "session_registry_new = \<lparr>sr_sessions = [], sr_chans = []\<rparr>"

definition session_registry_len :: "'k session_registry \<Rightarrow> nat" where
  "session_registry_len reg = length (sr_sessions reg)"

definition session_registry_is_empty :: "'k session_registry \<Rightarrow> bool" where
  "session_registry_is_empty reg = (sr_sessions reg = [])"

definition register ::
  "'k session_chan_api \<Rightarrow> u64 \<Rightarrow> uuid \<Rightarrow> string \<Rightarrow> string option \<Rightarrow> 'k session_registry \<Rightarrow> nat \<times> 'k session_registry" where
  "register kx now session_id slug token_prefix reg =
     (let n = length (sr_chans reg) in
      (n, reg\<lparr>sr_chans := sr_chans reg @ [mp_channel (kx_mpsc kx) 64],
              sr_sessions := AList.update session_id
                \<lparr>sh_sender = n, sh_last_activity = now, sh_slug = slug, sh_token_prefix = token_prefix\<rparr>
                (sr_sessions reg)\<rparr>))"

definition session_registry_remove :: "uuid \<Rightarrow> 'k session_registry \<Rightarrow> 'k session_registry" where
  "session_registry_remove session_id reg = reg\<lparr>sr_sessions := AList.delete session_id (sr_sessions reg)\<rparr>"

definition session_registry_send ::
  "'k session_chan_api \<Rightarrow> u64 \<Rightarrow> uuid \<Rightarrow> string \<Rightarrow> 'k session_registry
   \<Rightarrow> (session_send_error + unit) \<times> 'k session_registry" where
  "session_registry_send kx now session_id message reg =
     (case map_of (sr_sessions reg) session_id of
        None \<Rightarrow> (Inl NotFound, reg)
      | Some entry \<Rightarrow>
          let reg1 = reg\<lparr>sr_sessions := AList.update session_id (entry\<lparr>sh_last_activity := now\<rparr>) (sr_sessions reg)\<rparr> in
          (case mp_try_send (kx_mpsc kx) message (sr_chans reg1 ! sh_sender entry) of
             Inl _ \<Rightarrow> (Inl SessionClosed, reg1)
           | Inr c \<Rightarrow> (Inr (), reg1\<lparr>sr_chans := (sr_chans reg1)[sh_sender entry := c]\<rparr>)))"

definition cancel_message :: json where
  "cancel_message =
     json_obj [(''jsonrpc'', String ''2.0''), (''method'', String ''notifications/cancelled''),
       (''params'', json_obj [(''reason'', String ''session_timeout'')])]"

text \<open>The body of the loop over the sessions that timed out.\<close>

definition close_idle ::
  "'k session_chan_api \<Rightarrow> string \<Rightarrow> uuid \<Rightarrow> 'k session_registry \<Rightarrow> 'k session_registry" where
  "close_idle kx cancel session_id reg =
     (let reg1 = (case map_of (sr_sessions reg) session_id of
            None \<Rightarrow> reg
          | Some entry \<Rightarrow>
              (case mp_try_send (kx_mpsc kx) cancel (sr_chans reg ! sh_sender entry) of
                 Inl _ \<Rightarrow> reg
               | Inr c \<Rightarrow> reg\<lparr>sr_chans := (sr_chans reg)[sh_sender entry := c]\<rparr>))
      in session_registry_remove session_id reg1)"

definition sweep ::
  "('s, 'c, 'd, 'u, 'h, 'p) transport_ext \<Rightarrow> 'k session_chan_api \<Rightarrow> u64 \<Rightarrow> 'k session_registry \<Rightarrow> 'k session_registry" where
  "sweep te kx now reg =
     (let cutoff = saturating_sub now SESSION_TIMEOUT_SECS;
          timed_out = map fst (filter (\<lambda>(_, h). sh_last_activity h < cutoff) (sr_sessions reg))
      in fold (close_idle kx (te_value_to_string te cancel_message)) timed_out reg)"

text \<open>
  The sweeper task: \<open>clock t\<close> is the second that \<open>now_secs\<close> reads \<open>t\<close> seconds after the start;
  \<open>n\<close> turns of the loop.
\<close>

fun session_sweeper ::
  "('s, 'c, 'd, 'u, 'h, 'p) transport_ext \<Rightarrow> 'k session_chan_api \<Rightarrow> (u64 \<Rightarrow> u64) \<Rightarrow> nat \<Rightarrow> u64 \<times> 'k session_registry
   \<Rightarrow> u64 \<times> 'k session_registry" where
  "session_sweeper te kx clock 0 (t, reg) = (t, reg)"
| "session_sweeper te kx clock (Suc n) (t, reg) =
     (let t1 = t + SWEEP_INTERVAL_SECS in session_sweeper te kx clock n (t1, sweep te kx (clock t1) reg))"

definition now_secs :: "u64 option \<Rightarrow> u64" where
  "now_secs since_epoch = (case since_epoch of Some d \<Rightarrow> d | None \<Rightarrow> 0)"

section \<open>State and streams\<close>

record ('s, 'c, 'k) sse_state =
  ss_validator :: "'s token_validator"
  ss_router :: "('s, 'c) router"
  ss_connection_tracker :: "'s connection_tracker"
  ss_registry :: "'k session_registry"
  ss_is_shutting_down :: bool
  ss_keepalive_interval_secs :: u64

definition sse_state_new ::
  "'s token_validator \<Rightarrow> ('s, 'c) router \<Rightarrow> 's connection_tracker \<Rightarrow> 'k session_registry \<Rightarrow> bool \<Rightarrow> ('s, 'c, 'k) sse_state" where
  "sse_state_new validator rt tracker reg shutting_down =
     \<lparr>ss_validator = validator, ss_router = rt, ss_connection_tracker = tracker, ss_registry = reg,
      ss_is_shutting_down = shutting_down, ss_keepalive_interval_secs = 15\<rparr>"

datatype stream_state =
    Endpoint (ep_url: string) (sm_rx: nat) (sm_guard: connection_guard) (sm_session_id: uuid)
  | Messages (sm_rx: nat) (sm_guard: connection_guard) (sm_session_id: uuid)

datatype sse_event = Endpoint_Event string | Data_Event string

text \<open>The result of one poll of the stream; \<open>Pending\<close> is \<open>rx.recv()\<close> that waits.\<close>

datatype stream_poll = Pending | Yield sse_event stream_state | Done

text \<open>The sender of a channel lives in the handle of a registered session and nowhere else.\<close>

definition sender_alive :: "nat \<Rightarrow> 'k session_registry \<Rightarrow> bool" where
  "sender_alive n reg = list_ex (\<lambda>(_, h). sh_sender h = n) (sr_sessions reg)"

definition stream_next ::
  "'s semaphore_api \<Rightarrow> 'k session_chan_api \<Rightarrow> stream_state \<Rightarrow> ('s, 'c, 'k) sse_state
   \<Rightarrow> stream_poll \<times> ('s, 'c, 'k) sse_state" where
  "stream_next api kx s st =
     (case s of
        Endpoint url rx guard session_id \<Rightarrow> (Yield (Endpoint_Event url) (Messages rx guard session_id), st)
      | Messages rx guard session_id \<Rightarrow>
          let reg = ss_registry st in
          (case mp_recv (kx_mpsc kx) (sr_chans reg ! rx) of
             Some (json_str, c) \<Rightarrow>
               (Yield (Data_Event json_str) (Messages rx guard session_id),
                st\<lparr>ss_registry := reg\<lparr>sr_chans := (sr_chans reg)[rx := c]\<rparr>\<rparr>)
           | None \<Rightarrow>
               if sender_alive rx reg then (Pending, st)
               else (Done,
                     st\<lparr>ss_registry := session_registry_remove session_id reg,
                        ss_connection_tracker := guard_drop api guard (ss_connection_tracker st)\<rparr>)))"

text \<open>
  When the client disconnects, the server drops the response body and with it the stream: its receiver
  and its guard are dropped. No code of the repository runs, and the registry keeps the session.
\<close>

definition stream_drop ::
  "'s semaphore_api \<Rightarrow> 'k session_chan_api \<Rightarrow> stream_state \<Rightarrow> ('s, 'c, 'k) sse_state \<Rightarrow> ('s, 'c, 'k) sse_state" where
  "stream_drop api kx s st =
     (let reg = ss_registry st in
      st\<lparr>ss_registry := reg\<lparr>sr_chans := (sr_chans reg)[sm_rx s := kx_drop_receiver kx (sr_chans reg ! sm_rx s)]\<rparr>,
         ss_connection_tracker := guard_drop api (sm_guard s) (ss_connection_tracker st)\<rparr>)"

section \<open>GET /sse/:slug\<close>

definition sse_json_error :: "('s, 'c, 'd, 'u, 'h, 'p) transport_ext \<Rightarrow> nat \<Rightarrow> string \<Rightarrow> http_response" where
  "sse_json_error te status message =
     (let body = te_value_to_string te
            (json_obj [(''jsonrpc'', String ''2.0''),
               (''error'', json_obj [(''code'', json_int (- 32000)), (''message'', String message)]),
               (''id'', Null)])
      in set_header ''access-control-allow-origin'' ''*'' (set_header ''cache-control'' ''no-store''
           (set_header ''content-type'' ''application/json''
             \<lparr>ht_status = status, ht_headers = [], ht_body = Text_Body body\<rparr>)))"

text \<open>A refusal, or an open stream with the headers that were set and the seconds between heartbeats.\<close>

datatype connect_result =
    Refused http_response
  | Opened "(string \<times> string) list" u64 stream_state

record connect_env =
  ce_auth :: auth_env
  ce_now :: nat
  ce_now_secs :: u64
  ce_uuid :: uuid

definition keepalive_secs :: "u64 \<Rightarrow> u64" where
  "keepalive_secs interval = (if interval > 0 then interval else 3600)"

text \<open>Steps 5 and 6, with the guard held.\<close>

definition open_session ::
  "('s, 'c, 'd, 'u, 'h, 'p) transport_ext \<Rightarrow> 'k session_chan_api \<Rightarrow> connect_env \<Rightarrow> string \<Rightarrow> string option
   \<Rightarrow> connection_guard \<Rightarrow> ('s, 'c, 'k) sse_state \<Rightarrow> connect_result \<times> ('s, 'c, 'k) sse_state" where
  "open_session te kx env slug token_prefix conn_guard st =
     (let session_id = ce_uuid env;
          (rx, reg) = register kx (ce_now_secs env) session_id slug token_prefix (ss_registry st);
          endpoint_url = ''/messages/'' @ slug @ ''?session_id='' @ ag_uuid_string (te_auth te) session_id
      in (Opened [(''cache-control'', ''no-store''), (''access-control-allow-origin'', ''*'')]
            (keepalive_secs (ss_keepalive_interval_secs st)) (Endpoint endpoint_url rx conn_guard session_id),
          st\<lparr>ss_registry := reg\<rparr>))"

text \<open>Steps 0 and 1, which run before the first lookup.\<close>

definition connect_refusal :: "('s, 'c, 'd, 'u, 'h, 'p) transport_ext \<Rightarrow> ('s, 'c, 'k) sse_state \<Rightarrow> http_response option" where
  "connect_refusal te st =
     (if ss_is_shutting_down st then
        Some (set_header ''retry-after'' ''5'' (set_header ''connection'' ''close''
          (sse_json_error te 503 ''Gateway is shutting down'')))
      else if session_registry_len (ss_registry st) \<ge> MAX_SSE_SESSIONS then
        Some (set_header ''retry-after'' ''5'' (sse_json_error te 503 ''SSE session limit reached''))
      else None)"

definition sse_auth_error :: "('s, 'c, 'd, 'u, 'h, 'p) transport_ext \<Rightarrow> auth_error \<Rightarrow> http_response" where
  "sse_auth_error te e =
     (case e of
        ServerSuspended \<Rightarrow> sse_json_error te 403 ''Forbidden''
      | _ \<Rightarrow> set_header ''www-authenticate'' ''Bearer realm=\"mcp-gateway\"''
                (sse_json_error te 401 ''Unauthorized''))"

definition sse_capacity_error :: "('s, 'c, 'd, 'u, 'h, 'p) transport_ext \<Rightarrow> capacity_error \<Rightarrow> http_response" where
  "sse_capacity_error te e =
     set_header ''retry-after'' ''1''
       (sse_json_error te 503
         (case e of ServerLimitReached \<Rightarrow> ''Server at capacity'' | GlobalLimitReached \<Rightarrow> ''Gateway at capacity''))"

definition sse_connect_handler ::
  "('s, 'c, 'd, 'u, 'h, 'p) transport_ext \<Rightarrow> 'k session_chan_api \<Rightarrow> connect_env \<Rightarrow> string \<Rightarrow> headers
   \<Rightarrow> ('s, 'c, 'k) sse_state \<Rightarrow> (connect_result \<times> ('s, 'c, 'k) sse_state) option" where
  "sse_connect_handler te kx env slug hs st =
     (let api = rx_semaphore (te_router te) in
      case connect_refusal te st of
        Some resp \<Rightarrow> Some (Refused resp, st)
      | None \<Rightarrow>
          let (found, cache) = resolve_slug slug (rt_cache (ss_router st));
              st1 = st\<lparr>ss_router := (ss_router st)\<lparr>rt_cache := cache\<rparr>\<rparr>
          in case found of
               None \<Rightarrow> Some (Refused (sse_json_error te 404 ''Server not found''), st1)
             | Some config \<Rightarrow>
                 let auth_header = header_str ''authorization'' hs in
                 (case validate_request (te_auth te) api (ce_auth env) auth_header config (ss_validator st1) of
                    None \<Rightarrow> None
                  | Some (Inl e, tv) \<Rightarrow> Some (Refused (sse_auth_error te e), st1\<lparr>ss_validator := tv\<rparr>)
                  | Some (Inr _, tv) \<Rightarrow>
                      let st2 = st1\<lparr>ss_validator := tv\<rparr>;
                          token_prefix = Option.bind auth_header
                            (\<lambda>h. map_option extract_token_prefix (strip_prefix ''Bearer '' h));
                          (acquired, tracker) = try_acquire api (ce_now env) (sc_id config) (sc_max_connections config)
                            (ss_connection_tracker st2);
                          st3 = st2\<lparr>ss_connection_tracker := tracker\<rparr>
                      in case acquired of
                           Inl e \<Rightarrow> Some (Refused (sse_capacity_error te e), st3)
                         | Inr conn_guard \<Rightarrow> Some (open_session te kx env slug token_prefix conn_guard st3)))"

section \<open>POST /messages/:slug\<close>

definition build_plain_error :: "string \<Rightarrow> string" where
  "build_plain_error msg = msg"

definition plain_response :: "nat \<Rightarrow> string \<Rightarrow> http_response" where
  "plain_response status body = \<lparr>ht_status = status, ht_headers = [], ht_body = Text_Body body\<rparr>"

definition accepted :: http_response where
  "accepted = \<lparr>ht_status = 202, ht_headers = [], ht_body = Empty_Body\<rparr>"

definition dispatch_one ::
  "('s, 'c, 'd, 'u) router_ext \<Rightarrow> dispatch_env \<Rightarrow> string \<Rightarrow> parse_result \<Rightarrow> string option \<Rightarrow> ('s, 'c) router
   \<Rightarrow> (json_rpc_response \<times> ('s, 'c) router) option" where
  "dispatch_one rx env slug result token_prefix rt =
     (case result of
        Request req \<Rightarrow> dispatch_request rx env slug req token_prefix rt
      | Notification req \<Rightarrow> dispatch_request rx env slug req token_prefix rt
      | Error resp \<Rightarrow> Some (resp, rt))"

fun dispatch_all ::
  "('s, 'c, 'd, 'u) router_ext \<Rightarrow> (nat \<Rightarrow> dispatch_env) \<Rightarrow> string \<Rightarrow> string option \<Rightarrow> nat \<Rightarrow> parse_result list
   \<Rightarrow> ('s, 'c) router \<Rightarrow> (json_rpc_response list \<times> ('s, 'c) router) option" where
  "dispatch_all rx env slug token_prefix i [] rt = Some ([], rt)"
| "dispatch_all rx env slug token_prefix i (result # results) rt =
     (let skip = (case result of Notification _ \<Rightarrow> True | _ \<Rightarrow> False) in
      case dispatch_one rx (env i) slug result token_prefix rt of
        None \<Rightarrow> None
      | Some (rpc, rt1) \<Rightarrow>
          map_option (\<lambda>(responses, rt2). (if skip then responses else rpc # responses, rt2))
            (dispatch_all rx env slug token_prefix (Suc i) results rt1))"

text \<open>Steps 0 to 2: the session, or the answer that refuses the request.\<close>

definition messages_admit :: "string \<Rightarrow> uuid option \<Rightarrow> headers \<Rightarrow> 'k session_registry \<Rightarrow> http_response + uuid" where
  "messages_admit slug session_id_param hs reg =
     (case session_id_param of
        None \<Rightarrow> Inl (plain_response 400 (build_plain_error ''session_id query parameter is required''))
      | Some session_id \<Rightarrow>
          if \<not> is_json_content_type hs then
            Inl (plain_response 415 (build_plain_error ''Content-Type must be application/json''))
          else
            (case map_of (sr_sessions reg) session_id of
               None \<Rightarrow> Inl (plain_response 400 (build_plain_error ''Unknown session_id''))
             | Some entry \<Rightarrow>
                 if sh_slug entry \<noteq> slug then
                   Inl (plain_response 400 (build_plain_error ''session_id does not belong to this server slug''))
                 else Inr session_id))"

text \<open>The token prefix is read by a second lookup.\<close>

definition session_token_prefix :: "uuid \<Rightarrow> 'k session_registry \<Rightarrow> string option" where
  "session_token_prefix session_id reg =
     Option.bind (map_of (sr_sessions reg) session_id) sh_token_prefix"

text \<open>The dispatch of the message: the text to push to the stream, if there is one.\<close>

definition messages_dispatch ::
  "('s, 'c, 'd, 'u, 'h, 'p) transport_ext \<Rightarrow> (nat \<Rightarrow> dispatch_env) \<Rightarrow> string \<Rightarrow> string \<Rightarrow> string option \<Rightarrow> ('s, 'c) router
   \<Rightarrow> (string option \<times> ('s, 'c) router) option" where
  "messages_dispatch te env slug body token_prefix rt =
     (case parse_message (te_from_slice te) body of
        Single parse_result \<Rightarrow>
          let is_notification = (case parse_result of Notification _ \<Rightarrow> True | _ \<Rightarrow> False) in
          (case dispatch_one (te_router te) (env 0) slug parse_result token_prefix rt of
             None \<Rightarrow> None
           | Some (rpc_resp, rt1) \<Rightarrow>
               if is_notification \<and> jr_result rpc_resp = None \<and> jr_error rpc_resp = None then Some (None, rt1)
               else Some (Some (serialize_rpc te rpc_resp), rt1))
      | Batch results \<Rightarrow>
          (case dispatch_all (te_router te) env slug token_prefix 0 results rt of
             None \<Rightarrow> None
           | Some (responses, rt1) \<Rightarrow>
               Some (Some (case te_batch_to_string te responses of Some s \<Rightarrow> s | None \<Rightarrow> ''[]''), rt1)))"

text \<open>The end of the handler: the result of the send is ignored.\<close>

definition messages_deliver ::
  "'k session_chan_api \<Rightarrow> u64 \<Rightarrow> uuid \<Rightarrow> string option \<Rightarrow> 'k session_registry \<Rightarrow> http_response \<times> 'k session_registry" where
  "messages_deliver kx now session_id json_str reg =
     (case json_str of
        None \<Rightarrow> (accepted, reg)
      | Some s \<Rightarrow> (accepted, snd (session_registry_send kx now session_id s reg)))"

definition sse_messages_handler ::
  "('s, 'c, 'd, 'u, 'h, 'p) transport_ext \<Rightarrow> 'k session_chan_api \<Rightarrow> (nat \<Rightarrow> dispatch_env) \<Rightarrow> u64 \<Rightarrow> string \<Rightarrow> uuid option
   \<Rightarrow> headers \<Rightarrow> string \<Rightarrow> ('s, 'c, 'k) sse_state \<Rightarrow> (http_response \<times> ('s, 'c, 'k) sse_state) option" where
  "sse_messages_handler te kx env now slug session_id_param hs body st =
     (case messages_admit slug session_id_param hs (ss_registry st) of
        Inl resp \<Rightarrow> Some (resp, st)
      | Inr session_id \<Rightarrow>
          let token_prefix = session_token_prefix session_id (ss_registry st) in
          (case messages_dispatch te env slug body token_prefix (ss_router st) of
             None \<Rightarrow> None
           | Some (json_str, rt) \<Rightarrow>
               let st1 = st\<lparr>ss_router := rt\<rparr>;
                   (resp, reg) = messages_deliver kx now session_id json_str (ss_registry st1)
               in Some (resp, st1\<lparr>ss_registry := reg\<rparr>)))"


section \<open>The two transports answer alike\<close>

lemma dispatch_one_eq: "dispatch_one = dispatch_result"
  by (intro ext) (simp add: dispatch_one_def dispatch_result_def split: parse_result.split)

lemma dispatch_all_eq: "dispatch_all rx env slug tok i rs rt = dispatch_batch rx env slug tok i rs rt"
  by (induction rs arbitrary: i rt)
    (auto simp: dispatch_one_eq is_note_def Let_def fun_eq_iff option.map_comp
      split: option.split parse_result.split intro!: map_option_cong)

text \<open>The text in a response body, and what the streamable transport answers: nothing, or a text.\<close>

definition answer_text :: "http_response \<Rightarrow> string option" where
  "answer_text r = (case ht_body r of Empty_Body \<Rightarrow> None | Text_Body t \<Rightarrow> Some t | Sse_Body s \<Rightarrow> st_data s)"

text \<open>
  C29: The legacy transport pushes to the stream of the session exactly the text that the streamable transport
  answers to the same body, and leaves the router in the same state; both push nothing for the same
  notifications.
\<close>

theorem transports_agree:
  "map_option (\<lambda>(resp, st'). (answer_text resp, ts_router st')) (serve_message te env slug hs body tok g st) =
   messages_dispatch te (pe_dispatch env) slug body tok (ts_router st)"
proof (cases "parse_message (te_from_slice te) body")
  case (Single r)
  then show ?thesis
    by (auto simp: serve_message_def messages_dispatch_def dispatch_one_eq is_note_def finish_response_def
        accepted_response_def build_sse_response_def build_json_response_def set_header_def answer_text_def Let_def
        split: option.split parse_result.split)
next
  case (Batch rs)
  then show ?thesis
    by (auto simp: serve_message_def messages_dispatch_def dispatch_all_eq finish_response_def
        build_sse_response_def build_json_response_def set_header_def answer_text_def Let_def split: option.split)
qed

section \<open>Who gets a session\<close>

lemma sse_error_status [simp]: "ht_status (sse_json_error te s m) = s"
  by (simp add: sse_json_error_def Let_def)

lemma connect_cases:
  assumes "sse_connect_handler te kx env slug hs st = Some (res, st')"
  obtains (Early) resp where "connect_refusal te st = Some resp" "res = Refused resp" "ht_status resp = 503" "st' = st"
  | (Missing) resp where "connect_refusal te st = None" "fst (resolve_slug slug (rt_cache (ss_router st))) = None"
      "res = Refused resp" "ht_status resp = 404"
      "st' = st\<lparr>ss_router := (ss_router st)\<lparr>rt_cache := snd (resolve_slug slug (rt_cache (ss_router st)))\<rparr>\<rparr>"
  | (Denied) config e tv resp where "connect_refusal te st = None"
      "fst (resolve_slug slug (rt_cache (ss_router st))) = Some config"
      "validate_request (te_auth te) (rx_semaphore (te_router te)) (ce_auth env) (header_str ''authorization'' hs) config
         (ss_validator st) = Some (Inl e, tv)" "res = Refused resp" "ht_status resp \<in> {401, 403}"
      "st' = st\<lparr>ss_router := (ss_router st)\<lparr>rt_cache := snd (resolve_slug slug (rt_cache (ss_router st)))\<rparr>,
             ss_validator := tv\<rparr>"
  | (Full) config u tv e t resp where "connect_refusal te st = None"
      "fst (resolve_slug slug (rt_cache (ss_router st))) = Some config"
      "validate_request (te_auth te) (rx_semaphore (te_router te)) (ce_auth env) (header_str ''authorization'' hs) config
         (ss_validator st) = Some (Inr u, tv)"
      "try_acquire (rx_semaphore (te_router te)) (ce_now env) (sc_id config) (sc_max_connections config)
         (ss_connection_tracker st) = (Inl e, t)" "res = Refused resp" "ht_status resp = 503"
      "st' = st\<lparr>ss_router := (ss_router st)\<lparr>rt_cache := snd (resolve_slug slug (rt_cache (ss_router st)))\<rparr>,
             ss_validator := tv, ss_connection_tracker := t\<rparr>"
  | (Open) config u tv g t where "connect_refusal te st = None"
      "fst (resolve_slug slug (rt_cache (ss_router st))) = Some config"
      "validate_request (te_auth te) (rx_semaphore (te_router te)) (ce_auth env) (header_str ''authorization'' hs) config
         (ss_validator st) = Some (Inr u, tv)"
      "try_acquire (rx_semaphore (te_router te)) (ce_now env) (sc_id config) (sc_max_connections config)
         (ss_connection_tracker st) = (Inr g, t)"
      "(res, st') = open_session te kx env slug
         (Option.bind (header_str ''authorization'' hs) (\<lambda>h. map_option extract_token_prefix (strip_prefix ''Bearer '' h))) g
         (st\<lparr>ss_router := (ss_router st)\<lparr>rt_cache := snd (resolve_slug slug (rt_cache (ss_router st)))\<rparr>,
             ss_validator := tv, ss_connection_tracker := t\<rparr>)"
proof (cases "connect_refusal te st")
  case (Some resp)
  then have "ht_status resp = 503" by (auto simp: connect_refusal_def split: if_splits)
  moreover have "res = Refused resp" "st' = st" using assms Some by (simp_all add: sse_connect_handler_def Let_def)
  ultimately show thesis using Some by (intro Early)
next
  case None
  note d = assms [unfolded sse_connect_handler_def Let_def split_beta None option.case] and n = None
  show thesis
  proof (cases "fst (resolve_slug slug (rt_cache (ss_router st)))")
    case None
    with d n show thesis by (intro Missing) auto
  next
    case (Some config)
    let ?v = "validate_request (te_auth te) (rx_semaphore (te_router te)) (ce_auth env)
        (header_str ''authorization'' hs) config (ss_validator st)"
    let ?a = "try_acquire (rx_semaphore (te_router te)) (ce_now env) (sc_id config) (sc_max_connections config)
         (ss_connection_tracker st)"
    from d Some obtain r tv where v: "?v = Some (r, tv)" by (cases ?v) auto
    obtain a t where a: "?a = (a, t)" by (cases ?a)
    show thesis
    proof (cases r)
      case (Inl e)
      have "ht_status (sse_auth_error te e) \<in> {401, 403}" by (cases e) (auto simp: sse_auth_error_def)
      with d n Some v Inl show thesis by (intro Denied [of config e tv "sse_auth_error te e"]) auto
    next
      case (Inr u)
      note r = this
      show thesis
      proof (cases a)
        case (Inl e)
        with d n Some v r a show thesis
          by (intro Full [of config u tv e t "sse_capacity_error te e"]) (auto simp: sse_capacity_error_def)
      next
        case (Inr g)
        with d n Some v r a show thesis by (intro Open [of config u tv g t]) auto
      qed
    qed
  qed
qed

text \<open>
  A session is opened only for a request that passed the shutdown, session limit, slug, token and
  connection checks; it is registered for the slug of the request, and every refusal (503, 404, 401, 403)
  leaves the registry as it was.
\<close>

theorem session_opened_only_authenticated:
  assumes "sse_connect_handler te kx env slug hs st = Some (res, st')"
  shows "case res of
      Refused resp \<Rightarrow> ht_status resp \<in> {401, 403, 404, 503} \<and> ss_registry st' = ss_registry st
    | Opened _ _ s \<Rightarrow>
        \<not> ss_is_shutting_down st \<and> session_registry_len (ss_registry st) < MAX_SSE_SESSIONS \<and>
        (\<exists>config u tv t. fst (resolve_slug slug (rt_cache (ss_router st))) = Some config \<and>
           validate_request (te_auth te) (rx_semaphore (te_router te)) (ce_auth env) (header_str ''authorization'' hs)
             config (ss_validator st) = Some (Inr u, tv) \<and>
           try_acquire (rx_semaphore (te_router te)) (ce_now env) (sc_id config) (sc_max_connections config)
             (ss_connection_tracker st) = (Inr (sm_guard s), t)) \<and>
        map_option sh_slug (map_of (sr_sessions (ss_registry st')) (ce_uuid env)) = Some slug"
  using assms
proof (cases rule: connect_cases)
  case (Open config u tv g t)
  moreover have "\<not> ss_is_shutting_down st \<and> session_registry_len (ss_registry st) < MAX_SSE_SESSIONS"
    using Open(1) by (auto simp: connect_refusal_def split: if_splits)
  ultimately show ?thesis by (auto simp: open_session_def register_def Let_def update_conv')
qed auto


section \<open>The sweeper\<close>

text \<open>What a best-effort send does to the channel.\<close>

definition push :: "'k session_chan_api \<Rightarrow> string \<Rightarrow> 'k \<Rightarrow> 'k" where
  "push kx m c = (case mp_try_send (kx_mpsc kx) m c of Inl _ \<Rightarrow> c | Inr c' \<Rightarrow> c')"

lemma delete_filter: "AList.delete k xs = filter (\<lambda>(k', _). k' \<noteq> k) xs"
  by (simp add: AList.delete_eq case_prod_unfold eq_commute)

lemma close_idle_sessions: "sr_sessions (close_idle kx cancel sid reg) = AList.delete sid (sr_sessions reg)"
  by (simp add: close_idle_def session_registry_remove_def Let_def split: option.split sum.split)

lemma close_idle_chans:
  "sr_chans (close_idle kx cancel sid reg) =
     (case map_of (sr_sessions reg) sid of
        None \<Rightarrow> sr_chans reg
      | Some h \<Rightarrow> (sr_chans reg)[sh_sender h := push kx cancel (sr_chans reg ! sh_sender h)])"
  by (simp add: close_idle_def session_registry_remove_def push_def Let_def split: option.split sum.split)

lemma close_idle_length [simp]: "length (sr_chans (close_idle kx cancel sid reg)) = length (sr_chans reg)"
  by (simp add: close_idle_chans split: option.split)

lemma fold_close_length [simp]: "length (sr_chans (fold (close_idle kx cancel) ids reg)) = length (sr_chans reg)"
  by (induction ids arbitrary: reg) simp_all

lemma fold_close_sessions:
  "sr_sessions (fold (close_idle kx cancel) ids reg) = filter (\<lambda>(k, _). k \<notin> set ids) (sr_sessions reg)"
proof (induction ids arbitrary: reg)
  case (Cons i ids)
  then show ?case
    by (simp add: close_idle_sessions delete_filter) (rule filter_cong [OF refl], auto)
qed simp

text \<open>Every session has its own channel.\<close>

definition sessions_wf :: "'k session_registry \<Rightarrow> bool" where
  "sessions_wf reg \<longleftrightarrow>
     distinct (map fst (sr_sessions reg)) \<and> distinct (map (\<lambda>(_, h). sh_sender h) (sr_sessions reg)) \<and>
     (\<forall>(_, h) \<in> set (sr_sessions reg). sh_sender h < length (sr_chans reg))"

definition senders :: "'k session_registry \<Rightarrow> nat set" where
  "senders reg = (\<lambda>(_, h). sh_sender h) ` set (sr_sessions reg)"

lemma sender_alive_iff: "sender_alive n reg \<longleftrightarrow> n \<in> senders reg"
  by (auto simp: sender_alive_def senders_def list_ex_iff)

lemma distinct_map_filter_pair: "distinct (map f xs) \<Longrightarrow> distinct (map f (filter P xs))"
  by (simp add: distinct_map_filter)

lemma sessions_wf_filter:
  assumes "sessions_wf reg" "sr_sessions reg' = filter P (sr_sessions reg)" "length (sr_chans reg') = length (sr_chans reg)"
  shows "sessions_wf reg'"
  using assms by (auto simp: sessions_wf_def distinct_map_filter_pair)

lemma sessions_wf_close: "sessions_wf reg \<Longrightarrow> sessions_wf (close_idle kx cancel i reg)"
  by (rule sessions_wf_filter [where P = "\<lambda>(k, _). k \<noteq> i"]) (simp_all add: close_idle_sessions delete_filter)

lemma wf_senders_inject:
  assumes "sessions_wf reg" "map_of (sr_sessions reg) i = Some h" "map_of (sr_sessions reg) j = Some h'" "sh_sender h = sh_sender h'"
  shows "i = j"
  using assms inj_onD [of "\<lambda>(_, h). sh_sender h" "set (sr_sessions reg)" "(i, h)" "(j, h')"]
  by (auto simp: sessions_wf_def distinct_map dest: map_of_SomeD)

lemma senders_filter: "sr_sessions reg' = filter P (sr_sessions reg) \<Longrightarrow> senders reg' \<subseteq> senders reg"
  by (auto simp: senders_def)

lemma senders_close: "senders (close_idle kx cancel i reg) \<subseteq> senders reg"
  by (rule senders_filter [where P = "\<lambda>(k, _). k \<noteq> i"]) (simp add: close_idle_sessions delete_filter)

lemma map_of_senders: "map_of (sr_sessions reg) i = Some h \<Longrightarrow> sh_sender h \<in> senders reg"
  by (force simp: senders_def dest: map_of_SomeD)

lemma fold_close_other: "n \<notin> senders reg \<Longrightarrow> sr_chans (fold (close_idle kx cancel) ids reg) ! n = sr_chans reg ! n"
proof (induction ids arbitrary: reg)
  case (Cons i ids)
  have "sr_chans (close_idle kx cancel i reg) ! n = sr_chans reg ! n"
    using Cons.prems map_of_senders [of reg i] by (auto simp: close_idle_chans split: option.split intro!: nth_list_update_neq)
  moreover have "n \<notin> senders (close_idle kx cancel i reg)" using Cons.prems senders_close by blast
  ultimately show ?case using Cons.IH by simp
qed simp

lemma fold_close_hit:
  assumes "sessions_wf reg" "map_of (sr_sessions reg) sid = Some h" "sid \<in> set ids"
  shows "sr_chans (fold (close_idle kx cancel) ids reg) ! sh_sender h = push kx cancel (sr_chans reg ! sh_sender h)"
  using assms
proof (induction ids arbitrary: reg)
  case (Cons i ids)
  let ?r = "close_idle kx cancel i reg"
  have len: "sh_sender h < length (sr_chans reg)"
    using Cons.prems(1,2) by (auto simp: sessions_wf_def dest: map_of_SomeD)
  show ?case
  proof (cases "i = sid")
    case True
    have "sh_sender h \<noteq> sh_sender h'" if "(j, h') \<in> set (sr_sessions reg)" "j \<noteq> sid" for j h'
      using wf_senders_inject [OF Cons.prems(1,2), of j h'] that Cons.prems(1) by (auto simp: sessions_wf_def)
    then have "sh_sender h \<notin> senders ?r"
      by (auto simp: senders_def close_idle_sessions delete_filter True)
    with Cons.prems(2) len show ?thesis by (simp add: True fold_close_other close_idle_chans)
  next
    case False
    have "sr_chans ?r ! sh_sender h = sr_chans reg ! sh_sender h"
      using wf_senders_inject [OF Cons.prems(1,2), of i] False
      by (auto simp: close_idle_chans split: option.split intro!: nth_list_update_neq)
    moreover have "map_of (sr_sessions ?r) sid = Some h"
      using Cons.prems(2) False by (simp add: close_idle_sessions delete_conv')
    ultimately show ?thesis
      using Cons.IH [OF sessions_wf_close [OF Cons.prems(1)]] Cons.prems(3) False by auto
  qed
qed simp

text \<open>A session is idle when its last activity lies more than the timeout in the past.\<close>

definition idle_at :: "u64 \<Rightarrow> session_handle \<Rightarrow> bool" where
  "idle_at now h \<longleftrightarrow> unat (sh_last_activity h) + unat SESSION_TIMEOUT_SECS < unat now"

lemma idle_cutoff: "sh_last_activity h < saturating_sub now SESSION_TIMEOUT_SECS \<longleftrightarrow> idle_at now h"
  by (auto simp: idle_at_def word_less_nat_alt unat_saturating_sub)

definition idle_ids :: "u64 \<Rightarrow> 'k session_registry \<Rightarrow> uuid list" where
  "idle_ids now reg = map fst (filter (\<lambda>(_, h). idle_at now h) (sr_sessions reg))"

lemma sweep_fold: "sweep te kx now reg = fold (close_idle kx (te_value_to_string te cancel_message)) (idle_ids now reg) reg"
  by (simp add: sweep_def idle_ids_def idle_cutoff Let_def)

lemma idle_ids_iff:
  assumes "distinct (map fst (sr_sessions reg))" "(k, h) \<in> set (sr_sessions reg)"
  shows "k \<in> set (idle_ids now reg) \<longleftrightarrow> idle_at now h"
proof -
  have "h' = h" if "(k, h') \<in> set (sr_sessions reg)" for h' using assms that eq_key_imp_eq_value by metis
  moreover have "k \<in> set (idle_ids now reg) \<longleftrightarrow> (\<exists>h'. (k, h') \<in> set (sr_sessions reg) \<and> idle_at now h')"
    unfolding idle_ids_def set_map set_filter by force
  ultimately show ?thesis using assms(2) by blast
qed

text \<open>
  One sweep removes exactly the sessions whose last activity is more than 120 seconds ago, offers each of
  them the cancellation notice, and touches neither the handle nor the channel of any other session.
\<close>

theorem sweep_exact:
  assumes "sessions_wf reg"
  shows "sr_sessions (sweep te kx now reg) = filter (\<lambda>(_, h). \<not> idle_at now h) (sr_sessions reg) \<and>
    (\<forall>sid h. map_of (sr_sessions reg) sid = Some h \<longrightarrow>
       sr_chans (sweep te kx now reg) ! sh_sender h =
         (if idle_at now h then push kx (te_value_to_string te cancel_message) (sr_chans reg ! sh_sender h)
          else sr_chans reg ! sh_sender h))"
proof (intro conjI allI impI)
  have d: "distinct (map fst (sr_sessions reg))" using assms by (simp add: sessions_wf_def)
  show "sr_sessions (sweep te kx now reg) = filter (\<lambda>(_, h). \<not> idle_at now h) (sr_sessions reg)"
    using idle_ids_iff [OF d] by (auto simp: sweep_fold fold_close_sessions intro!: filter_cong)
  fix sid h assume h: "map_of (sr_sessions reg) sid = Some h"
  note iff = idle_ids_iff [OF d map_of_SomeD [OF h]]
  have "sr_chans (fold (close_idle kx cancel) ids reg) ! sh_sender h = sr_chans reg ! sh_sender h"
    if "sid \<notin> set ids" for ids cancel
    using assms h that
  proof (induction ids arbitrary: reg)
    case (Cons i ids)
    have "sr_chans (close_idle kx cancel i reg) ! sh_sender h = sr_chans reg ! sh_sender h"
      using wf_senders_inject [OF Cons.prems(1,2), of i] Cons.prems(3)
      by (auto simp: close_idle_chans split: option.split intro!: nth_list_update_neq)
    with Cons.IH [OF sessions_wf_close [OF Cons.prems(1)]] Cons.prems show ?case
      by (simp add: close_idle_sessions delete_conv')
  qed simp
  with fold_close_hit [OF assms h] iff show "sr_chans (sweep te kx now reg) ! sh_sender h =
         (if idle_at now h then push kx (te_value_to_string te cancel_message) (sr_chans reg ! sh_sender h)
          else sr_chans reg ! sh_sender h)" by (simp add: sweep_fold)
qed


section \<open>Streams end\<close>

text \<open>The body of a response polled up to \<open>n\<close> times: the events, whether the stream ended, and the state.\<close>

fun poll_all ::
  "nat \<Rightarrow> 's semaphore_api \<Rightarrow> 'k session_chan_api \<Rightarrow> stream_state \<Rightarrow> ('s, 'c, 'k) sse_state
   \<Rightarrow> sse_event list \<times> bool \<times> ('s, 'c, 'k) sse_state" where
  "poll_all 0 api kx s st = ([], False, st)"
| "poll_all (Suc n) api kx s st =
     (case stream_next api kx s st of
        (Yield e s', st') \<Rightarrow> (let (es, r) = poll_all n api kx s' st' in (e # es, r))
      | (Done, st') \<Rightarrow> ([], True, st')
      | (Pending, st') \<Rightarrow> ([], False, st'))"

text \<open>
  What tokio documents of the channel of a session: the queue laws, and that a send is refused once the
  receiver is gone. \<open>queue\<close> are the messages inside.
\<close>

definition session_chan_ok :: "'k session_chan_api \<Rightarrow> ('k \<Rightarrow> string list) \<Rightarrow> bool" where
  "session_chan_ok kx queue \<longleftrightarrow>
     (\<exists>reserved. mpsc_ok (kx_mpsc kx) queue reserved 64) \<and>
     (\<forall>c m. mp_try_send (kx_mpsc kx) m (kx_drop_receiver kx c) = Inl Closed)"

lemma chan_recv:
  assumes "session_chan_ok kx queue"
  shows "case queue c of [] \<Rightarrow> mp_recv (kx_mpsc kx) c = None
    | m # ms \<Rightarrow> \<exists>c'. mp_recv (kx_mpsc kx) c = Some (m, c') \<and> queue c' = ms"
  using assms unfolding session_chan_ok_def mpsc_ok_def by (cases "queue c") auto

lemma chan_push:
  assumes "session_chan_ok kx queue"
  shows "queue (push kx m c) = queue c @ (if is_ok (mp_try_send (kx_mpsc kx) m c) then [m] else [])"
  using assms unfolding session_chan_ok_def mpsc_ok_def push_def by (auto split: sum.split)

text \<open>What the last poll of a stream does: the session leaves the registry and the guard is dropped.\<close>

definition finished :: "'s semaphore_api \<Rightarrow> stream_state \<Rightarrow> ('s, 'c, 'k) sse_state \<Rightarrow> ('s, 'c, 'k) sse_state \<Rightarrow> bool" where
  "finished api s st st' \<longleftrightarrow>
     ss_connection_tracker st' = guard_drop api (sm_guard s) (ss_connection_tracker st) \<and>
     sr_sessions (ss_registry st') = AList.delete (sm_session_id s) (sr_sessions (ss_registry st))"

lemma removed_stream_ends:
  assumes "session_chan_ok kx queue" "\<not> sender_alive rx (ss_registry st)" "rx < length (sr_chans (ss_registry st))"
    and "length (queue (sr_chans (ss_registry st) ! rx)) < n"
  shows "\<exists>st'. poll_all n api kx (Messages rx g sid) st =
      (map Data_Event (queue (sr_chans (ss_registry st) ! rx)), True, st') \<and> finished api (Messages rx g sid) st st'"
  using assms(2-4)
proof (induction n arbitrary: st)
  case (Suc n)
  let ?c = "sr_chans (ss_registry st) ! rx"
  show ?case
  proof (cases "queue ?c")
    case Nil
    with chan_recv [OF assms(1), of ?c] Suc.prems(1) show ?thesis
      by (simp add: stream_next_def session_registry_remove_def finished_def Let_def)
  next
    case (Cons m ms)
    with chan_recv [OF assms(1), of ?c] obtain c where c: "mp_recv (kx_mpsc kx) ?c = Some (m, c)" "queue c = ms" by auto
    define st1 where "st1 = st\<lparr>ss_registry := (ss_registry st)\<lparr>sr_chans := (sr_chans (ss_registry st))[rx := c]\<rparr>\<rparr>"
    have "stream_next api kx (Messages rx g sid) st = (Yield (Data_Event m) (Messages rx g sid), st1)"
      using c(1) by (simp add: stream_next_def st1_def Let_def)
    moreover have "\<not> sender_alive rx (ss_registry st1)" "rx < length (sr_chans (ss_registry st1))"
      "sr_chans (ss_registry st1) ! rx = c" "finished api s st1 = finished api s st" for s
      using Suc.prems(1,2) by (auto simp: st1_def sender_alive_def finished_def fun_eq_iff)
    ultimately show ?thesis using Suc.IH [of st1] Suc.prems(3) Cons c(2) by fastforce
  qed
qed simp



section \<open>Sessions side by side\<close>

text \<open>
  The gateway with its open streams. \<open>sw_others\<close> are the guards that requests of the streamable transport
  hold on the same tracker, and \<open>sw_seen n\<close> the data events that came out of channel \<open>n\<close>.
\<close>

record ('s, 'c, 'k) sse_sys =
  sw_state :: "('s, 'c, 'k) sse_state"
  sw_streams :: "stream_state list"
  sw_others :: "connection_guard list"
  sw_seen :: "nat \<Rightarrow> string list"

definition note_event :: "nat \<Rightarrow> sse_event \<Rightarrow> (nat \<Rightarrow> string list) \<Rightarrow> nat \<Rightarrow> string list" where
  "note_event n e seen = (case e of Endpoint_Event _ \<Rightarrow> seen | Data_Event m \<Rightarrow> seen(n := seen n @ [m]))"

text \<open>
  The steps interleave at the awaits of the handlers: a session is opened by the part of
  \<open>sse_connect_handler\<close> behind the token check, a response is delivered by the last part of
  \<open>sse_messages_handler\<close>. Any text may be delivered to any session, and the router, the validator and the
  shutdown flag may change at any time; the properties below do not depend on them.
\<close>

inductive sse_step ::
  "('s, 'c, 'd, 'u, 'h, 'p) transport_ext \<Rightarrow> 'k session_chan_api \<Rightarrow> ('s, 'c, 'k) sse_sys \<Rightarrow> ('s, 'c, 'k) sse_sys \<Rightarrow> bool"
  for te kx where
  open_step: "try_acquire (rx_semaphore (te_router te)) now sid mx (ss_connection_tracker (sw_state s)) = (Inr g, t) \<Longrightarrow>
    open_session te kx env slug tok g ((sw_state s)\<lparr>ss_connection_tracker := t\<rparr>) = (Opened hs ka str, st) \<Longrightarrow>
    sse_step te kx s (s\<lparr>sw_state := st, sw_streams := str # sw_streams s\<rparr>)"
| refuse_step: "try_acquire (rx_semaphore (te_router te)) now sid mx (ss_connection_tracker (sw_state s)) = (Inl e, t) \<Longrightarrow>
    sse_step te kx s (s\<lparr>sw_state := (sw_state s)\<lparr>ss_connection_tracker := t\<rparr>\<rparr>)"
| yield_step: "sw_streams s = xs @ str # ys \<Longrightarrow>
    stream_next (rx_semaphore (te_router te)) kx str (sw_state s) = (Yield e str', st) \<Longrightarrow>
    sse_step te kx s (s\<lparr>sw_state := st, sw_streams := xs @ str' # ys, sw_seen := note_event (sm_rx str) e (sw_seen s)\<rparr>)"
| done_step: "sw_streams s = xs @ str # ys \<Longrightarrow>
    stream_next (rx_semaphore (te_router te)) kx str (sw_state s) = (Done, st) \<Longrightarrow>
    sse_step te kx s (s\<lparr>sw_state := st, sw_streams := xs @ ys\<rparr>)"
| disconnect_step: "sw_streams s = xs @ str # ys \<Longrightarrow>
    sse_step te kx s (s\<lparr>sw_state := stream_drop (rx_semaphore (te_router te)) kx str (sw_state s), sw_streams := xs @ ys\<rparr>)"
| deliver_step: "sse_step te kx s
    (s\<lparr>sw_state := (sw_state s)\<lparr>ss_registry := snd (messages_deliver kx now_s sid pushed (ss_registry (sw_state s)))\<rparr>\<rparr>)"
| sweep_step: "sse_step te kx s (s\<lparr>sw_state := (sw_state s)\<lparr>ss_registry := sweep te kx now_s (ss_registry (sw_state s))\<rparr>\<rparr>)"
| other_acquire: "try_acquire (rx_semaphore (te_router te)) now sid mx (ss_connection_tracker (sw_state s)) = (Inr g, t) \<Longrightarrow>
    sse_step te kx s (s\<lparr>sw_state := (sw_state s)\<lparr>ss_connection_tracker := t\<rparr>, sw_others := g # sw_others s\<rparr>)"
| other_drop: "sw_others s = xs @ g # ys \<Longrightarrow>
    sse_step te kx s (s\<lparr>sw_state := (sw_state s)\<lparr>ss_connection_tracker :=
      guard_drop (rx_semaphore (te_router te)) g (ss_connection_tracker (sw_state s))\<rparr>, sw_others := xs @ ys\<rparr>)"
| frame_step: "sse_step te kx s
    (s\<lparr>sw_state := (sw_state s)\<lparr>ss_router := rt, ss_validator := tv, ss_is_shutting_down := b\<rparr>\<rparr>)"

definition sse_start :: "'s semaphore_api \<Rightarrow> u64 \<Rightarrow> ('s, 'c, 'k) sse_sys \<Rightarrow> bool" where
  "sse_start api limit s \<longleftrightarrow>
     (\<exists>tv rt b. sw_state s = sse_state_new tv rt (tracker_new api limit) session_registry_new b) \<and>
     sw_streams s = [] \<and> sw_others s = [] \<and> sw_seen s = (\<lambda>_. [])"

subsection \<open>Connections\<close>

text \<open>The counters agree with the guards that exist.\<close>

definition guards_match :: "'s semaphore_api \<Rightarrow> u64 \<Rightarrow> connection_guard list \<Rightarrow> 's connection_tracker \<Rightarrow> bool" where
  "guards_match api limit gs t \<longleftrightarrow>
     (\<forall>sid. unat (server_count t sid) = count_if (\<lambda>g. cg_server_id g = sid) gs) \<and>
     unat (ct_global_count t) = length gs \<and>
     sem_available api (ct_global_semaphore t) + length gs = unat limit"

lemma count_if_append [simp]: "count_if P (xs @ ys) = count_if P xs + count_if P ys"
  by (simp add: count_if_def)

lemma guards_match_new: "semaphore_ok api \<Longrightarrow> guards_match api limit [] (tracker_new api limit)"
  by (simp add: guards_match_def tracker_new_def server_count_def semaphore_ok_def)

lemma guards_match_same: "guards_match api limit gs t \<Longrightarrow> tracker_same api t t' \<Longrightarrow> guards_match api limit gs t'"
  by (simp add: guards_match_def tracker_same_def)

lemma acquire_effect:
  assumes "semaphore_ok api" "try_acquire api now sid mx t = (Inr g, t')"
  shows "cg_server_id g = sid \<and> server_count t sid < ucast mx \<and>
    (\<forall>i. server_count t' i = (if i = sid then server_count t sid + 1 else server_count t i)) \<and>
    ct_global_count t' = ct_global_count t + 1 \<and>
    sem_available api (ct_global_semaphore t) = Suc (sem_available api (ct_global_semaphore t'))"
  using assms
  by (auto simp: try_acquire_def semaphore_ok_def server_count_def ensure_counter_def inc_below_def Let_def
      split: option.splits if_splits)

lemma unat_below_u32: "(c :: u64) < ucast (mx :: u32) \<Longrightarrow> unat (c + 1) = Suc (unat c)"
  using unat_limit_bound [of mx] by (intro unat_inc_lt) (simp add: word_less_nat_alt)

lemma guards_match_acquire:
  assumes "semaphore_ok api" "guards_match api limit gs t" "try_acquire api now sid mx t = (Inr g, t')"
  shows "guards_match api limit (g # gs) t'"
proof -
  note e = acquire_effect [OF assms(1,3)]
  have "Suc (unat (ct_global_count t)) \<le> unat limit" using assms(2) e by (simp add: guards_match_def)
  then have "unat (ct_global_count t + 1) = Suc (unat (ct_global_count t))"
    by (intro unat_inc_lt) (use unsigned_less [of limit, where ?'a = nat] in simp)
  with e assms(2) show ?thesis by (auto simp: guards_match_def unat_below_u32)
qed

lemma guards_match_drop:
  assumes "semaphore_ok api" "guards_match api limit (xs @ g # ys) t"
  shows "guards_match api limit (xs @ ys) (guard_drop api g t)"
proof -
  have "0 < unat (server_count t (cg_server_id g))" "0 < unat (ct_global_count t)"
    using assms(2) by (simp_all add: guards_match_def)
  then show ?thesis
    using assms by (auto simp: guards_match_def guard_drop_def semaphore_ok_def server_count_def unat_dec Let_def)
qed

definition sys_guards :: "('s, 'c, 'k) sse_sys \<Rightarrow> connection_guard list" where
  "sys_guards s = map sm_guard (sw_streams s) @ sw_others s"

lemma open_session_effect:
  assumes "open_session te kx env slug tok g st = (Opened hs ka str, st')"
  shows "sm_guard str = g \<and> sm_rx str = length (sr_chans (ss_registry st)) \<and>
    ss_connection_tracker st' = ss_connection_tracker st \<and>
    ss_registry st' = snd (register kx (ce_now_secs env) (ce_uuid env) slug tok (ss_registry st))"
  using assms by (auto simp: open_session_def register_def Let_def)

lemma stream_next_yield:
  "stream_next api kx str st = (Yield e str', st') \<Longrightarrow>
    sm_guard str' = sm_guard str \<and> sm_rx str' = sm_rx str \<and> ss_connection_tracker st' = ss_connection_tracker st"
  by (auto simp: stream_next_def Let_def split: stream_state.splits option.splits if_splits)

lemma stream_next_done:
  "stream_next api kx str st = (Done, st') \<Longrightarrow>
    ss_connection_tracker st' = guard_drop api (sm_guard str) (ss_connection_tracker st) \<and>
    ss_registry st' = session_registry_remove (sm_session_id str) (ss_registry st)"
  by (auto simp: stream_next_def Let_def split: stream_state.splits option.splits if_splits)

lemma sse_step_guards:
  assumes "semaphore_ok (rx_semaphore (te_router te))" "sse_step te kx s s'"
    and "guards_match (rx_semaphore (te_router te)) limit (sys_guards s) (ss_connection_tracker (sw_state s))"
  shows "guards_match (rx_semaphore (te_router te)) limit (sys_guards s') (ss_connection_tracker (sw_state s'))"
  using assms(2,3)
proof (cases rule: sse_step.cases)
  case (open_step now sid mx g t env slug tok hs ka str st)
  with guards_match_acquire [OF assms(1,3) open_step(2)] open_session_effect [OF open_step(3)] show ?thesis
    by (simp add: sys_guards_def)
next
  case (refuse_step now sid mx e t)
  with guards_match_same [OF assms(3) refused_same [OF assms(1) refuse_step(2)]] show ?thesis by (simp add: sys_guards_def)
next
  case (yield_step xs str ys e str' st)
  with assms(3) stream_next_yield [OF yield_step(3)] show ?thesis by (simp add: sys_guards_def)
next
  case (done_step xs str ys st)
  with assms(3) guards_match_drop [OF assms(1), of limit "map sm_guard xs" "sm_guard str" "map sm_guard ys @ sw_others s"]
    stream_next_done [OF done_step(3)] show ?thesis by (simp add: sys_guards_def)
next
  case (disconnect_step xs str ys)
  with assms(3) guards_match_drop [OF assms(1), of limit "map sm_guard xs" "sm_guard str" "map sm_guard ys @ sw_others s"]
  show ?thesis by (simp add: sys_guards_def stream_drop_def Let_def)
next
  case (other_acquire now sid mx g t)
  from guards_match_acquire [OF assms(1,3) this(2)] other_acquire(1) show ?thesis
    by (auto simp: sys_guards_def guards_match_def)
next
  case (other_drop xs g ys)
  with assms(3) guards_match_drop [OF assms(1), of limit "map sm_guard (sw_streams s) @ xs" g ys] show ?thesis
    by (simp add: sys_guards_def)
qed (use assms(3) in \<open>simp_all add: sys_guards_def\<close>)

text \<open>
  C7: In every state the gateway can reach, each open stream holds exactly one connection: the counter of every
  server, the global counter and the free permits agree with the open streams and the requests of the other
  transport, whether streams end by a sweep, by a disconnect or not at all. In particular the counters
  return to zero when the last stream is gone.
\<close>

theorem sse_connections_accounted:
  assumes "semaphore_ok (rx_semaphore (te_router te))"
    and "reach (sse_start (rx_semaphore (te_router te)) limit) (sse_step te kx) s"
  shows "(\<forall>sid. unat (server_count (ss_connection_tracker (sw_state s)) sid) =
        count_if (\<lambda>str. cg_server_id (sm_guard str) = sid) (sw_streams s) +
        count_if (\<lambda>g. cg_server_id g = sid) (sw_others s)) \<and>
    unat (ct_global_count (ss_connection_tracker (sw_state s))) = length (sw_streams s) + length (sw_others s) \<and>
    sem_available (rx_semaphore (te_router te)) (ct_global_semaphore (ss_connection_tracker (sw_state s))) +
      length (sw_streams s) + length (sw_others s) = unat limit"
proof -
  have "guards_match (rx_semaphore (te_router te)) limit (sys_guards s) (ss_connection_tracker (sw_state s))"
    using assms(2)
  proof (rule reach_invariant)
    fix s :: "('a, 'b, 'k) sse_sys"
    assume "sse_start (rx_semaphore (te_router te)) limit s"
    then show "guards_match (rx_semaphore (te_router te)) limit (sys_guards s) (ss_connection_tracker (sw_state s))"
      by (auto simp: sse_start_def sse_state_new_def sys_guards_def guards_match_new [OF assms(1)])
  qed (rule sse_step_guards [OF assms(1)])
  then show ?thesis by (simp add: guards_match_def sys_guards_def count_if_def filter_map comp_def)
qed


subsection \<open>Messages\<close>

text \<open>Everything that was accepted for channel \<open>n\<close>: what the client has seen and what is still waiting.\<close>

abbreviation sys_chans :: "('s, 'c, 'k) sse_sys \<Rightarrow> 'k list" where
  "sys_chans s \<equiv> sr_chans (ss_registry (sw_state s))"

definition chan_log :: "('k \<Rightarrow> string list) \<Rightarrow> ('s, 'c, 'k) sse_sys \<Rightarrow> nat \<Rightarrow> string list" where
  "chan_log queue s n = sw_seen s n @ queue (sys_chans s ! n)"

definition streams_wf :: "('s, 'c, 'k) sse_sys \<Rightarrow> bool" where
  "streams_wf s \<longleftrightarrow> distinct (map sm_rx (sw_streams s)) \<and> (\<forall>str \<in> set (sw_streams s). sm_rx str < length (sys_chans s))"

lemma deliver_length [simp]:
  "length (sr_chans (snd (messages_deliver kx now sid pushed reg))) = length (sr_chans reg)"
  by (simp add: messages_deliver_def session_registry_send_def Let_def split: option.split sum.split)

lemma sweep_length [simp]: "length (sr_chans (sweep te kx now reg)) = length (sr_chans reg)"
  by (simp add: sweep_fold)

lemma stream_next_chans:
  "stream_next api kx str st = (r, st') \<Longrightarrow>
    length (sr_chans (ss_registry st')) = length (sr_chans (ss_registry st)) \<and>
    (\<forall>n. n \<noteq> sm_rx str \<longrightarrow> sr_chans (ss_registry st') ! n = sr_chans (ss_registry st) ! n)"
  by (auto simp: stream_next_def session_registry_remove_def Let_def split: stream_state.splits option.splits if_splits)

lemma sse_step_length: "sse_step te kx s s' \<Longrightarrow> length (sys_chans s) \<le> length (sys_chans s')"
  by (induction rule: sse_step.induct)
    (auto dest!: open_session_effect stream_next_chans simp: register_def stream_drop_def Let_def)

lemma sse_step_streams:
  assumes "sse_step te kx s s'" "streams_wf s"
  shows "streams_wf s'"
  using assms
proof (induction rule: sse_step.induct)
  case (open_step now sid mx s g t env slug tok hs ka str st)
  then show ?case using open_session_effect [OF open_step(2)] by (fastforce simp: streams_wf_def register_def Let_def)
next
  case (yield_step s xs str ys e str' st)
  then show ?case using stream_next_yield [OF yield_step(2)] stream_next_chans [OF yield_step(2)]
    by (simp add: streams_wf_def)
next
  case (done_step s xs str ys st)
  then show ?case using stream_next_chans [OF done_step(2)] by (auto simp: streams_wf_def)
qed (auto simp: streams_wf_def stream_drop_def Let_def)

lemma push_log:
  assumes "session_chan_ok kx queue"
  shows "\<exists>zs. queue (xs[i := push kx m (xs ! i)] ! n) = queue (xs ! n) @ zs"
  using chan_push [OF assms, of m "xs ! i"] by (cases "i = n"; cases "i < length xs") (auto simp: list_update_beyond)

lemma deliver_log:
  assumes "session_chan_ok kx queue"
  shows "\<exists>zs. queue (sr_chans (snd (messages_deliver kx now sid pushed reg)) ! n) = queue (sr_chans reg ! n) @ zs"
proof (cases pushed)
  case (Some m)
  have eq: "sr_chans (snd (session_registry_send kx now sid m reg)) =
      (case map_of (sr_sessions reg) sid of None \<Rightarrow> sr_chans reg
       | Some h \<Rightarrow> (sr_chans reg)[sh_sender h := push kx m (sr_chans reg ! sh_sender h)])"
    by (simp add: session_registry_send_def push_def Let_def split: option.split sum.split)
  show ?thesis
    using push_log [OF assms] by (auto simp: Some messages_deliver_def eq split: option.split)
qed (simp add: messages_deliver_def)

lemma close_log:
  assumes "session_chan_ok kx queue"
  shows "\<exists>zs. queue (sr_chans (close_idle kx cancel i reg) ! n) = queue (sr_chans reg ! n) @ zs"
  using push_log [OF assms] by (auto simp: close_idle_chans split: option.split)

lemma sweep_log:
  assumes "session_chan_ok kx queue"
  shows "\<exists>zs. queue (sr_chans (sweep te kx now reg) ! n) = queue (sr_chans reg ! n) @ zs"
proof -
  have "\<exists>zs. queue (sr_chans (fold (close_idle kx cancel) ids reg) ! n) = queue (sr_chans reg ! n) @ zs" for ids cancel
  proof (induction ids arbitrary: reg)
    case (Cons i ids)
    from Cons.IH [of "close_idle kx cancel i reg"] close_log [OF assms, of cancel i reg n]
    show ?case by (metis append_assoc fold_simps(2))
  qed simp
  then show ?thesis by (simp add: sweep_fold)
qed

lemma yield_log:
  assumes "session_chan_ok kx queue" "stream_next api kx str st = (Yield e str', st')"
    and "sm_rx str < length (sr_chans (ss_registry st))"
  shows "note_event (sm_rx str) e seen n @ queue (sr_chans (ss_registry st') ! n) =
    seen n @ queue (sr_chans (ss_registry st) ! n)"
proof (cases str)
  case (Messages rx g sid)
  let ?c = "sr_chans (ss_registry st) ! rx"
  obtain m c where c: "mp_recv (kx_mpsc kx) ?c = Some (m, c)" "e = Data_Event m"
    "st' = st\<lparr>ss_registry := (ss_registry st)\<lparr>sr_chans := (sr_chans (ss_registry st))[rx := c]\<rparr>\<rparr>"
    using assms(2) by (auto simp: Messages stream_next_def Let_def split: option.splits if_splits)
  then have "queue ?c = m # queue c" using chan_recv [OF assms(1), of ?c] by (auto split: list.splits)
  with c assms(3) show ?thesis by (cases "n = rx") (auto simp: Messages note_event_def)
qed (use assms(2) in \<open>auto simp: stream_next_def note_event_def\<close>)

lemma sse_step_log:
  assumes "session_chan_ok kx queue" "sse_step te kx s s'" "streams_wf s" "n < length (sys_chans s)"
    and "n \<in> sm_rx ` set (sw_streams s')"
  shows "n \<in> sm_rx ` set (sw_streams s) \<and> (\<exists>zs. chan_log queue s' n = chan_log queue s n @ zs)"
  using assms(2-5)
proof (induction rule: sse_step.induct)
  case (open_step now sid mx s g t env slug tok hs ka str st)
  then show ?case using open_session_effect [OF open_step(2)]
    by (auto simp: chan_log_def register_def nth_append Let_def)
next
  case (yield_step s xs str ys e str' st)
  moreover have "sm_rx str < length (sys_chans s)" using yield_step by (simp add: streams_wf_def)
  ultimately show ?case
    using yield_log [OF assms(1) yield_step(2)] stream_next_yield [OF yield_step(2)] by (auto simp: chan_log_def)
next
  case (done_step s xs str ys st)
  then have "n \<noteq> sm_rx str" by (auto simp: streams_wf_def image_iff)
  with done_step stream_next_chans [OF done_step(2)] show ?case by (auto simp: chan_log_def)
next
  case (disconnect_step s xs str ys)
  then have "n \<noteq> sm_rx str" by (auto simp: streams_wf_def image_iff)
  with disconnect_step show ?case by (auto simp: chan_log_def stream_drop_def Let_def)
next
  case (deliver_step s now_s sid pushed)
  with deliver_log [OF assms(1)] show ?case by (simp add: chan_log_def)
next
  case (sweep_step s now_s)
  with sweep_log [OF assms(1)] show ?case by (simp add: chan_log_def)
qed (simp_all add: chan_log_def)

lemma reach_streams_wf: "reach (sse_start api limit) (sse_step te kx) s \<Longrightarrow> streams_wf s"
  by (erule reach_invariant) (simp add: sse_start_def streams_wf_def, rule sse_step_streams)



section \<open>Messages of a client\<close>

lemma admit_iff:
  "messages_admit slug q hs reg = Inr sid \<longleftrightarrow>
     q = Some sid \<and> is_json_content_type hs \<and> map_option sh_slug (map_of (sr_sessions reg) sid) = Some slug"
  by (auto simp: messages_admit_def split: option.split)

lemma admit_status: "messages_admit slug q hs reg = Inl resp \<Longrightarrow> ht_status resp \<in> {400, 415}"
  by (auto simp: messages_admit_def plain_response_def split: option.splits if_splits)

lemma deliver_other:
  assumes "map_of (sr_sessions reg) sid = Some h" "n \<noteq> sh_sender h"
  shows "sr_chans (snd (messages_deliver kx now sid m reg)) ! n = sr_chans reg ! n"
  using assms by (auto simp: messages_deliver_def session_registry_send_def Let_def split: option.split sum.split)

lemma deliver_own:
  assumes "map_of (sr_sessions reg) sid = Some h" "sh_sender h < length (sr_chans reg)"
  shows "sr_chans (snd (messages_deliver kx now sid (Some m) reg)) ! sh_sender h = push kx m (sr_chans reg ! sh_sender h)"
  using assms by (auto simp: messages_deliver_def session_registry_send_def push_def Let_def split: sum.split)

text \<open>
  A message is accepted (202) exactly when it names a registered session of this very slug and is declared as
  JSON; a refused one (400, 415) changes nothing. The response of an accepted message is offered to the
  channel of its own session, and no other channel, no connection and no session but its own is touched.
\<close>

theorem message_reaches_own_session:
  assumes "sse_messages_handler te kx env now slug q hs body st = Some (resp, st')" "sessions_wf (ss_registry st)"
  shows "(case messages_admit slug q hs (ss_registry st) of
      Inl _ \<Rightarrow> ht_status resp \<in> {400, 415} \<and> st' = st
    | Inr sid \<Rightarrow> ht_status resp = 202 \<and>
        (\<exists>h out. q = Some sid \<and> map_of (sr_sessions (ss_registry st)) sid = Some h \<and> sh_slug h = slug \<and>
           messages_dispatch te env slug body (sh_token_prefix h) (ss_router st) = Some (out, ss_router st') \<and>
           ss_connection_tracker st' = ss_connection_tracker st \<and>
           (\<forall>n. sr_chans (ss_registry st') ! n =
              (if n = sh_sender h then (case out of Some m \<Rightarrow> push kx m (sr_chans (ss_registry st) ! n)
                 | None \<Rightarrow> sr_chans (ss_registry st) ! n)
               else sr_chans (ss_registry st) ! n)) \<and>
           (\<forall>i. i \<noteq> sid \<longrightarrow> map_of (sr_sessions (ss_registry st')) i = map_of (sr_sessions (ss_registry st)) i)))"
proof (cases "messages_admit slug q hs (ss_registry st)")
  case (Inl r)
  with assms admit_status [OF Inl] show ?thesis by (simp add: sse_messages_handler_def)
next
  case (Inr sid)
  then obtain h where h: "q = Some sid" "map_of (sr_sessions (ss_registry st)) sid = Some h" "sh_slug h = slug"
    by (auto simp: admit_iff)
  obtain out rt where o: "messages_dispatch te env slug body (sh_token_prefix h) (ss_router st) = Some (out, rt)"
    and r: "resp = accepted"
    and st': "st' = st\<lparr>ss_router := rt, ss_registry := snd (messages_deliver kx now sid out (ss_registry st))\<rparr>"
    using assms(1) Inr h(2)
    by (auto simp: sse_messages_handler_def session_token_prefix_def messages_deliver_def Let_def split: option.splits)
  have len: "sh_sender h < length (sr_chans (ss_registry st))"
    using assms(2) h(2) by (auto simp: sessions_wf_def dest: map_of_SomeD)
  have chans: "sr_chans (ss_registry st') ! n =
      (if n = sh_sender h then (case out of Some m \<Rightarrow> push kx m (sr_chans (ss_registry st) ! n)
         | None \<Rightarrow> sr_chans (ss_registry st) ! n)
       else sr_chans (ss_registry st) ! n)" for n
    using deliver_other [OF h(2), of n kx now out] deliver_own [OF h(2) len, of kx now]
    by (auto simp: st' messages_deliver_def split: option.split)
  have "map_of (sr_sessions (ss_registry st')) i = map_of (sr_sessions (ss_registry st)) i" if "i \<noteq> sid" for i
    using that by (simp add: st' messages_deliver_def session_registry_send_def update_conv' Let_def
        split: option.split sum.split)
  with h o r st' chans Inr show ?thesis by (simp add: accepted_def)
qed

text \<open>
  When a client disconnects its session stays registered: until the sweeper finds it idle, a message to it is
  accepted with 202, its response is thrown away, and the message counts as activity of the session.
\<close>

theorem disconnected_session_swallows:
  assumes "session_chan_ok kx queue" "map_of (sr_sessions (ss_registry st)) sid = Some h" "sm_rx s = sh_sender h"
    and "sh_sender h < length (sr_chans (ss_registry st))" "st1 = stream_drop api kx s st"
  shows "sr_sessions (ss_registry st1) = sr_sessions (ss_registry st) \<and>
    fst (messages_deliver kx now sid (Some m) (ss_registry st1)) = accepted \<and>
    sr_chans (snd (messages_deliver kx now sid (Some m) (ss_registry st1))) = sr_chans (ss_registry st1) \<and>
    map_of (sr_sessions (snd (messages_deliver kx now sid (Some m) (ss_registry st1)))) sid =
      Some (h\<lparr>sh_last_activity := now\<rparr>)"
  using assms
  by (auto simp: stream_drop_def messages_deliver_def session_registry_send_def session_chan_ok_def update_conv' Let_def)

text \<open>The shutdown flag stops new sessions only: messages of open sessions are dispatched as before.\<close>

theorem messages_ignore_shutdown:
  "sse_messages_handler te kx env now slug q hs body (st\<lparr>ss_is_shutting_down := b\<rparr>) =
   map_option (\<lambda>(r, st'). (r, st'\<lparr>ss_is_shutting_down := b\<rparr>)) (sse_messages_handler te kx env now slug q hs body st)"
  by (auto simp: sse_messages_handler_def messages_deliver_def Let_def split: sum.split option.split)

section \<open>Examples\<close>

definition sample_kx :: "(bool \<times> string list) session_chan_api" where
  "sample_kx =
     \<lparr>kx_mpsc =
        \<lparr>mp_channel = (\<lambda>_. (True, [])),
         mp_try_send = (\<lambda>m (alive, q). if \<not> alive then Inl Closed else if length q < 64 then Inr (alive, q @ [m]) else Inl Full),
         mp_send = (\<lambda>m (alive, q). if \<not> alive then Some (Inl ()) else if length q < 64 then Some (Inr (alive, q @ [m])) else None),
         mp_recv = (\<lambda>(alive, q). case q of [] \<Rightarrow> None | m # ms \<Rightarrow> Some (m, (alive, ms)))\<rparr>,
      kx_drop_receiver = (\<lambda>(_, q). (False, q))\<rparr>"

lemma sample_kx_ok: "session_chan_ok sample_kx snd"
  unfolding session_chan_ok_def
proof (intro conjI exI [of _ "\<lambda>_. 0"])
  show "mpsc_ok (kx_mpsc sample_kx) snd (\<lambda>_. 0) 64"
    by (auto simp: mpsc_ok_def sample_kx_def split: if_splits)
qed (auto simp: sample_kx_def)

definition sample_sse :: "(nat, nat \<times> log_msg list, bool \<times> string list) sse_state" where
  "sample_sse =
     sse_state_new (ts_validator sample_transport) (ts_router sample_transport) (tracker_new nat_semaphore 10) session_registry_new False"

definition sample_connect_env :: connect_env where
  "sample_connect_env = \<lparr>ce_auth = sample_auth_env 100, ce_now = 5, ce_now_secs = 1000, ce_uuid = 7\<rparr>"

lemma sample_sse_parts [simp]:
  "rx_semaphore (te_router sample_te) = nat_semaphore" "te_auth sample_te = sample_ag"
  "ss_router sample_sse = ts_router sample_transport" "ss_validator sample_sse = ts_validator sample_transport"
  "ss_connection_tracker sample_sse = ts_connection_tracker sample_transport" "ss_registry sample_sse = session_registry_new"
  by (simp_all add: sample_te_def sample_rx_def sample_sse_def sse_state_new_def sample_transport_def transport_new_def)

lemma sample_acquire:
  obtains g t where "try_acquire nat_semaphore 5 (sc_id (auth_config ''cba'')) (sc_max_connections (auth_config ''cba''))
     (ts_connection_tracker sample_transport) = (Inr g, t)"
  using sample_admitted(2) by (auto simp: is_ok_def split: sum.splits) (metis prod.collapse)

lemma sample_connect:
  "\<exists>hs ka s st'. sse_connect_handler sample_te sample_kx sample_connect_env (db_slug sample_row) sample_headers sample_sse =
     Some (Opened hs ka s, st')"
proof -
  obtain tv where v: "validate_request sample_ag nat_semaphore (sample_auth_env 100) (Some ''Bearer abc'')
      (auth_config ''cba'') (ts_validator sample_transport) = Some (Inr (), tv)" using sample_admitted(1) by auto
  obtain g t where a: "try_acquire nat_semaphore 5 (sc_id (auth_config ''cba'')) (sc_max_connections (auth_config ''cba''))
     (ts_connection_tracker sample_transport) = (Inr g, t)" by (rule sample_acquire)
  have r: "connect_refusal sample_te sample_sse = None"
    by (simp add: connect_refusal_def sample_sse_def sse_state_new_def session_registry_len_def session_registry_new_def MAX_SSE_SESSIONS_def)
  show ?thesis
    by (simp add: sse_connect_handler_def r Let_def split_beta sample_resolve v a sample_checks sample_connect_env_def
        open_session_def)
qed

theorem session_opened_only_authenticated_witness:
  "\<exists>config u tv. fst (resolve_slug (db_slug sample_row) (rt_cache (ts_router sample_transport))) = Some config \<and>
     validate_request sample_ag nat_semaphore (sample_auth_env 100) (Some ''Bearer abc'') config
       (ts_validator sample_transport) = Some (Inr u, tv)"
proof -
  obtain hs ka s st' where c: "sse_connect_handler sample_te sample_kx sample_connect_env (db_slug sample_row) sample_headers
      sample_sse = Some (Opened hs ka s, st')" using sample_connect by blast
  from session_opened_only_authenticated [OF c] show ?thesis
    by (auto simp: sample_checks sample_connect_env_def)
qed

definition sample_registry :: "(bool \<times> string list) session_registry" where
  "sample_registry =
     \<lparr>sr_sessions = [(7, \<lparr>sh_sender = 0, sh_last_activity = 1000, sh_slug = ''s'', sh_token_prefix = None\<rparr>)],
      sr_chans = [(True, [''a''])]\<rparr>"


theorem sweep_exact_witness:
  "sr_sessions (sweep sample_te sample_kx 1121 sample_registry) = []"
proof -
  have "sessions_wf sample_registry" by (simp add: sample_registry_def sessions_wf_def)
  from sweep_exact [OF this, of sample_te sample_kx 1121] show ?thesis
    by (simp add: sample_registry_def idle_at_def SESSION_TIMEOUT_SECS_def)
qed


text \<open>A run: a session is opened, a response is delivered to it, and its stream is polled twice.\<close>

definition sample_world :: "(nat, nat \<times> log_msg list, bool \<times> string list) sse_sys" where
  "sample_world = \<lparr>sw_state = sample_sse, sw_streams = [], sw_others = [], sw_seen = (\<lambda>_. [])\<rparr>"

lemma sample_world_start: "sse_start nat_semaphore 10 sample_world"
  by (auto simp: sse_start_def sample_world_def sample_sse_def)

lemma sample_world_reach:
  "sse_step sample_te sample_kx sample_world s \<Longrightarrow> reach (sse_start nat_semaphore 10) (sse_step sample_te sample_kx) s"
  by (rule reach_step, rule reach_init, rule sample_world_start)

lemma sample_opened:
  obtains s str where "sse_step sample_te sample_kx sample_world s" "sw_streams s = [str]"
    "str = Endpoint (ep_url str) 0 (sm_guard str) 7" "sys_chans s = [(True, [])]" "sw_seen s = (\<lambda>_. [])"
    "map_option sh_sender (map_of (sr_sessions (ss_registry (sw_state s))) 7) = Some 0" "sw_others s = []"
proof -
  obtain g t where a: "try_acquire nat_semaphore 5 (sc_id (auth_config ''cba'')) (sc_max_connections (auth_config ''cba''))
     (ts_connection_tracker sample_transport) = (Inr g, t)" by (rule sample_acquire)
  let ?o = "open_session sample_te sample_kx sample_connect_env (db_slug sample_row) None g
      (sample_sse\<lparr>ss_connection_tracker := t\<rparr>)"
  obtain hs ka str st where o: "?o = (Opened hs ka str, st)" by (simp add: open_session_def register_def Let_def)
  have step: "sse_step sample_te sample_kx sample_world (sample_world\<lparr>sw_state := st, sw_streams := str # sw_streams sample_world\<rparr>)"
    by (rule open_step [of sample_te 5 "sc_id (auth_config ''cba'')" "sc_max_connections (auth_config ''cba'')" _ g t
          sample_kx sample_connect_env "db_slug sample_row" None hs ka])
      (use a o in \<open>simp_all add: sample_world_def\<close>)
  have "str = Endpoint (ep_url str) 0 (sm_guard str) 7" "sr_chans (ss_registry st) = [(True, [])]"
    "map_option sh_sender (map_of (sr_sessions (ss_registry st)) 7) = Some 0"
    using o by (auto simp: open_session_def register_def session_registry_new_def sample_connect_env_def sample_kx_def Let_def)
  with that [OF step] show thesis by (simp add: sample_world_def)
qed

theorem sse_connections_accounted_witness:
  "\<exists>s. reach (sse_start nat_semaphore 10) (sse_step sample_te sample_kx) s \<and> length (sw_streams s) = 1 \<and>
     unat (ct_global_count (ss_connection_tracker (sw_state s))) = 1 \<and>
     sem_available nat_semaphore (ct_global_semaphore (ss_connection_tracker (sw_state s))) = 9"
proof -
  obtain s str where s: "sse_step sample_te sample_kx sample_world s" "sw_streams s = [str]" "sw_others s = []"
    using sample_opened by metis
  have r: "reach (sse_start (rx_semaphore (te_router sample_te)) 10) (sse_step sample_te sample_kx) s"
    using sample_world_reach [OF s(1)] by simp
  have "semaphore_ok (rx_semaphore (te_router sample_te))" by (simp add: nat_semaphore_ok)
  from sse_connections_accounted [OF this r] r s(2,3) show ?thesis by (intro exI [of _ s]) simp
qed

lemma sample_run:
  obtains s s' where "reach (sse_start nat_semaphore 10) (sse_step sample_te sample_kx) s"
    "(sse_step sample_te sample_kx)\<^sup>*\<^sup>* s s'" "sys_chans s = [(True, [])]" "0 \<in> sm_rx ` set (sw_streams s')"
    "sw_seen s' 0 = [''m'']" "sw_seen s 0 = []"
proof -
  obtain s str where s: "sse_step sample_te sample_kx sample_world s" "sw_streams s = [str]"
    and str: "str = Endpoint (ep_url str) 0 (sm_guard str) 7" "sys_chans s = [(True, [])]" "sw_seen s = (\<lambda>_. [])"
      "map_option sh_sender (map_of (sr_sessions (ss_registry (sw_state s))) 7) = Some 0"
    by (rule sample_opened) blast
  let ?str = "Messages 0 (sm_guard str) 7"
  define s1 where "s1 = s\<lparr>sw_state := (sw_state s)\<lparr>ss_registry :=
      snd (messages_deliver sample_kx 1001 7 (Some ''m'') (ss_registry (sw_state s)))\<rparr>\<rparr>"
  define s2 where "s2 = s1\<lparr>sw_state := sw_state s1, sw_streams := [] @ ?str # [],
      sw_seen := note_event (sm_rx str) (Endpoint_Event (ep_url str)) (sw_seen s1)\<rparr>"
  have step1: "sse_step sample_te sample_kx s s1" unfolding s1_def by (rule deliver_step)
  have "stream_next nat_semaphore sample_kx str (sw_state s1) = (Yield (Endpoint_Event (ep_url str)) ?str, sw_state s1)"
    by (subst str(1)) (simp add: stream_next_def)
  then have step2: "sse_step sample_te sample_kx s1 s2"
    unfolding s2_def by (intro yield_step [where str = str]) (simp_all add: s1_def s(2))
  have c: "sys_chans s2 = [(True, [''m''])]" "sw_streams s2 = [?str]" "sw_seen s2 0 = []"
    using str(2-4) by (auto simp: s1_def s2_def messages_deliver_def session_registry_send_def sample_kx_def note_event_def Let_def)
  obtain st where y: "stream_next nat_semaphore sample_kx ?str (sw_state s2) = (Yield (Data_Event ''m'') ?str, st)"
    using c(1) by (simp add: stream_next_def sample_kx_def Let_def)
  define s3 where "s3 = s2\<lparr>sw_state := st, sw_streams := [] @ ?str # [],
      sw_seen := note_event (sm_rx ?str) (Data_Event ''m'') (sw_seen s2)\<rparr>"
  have step3: "sse_step sample_te sample_kx s2 s3"
    unfolding s3_def by (rule yield_step) (simp_all add: c y)
  have "(sse_step sample_te sample_kx)\<^sup>*\<^sup>* s s3"
    using step1 step2 step3 by (meson rtranclp.rtrancl_refl rtranclp.rtrancl_into_rtrancl)
  with that [OF sample_world_reach [OF s(1)], of s3] c str(2,3) show thesis
    by (simp add: s3_def note_event_def)
qed


theorem message_reaches_own_session_witness:
  "\<exists>resp st'. sse_messages_handler sample_te sample_kx (\<lambda>_. sample_env 200) 1001 ''other'' (Some 7) sample_headers ''x''
       (sample_sse\<lparr>ss_registry := sample_registry\<rparr>) = Some (resp, st') \<and> ht_status resp \<in> {400, 415}"
proof -
  have adm: "\<exists>r. messages_admit ''other'' (Some 7) sample_headers sample_registry = Inl r"
    by (simp add: messages_admit_def sample_registry_def sample_checks)
  then obtain resp st' where p: "sse_messages_handler sample_te sample_kx (\<lambda>_. sample_env 200) 1001 ''other'' (Some 7)
      sample_headers ''x'' (sample_sse\<lparr>ss_registry := sample_registry\<rparr>) = Some (resp, st')"
    by (auto simp: sse_messages_handler_def)
  have "sessions_wf (ss_registry (sample_sse\<lparr>ss_registry := sample_registry\<rparr>))"
    by (simp add: sample_registry_def sessions_wf_def)
  from message_reaches_own_session [OF p this] adm p show ?thesis by auto
qed

theorem disconnected_session_swallows_witness:
  "sr_chans (snd (messages_deliver sample_kx 1001 7 (Some ''m'')
     (ss_registry (stream_drop nat_semaphore sample_kx (Messages 0 \<lparr>cg_server_id = 1\<rparr> 7)
        (sample_sse\<lparr>ss_registry := sample_registry\<rparr>))))) = [(False, [''a''])]"
proof -
  let ?st = "sample_sse\<lparr>ss_registry := sample_registry\<rparr>"
  let ?h = "\<lparr>sh_sender = 0, sh_last_activity = 1000, sh_slug = ''s'', sh_token_prefix = None\<rparr>"
  have "map_of (sr_sessions (ss_registry ?st)) 7 = Some ?h" "sm_rx (Messages 0 \<lparr>cg_server_id = 1\<rparr> 7) = sh_sender ?h"
    "sh_sender ?h < length (sr_chans (ss_registry ?st))" by (simp_all add: sample_registry_def)
  from disconnected_session_swallows [OF sample_kx_ok this refl, of nat_semaphore 1001 "''m''"] show ?thesis
    by (simp add: stream_drop_def sample_registry_def sample_kx_def)
qed

end
