(* ===== verification/App_Error.thy ===== *)
theory App_Error
  imports Json
begin

text \<open>
  The application errors of \<open>libs/common/src/error.rs\<close>: their HTTP status, stable code and public
  message, the HTTP response built from them, and their mapping to JSON-RPC errors. The request id (a
  ULID) and serde's printer are arguments.
\<close>

section \<open>Errors\<close>

datatype app_error =
    NotFound string
  | Unauthorized string
  | Forbidden string
  | BadRequest string
  | InternalServerError string
  | Conflict string
  | TokenExpired
  | SsrfBlocked (blocked_url: string) (blocked_reason: string)
  | RateLimited u64
  | UpstreamError u16 string
  | UpstreamTimeout
  | UpstreamUnreachable string
  | CredentialNotFound
  | ToolNotFound
  | Validation string string

fun status_code :: "app_error \<Rightarrow> nat" where
  "status_code (NotFound _) = 404"
| "status_code CredentialNotFound = 404"
| "status_code ToolNotFound = 404"
| "status_code (Unauthorized _) = 401"
| "status_code TokenExpired = 401"
| "status_code (Forbidden _) = 403"
| "status_code (BadRequest _) = 400"
| "status_code (Validation _ _) = 400"
| "status_code (InternalServerError _) = 500"
| "status_code (Conflict _) = 409"
| "status_code (SsrfBlocked _ _) = 422"
| "status_code (RateLimited _) = 429"
| "status_code (UpstreamError _ _) = 502"
| "status_code (UpstreamUnreachable _) = 502"
| "status_code UpstreamTimeout = 504"

fun error_code :: "app_error \<Rightarrow> string" where
  "error_code (NotFound _) = ''not_found''"
| "error_code (Unauthorized _) = ''unauthorized''"
| "error_code (Forbidden _) = ''forbidden''"
| "error_code (BadRequest _) = ''bad_request''"
| "error_code (InternalServerError _) = ''internal_server_error''"
| "error_code (Conflict _) = ''conflict''"
| "error_code TokenExpired = ''token_expired''"
| "error_code (SsrfBlocked _ _) = ''ssrf_blocked''"
| "error_code (RateLimited _) = ''rate_limited''"
| "error_code (UpstreamError _ _) = ''upstream_error''"
| "error_code UpstreamTimeout = ''upstream_timeout''"
| "error_code (UpstreamUnreachable _) = ''upstream_unreachable''"
| "error_code CredentialNotFound = ''credential_not_found''"
| "error_code ToolNotFound = ''tool_not_found''"
| "error_code (Validation _ _) = ''validation_error''"

text \<open>The \<open>Display\<close> texts.\<close>

fun error_text :: "app_error \<Rightarrow> string" where
  "error_text (NotFound m) = ''not found: '' @ m"
| "error_text (Unauthorized m) = ''unauthorized: '' @ m"
| "error_text (Forbidden m) = ''forbidden: '' @ m"
| "error_text (BadRequest m) = ''bad request: '' @ m"
| "error_text (InternalServerError m) = ''internal server error: '' @ m"
| "error_text (Conflict m) = ''conflict: '' @ m"
| "error_text TokenExpired = ''token has expired''"
| "error_text (SsrfBlocked u r) = ''ssrf blocked: '' @ r @ '' (url: '' @ u @ '')''"
| "error_text (RateLimited n) = ''rate limited: retry after '' @ show_nat (unat n) @ '' seconds''"
| "error_text (UpstreamError s _) = ''upstream error '' @ show_nat (unat s)"
| "error_text UpstreamTimeout = ''upstream request timed out''"
| "error_text (UpstreamUnreachable r) = ''upstream unreachable: '' @ r"
| "error_text CredentialNotFound = ''credential not found''"
| "error_text ToolNotFound = ''tool not found''"
| "error_text (Validation f m) = ''validation error for '' @ [CHR 0x27] @ f @ [CHR 0x27] @ '': '' @ m"

definition public_message :: "app_error \<Rightarrow> string" where
  "public_message e =
     (case e of InternalServerError _ \<Rightarrow> ''An internal error occurred.'' | other \<Rightarrow> error_text other)"

section \<open>JSON-RPC errors\<close>

definition rpc_method_not_found :: int where "rpc_method_not_found = - 32601"
definition rpc_invalid_params :: int where "rpc_invalid_params = - 32602"
definition rpc_internal_error :: int where "rpc_internal_error = - 32603"
definition SERVER_ERROR_BASE :: int where "SERVER_ERROR_BASE = - 32000"

record mcp_error =
  me_code :: int
  me_message :: string
  me_data :: "json option"

definition mcp_error_new :: "int \<Rightarrow> string \<Rightarrow> mcp_error" where
  "mcp_error_new code message = \<lparr>me_code = code, me_message = message, me_data = None\<rparr>"

fun mcp_error_of :: "app_error \<Rightarrow> mcp_error" where
  "mcp_error_of ToolNotFound = mcp_error_new rpc_method_not_found ''Tool not found.''"
| "mcp_error_of CredentialNotFound = mcp_error_new rpc_method_not_found ''Credential not found.''"
| "mcp_error_of (NotFound _) = mcp_error_new rpc_method_not_found ''Resource not found.''"
| "mcp_error_of (Validation field message) =
     mcp_error_new rpc_invalid_params
       (''Validation error for '' @ [CHR 0x27] @ field @ [CHR 0x27] @ '': '' @ message)"
| "mcp_error_of (BadRequest _) = mcp_error_new rpc_invalid_params ''Invalid request parameters.''"
| "mcp_error_of (InternalServerError _) = mcp_error_new rpc_internal_error ''An internal error occurred.''"
| "mcp_error_of (UpstreamError _ _) = mcp_error_new rpc_internal_error ''An internal error occurred.''"
| "mcp_error_of UpstreamTimeout = mcp_error_new rpc_internal_error ''An internal error occurred.''"
| "mcp_error_of (UpstreamUnreachable _) = mcp_error_new rpc_internal_error ''An internal error occurred.''"
| "mcp_error_of (SsrfBlocked _ _) = mcp_error_new rpc_internal_error ''An internal error occurred.''"
| "mcp_error_of (Unauthorized _) = mcp_error_new SERVER_ERROR_BASE ''Unauthorized.''"
| "mcp_error_of TokenExpired = mcp_error_new SERVER_ERROR_BASE ''Unauthorized.''"
| "mcp_error_of (Forbidden _) = mcp_error_new SERVER_ERROR_BASE ''Forbidden.''"
| "mcp_error_of (RateLimited n) =
     mcp_error_new SERVER_ERROR_BASE (''Rate limit exceeded. Retry after '' @ show_nat (unat n) @ ''s.'')"
| "mcp_error_of (Conflict _) = mcp_error_new SERVER_ERROR_BASE ''Conflict.''"

section \<open>HTTP responses\<close>

record error_details =
  ed_code :: string
  ed_message :: string
  ed_request_id :: string

record error_response =
  er_error :: error_details

record app_response =
  ap_status :: nat
  ap_headers :: "(string \<times> string) list"
  ap_body :: string

text \<open>
  \<open>request_id\<close> is the fresh ULID, \<open>to_string\<close> serde's printer, \<open>header_ok\<close> whether the id is
  a valid header value. \<open>StatusCode::from_u16\<close> accepts 100 to 999.
\<close>

definition into_response ::
  "(error_response \<Rightarrow> string option) \<Rightarrow> (string \<Rightarrow> bool) \<Rightarrow> string \<Rightarrow> app_error \<Rightarrow> app_response" where
  "into_response to_string header_ok request_id e =
     (let status = (if 100 \<le> status_code e \<and> status_code e \<le> 999 then status_code e else 500);
          code = error_code e;
          body = \<lparr>er_error = \<lparr>ed_code = code, ed_message = public_message e, ed_request_id = request_id\<rparr>\<rparr>;
          json_body = (case to_string body of
             Some s \<Rightarrow> s
           | None \<Rightarrow> ''{\"error\":{\"code\":\"'' @ code @
               ''\",\"message\":\"error serialization failed\",\"request_id\":\"'' @ request_id @ ''\"}}'');
          header_value = (if header_ok request_id then request_id else ''error'')
      in \<lparr>ap_status = status,
          ap_headers = [(''content-type'', ''application/json''), (''x-request-id'', header_value)],
          ap_body = json_body\<rparr>)"

section \<open>Properties\<close>

definition error_kind :: "app_error \<Rightarrow> nat" where
  "error_kind e =
     (case e of
        NotFound _ \<Rightarrow> 0 | Unauthorized _ \<Rightarrow> 1 | Forbidden _ \<Rightarrow> 2 | BadRequest _ \<Rightarrow> 3 | InternalServerError _ \<Rightarrow> 4
      | Conflict _ \<Rightarrow> 5 | TokenExpired \<Rightarrow> 6 | SsrfBlocked _ _ \<Rightarrow> 7 | RateLimited _ \<Rightarrow> 8 | UpstreamError _ _ \<Rightarrow> 9
      | UpstreamTimeout \<Rightarrow> 10 | UpstreamUnreachable _ \<Rightarrow> 11 | CredentialNotFound \<Rightarrow> 12 | ToolNotFound \<Rightarrow> 13
      | Validation _ _ \<Rightarrow> 14)"

lemma error_code_kind: "error_code a = error_code b \<longleftrightarrow> error_kind a = error_kind b"
  by (cases a; cases b) (simp_all add: error_kind_def)

text \<open>Errors whose cause is inside the service or behind it.\<close>

definition is_internal :: "app_error \<Rightarrow> bool" where
  "is_internal e =
     (case e of InternalServerError _ \<Rightarrow> True | UpstreamError _ _ \<Rightarrow> True | UpstreamTimeout \<Rightarrow> True
      | UpstreamUnreachable _ \<Rightarrow> True | SsrfBlocked _ _ \<Rightarrow> True | _ \<Rightarrow> False)"


end
