(* ===== verification/Audit_Log.thy ===== *)
theory Audit_Log
  imports Json Logging "HOL-Library.Sublist"
begin

text \<open>
  The audit log (\<open>libs/common/src/audit.rs\<close>): the events and their stored form, the logger that never
  blocks, and the background writer that collects events into batches and writes each batch in one
  transaction. tokio's channel is the \<open>mpsc_api\<close> of theory \<open>Logging\<close>; PostgreSQL is the parameter
  \<open>audit_db\<close>, and what the writer relies on is \<open>postgres_ok\<close>.
\<close>

section \<open>Events\<close>

definition AUDIT_CHANNEL_CAPACITY :: nat where "AUDIT_CHANNEL_CAPACITY = 4096"
definition BATCH_SIZE :: nat where "BATCH_SIZE = 50"
definition FLUSH_INTERVAL_MS :: nat where "FLUSH_INTERVAL_MS = 100"
definition AUDIT_SHUTDOWN_TIMEOUT_SECS :: nat where "AUDIT_SHUTDOWN_TIMEOUT_SECS = 5"

datatype audit_action =
    AuthSuccess | AuthFailure | WebhookAuthFailure
  | CredentialCreate | CredentialRotate | CredentialDelete | CredentialAccess | CredentialAccessFailure
  | SsrfBlock | RateLimitExceeded
  | ServerCreate | ServerUpdate | ServerDelete | ServerTokenGenerate | ServerTokenRevoke

fun action_str :: "audit_action \<Rightarrow> string" where
  "action_str AuthSuccess = ''auth_success''"
| "action_str AuthFailure = ''auth_failure''"
| "action_str WebhookAuthFailure = ''webhook_auth_failure''"
| "action_str CredentialCreate = ''credential_create''"
| "action_str CredentialRotate = ''credential_rotate''"
| "action_str CredentialDelete = ''credential_delete''"
| "action_str CredentialAccess = ''credential_access''"
| "action_str CredentialAccessFailure = ''credential_access_failure''"
| "action_str SsrfBlock = ''ssrf_block''"
| "action_str RateLimitExceeded = ''rate_limit_exceeded''"
| "action_str ServerCreate = ''server_create''"
| "action_str ServerUpdate = ''server_update''"
| "action_str ServerDelete = ''server_delete''"
| "action_str ServerTokenGenerate = ''server_token_generate''"
| "action_str ServerTokenRevoke = ''server_token_revoke''"

text \<open>\<open>SanitizedErrorMsg\<close> is a string that its creator declares safe.\<close>

type_synonym sanitized_error_msg = string

record audit_event =
  av_action :: audit_action
  av_user_id :: "uuid option"
  av_server_id :: "uuid option"
  av_success :: bool
  av_error_msg :: "sanitized_error_msg option"
  av_metadata :: "json option"
  av_correlation_id :: "string option"

definition insert_opt :: "string \<Rightarrow> json option \<Rightarrow> (string \<times> json) list \<Rightarrow> (string \<times> json) list" where
  "insert_opt k v m = (case v of Some j \<Rightarrow> obj_insert k j m | None \<Rightarrow> m)"

definition merged_metadata :: "audit_event \<Rightarrow> json" where
  "merged_metadata e =
     (let m = (case av_metadata e of
            Some (Object m) \<Rightarrow> m
          | Some other \<Rightarrow> obj_insert ''data'' other []
          | None \<Rightarrow> []);
          m1 = obj_insert ''success'' (Bool (av_success e)) m;
          m2 = insert_opt ''error_msg'' (map_option String (av_error_msg e)) m1;
          m3 = insert_opt ''correlation_id'' (map_option String (av_correlation_id e)) m2
      in Object m3)"

text \<open>A row of the table \<open>audit_log\<close>: actor, action, resource, metadata.\<close>

type_synonym audit_row = "uuid option \<times> string \<times> uuid option \<times> json"

definition audit_row_of :: "audit_event \<Rightarrow> audit_row" where
  "audit_row_of e = (av_user_id e, action_str (av_action e), av_server_id e, merged_metadata e)"

section \<open>The database\<close>

record ('d, 't) audit_db =
  ad_begin :: "'d \<Rightarrow> 't option"
  ad_insert :: "audit_row \<Rightarrow> 't \<Rightarrow> bool \<times> 't"
  ad_commit :: "'t \<Rightarrow> 'd \<Rightarrow> bool \<times> 'd"

text \<open>
  What PostgreSQL documents of a transaction: the rows it inserted become visible together when it commits;
  after a statement has failed the transaction is aborted, every further statement fails, and its commit
  is a rollback. A commit that reports an error may or may not have happened.
\<close>

definition postgres_ok ::
  "('d, 't) audit_db \<Rightarrow> ('d \<Rightarrow> audit_row list) \<Rightarrow> ('t \<Rightarrow> audit_row list) \<Rightarrow> ('t \<Rightarrow> bool) \<Rightarrow> bool" where
  "postgres_ok db table inserted aborted \<longleftrightarrow>
     (\<forall>d t. ad_begin db d = Some t \<longrightarrow> inserted t = [] \<and> \<not> aborted t) \<and>
     (\<forall>r t ok t'. ad_insert db r t = (ok, t') \<longrightarrow>
        (if ok then \<not> aborted t \<and> \<not> aborted t' \<and> inserted t' = inserted t @ [r] else aborted t')) \<and>
     (\<forall>t d ok d'. ad_commit db t d = (ok, d') \<longrightarrow>
        (if aborted t then table d' = table d
         else if ok then table d' = table d @ inserted t
         else table d' = table d \<or> table d' = table d @ inserted t))"

definition insert_all :: "('d, 't) audit_db \<Rightarrow> audit_event list \<Rightarrow> 't \<Rightarrow> 't" where
  "insert_all db batch t = fold (\<lambda>event tx. snd (ad_insert db (audit_row_of event) tx)) batch t"

definition flush_batch :: "('d, 't) audit_db \<Rightarrow> audit_event list \<Rightarrow> 'd \<Rightarrow> 'd" where
  "flush_batch db batch d =
     (case ad_begin db d of
        None \<Rightarrow> d
      | Some tx \<Rightarrow> snd (ad_commit db (insert_all db batch tx) d))"

section \<open>The logger and its writer\<close>

text \<open>
  Where the writer is: in its loop, in the drain after the shutdown signal, before the last flush, or
  returned. When it returns the receiver is dropped and the channel refuses events.
\<close>

datatype writer_phase = Running | Draining | Flushing | Stopped

record ('c, 'd) audit_state =
  au_chan :: 'c
  au_senders :: bool
  au_signal :: bool
  au_phase :: writer_phase
  au_buffer :: "audit_event list"
  au_db :: 'd
  au_dropped :: nat

definition audit_logger_new :: "(audit_event, 'c) mpsc_api \<Rightarrow> 'd \<Rightarrow> ('c, 'd) audit_state" where
  "audit_logger_new api d =
     \<lparr>au_chan = mp_channel api AUDIT_CHANNEL_CAPACITY, au_senders = True, au_signal = False, au_phase = Running,
      au_buffer = [], au_db = d, au_dropped = 0\<rparr>"

definition audit_log :: "(audit_event, 'c) mpsc_api \<Rightarrow> audit_event \<Rightarrow> ('c, 'd) audit_state \<Rightarrow> bool \<times> ('c, 'd) audit_state" where
  "audit_log api event st =
     (if au_phase st = Stopped then (False, st\<lparr>au_dropped := Suc (au_dropped st)\<rparr>)
      else case mp_try_send api event (au_chan st) of
             Inr c \<Rightarrow> (True, st\<lparr>au_chan := c\<rparr>)
           | Inl _ \<Rightarrow> (False, st\<lparr>au_dropped := Suc (au_dropped st)\<rparr>))"

text \<open>\<open>flush_batch\<close> of the buffer that \<open>mem::take\<close> empties, and the batch that was flushed.\<close>

definition flush_buffer ::
  "('d, 't) audit_db \<Rightarrow> ('c, 'd) audit_state \<Rightarrow> audit_event list option \<times> ('c, 'd) audit_state" where
  "flush_buffer db st =
     (if au_buffer st = [] then (None, st)
      else (Some (au_buffer st), st\<lparr>au_buffer := [], au_db := flush_batch db (au_buffer st) (au_db st)\<rparr>))"

text \<open>
  One turn of the loop. The select is biased: the shutdown signal first, then an event, then the timer;
  \<open>None\<close> means that none of them is ready. \<open>tick\<close> says whether the flush timer has fired.
\<close>

definition writer_turn ::
  "(audit_event, 'c) mpsc_api \<Rightarrow> ('d, 't) audit_db \<Rightarrow> bool \<Rightarrow> ('c, 'd) audit_state
   \<Rightarrow> (audit_event list option \<times> ('c, 'd) audit_state) option" where
  "writer_turn api db tick st =
     (case au_phase st of
        Running \<Rightarrow>
          if au_signal st then Some (None, st\<lparr>au_phase := Draining\<rparr>)
          else (case mp_recv api (au_chan st) of
                  Some (event, c) \<Rightarrow>
                    let st1 = st\<lparr>au_chan := c, au_buffer := au_buffer st @ [event]\<rparr> in
                    if length (au_buffer st1) \<ge> BATCH_SIZE then Some (flush_buffer db st1) else Some (None, st1)
                | None \<Rightarrow>
                    if \<not> au_senders st then Some (None, st\<lparr>au_phase := Flushing\<rparr>)
                    else if tick then Some (flush_buffer db st)
                    else None)
      | Draining \<Rightarrow>
          (case mp_recv api (au_chan st) of
             Some (event, c) \<Rightarrow> Some (None, st\<lparr>au_chan := c, au_buffer := au_buffer st @ [event]\<rparr>)
           | None \<Rightarrow> Some (None, st\<lparr>au_phase := Flushing\<rparr>))
      | Flushing \<Rightarrow> (let (b, st1) = flush_buffer db st in Some (b, st1\<lparr>au_phase := Stopped\<rparr>))
      | Stopped \<Rightarrow> None)"

fun audit_run_writer ::
  "nat \<Rightarrow> (audit_event, 'c) mpsc_api \<Rightarrow> ('d, 't) audit_db \<Rightarrow> ('c, 'd) audit_state \<Rightarrow> ('c, 'd) audit_state" where
  "audit_run_writer 0 api db st = st"
| "audit_run_writer (Suc n) api db st =
     (case writer_turn api db False st of None \<Rightarrow> st | Some (_, st1) \<Rightarrow> audit_run_writer n api db st1)"

text \<open>
  The handles that \<open>shutdown\<close> takes: the signal and the task. The result says whether the call sent the
  signal and which warning it logged, if any.
\<close>

record audit_handles =
  ha_shutdown_tx :: bool
  ha_task :: bool

datatype join_outcome = Joined | Panicked string | Elapsed

definition audit_shutdown :: "join_outcome \<Rightarrow> audit_handles \<Rightarrow> bool \<times> string option \<times> audit_handles" where
  "audit_shutdown outcome h =
     (let sent = ha_shutdown_tx h; h1 = h\<lparr>ha_shutdown_tx := False\<rparr> in
      if ha_task h1 then
        (sent,
         (case outcome of
            Joined \<Rightarrow> None
          | Panicked e \<Rightarrow> Some ''audit writer task panicked during shutdown''
          | Elapsed \<Rightarrow> Some (''audit writer task did not finish within '' @ show_nat AUDIT_SHUTDOWN_TIMEOUT_SECS @
              ''s drain timeout'')),
         h1\<lparr>ha_task := False\<rparr>)
      else (sent, None, h1))"

section \<open>Stored events\<close>

lemma action_str_inject: "action_str a = action_str b \<longleftrightarrow> a = b"
  by (cases a; cases b) simp_all

lemma insert_opt_ok [simp]: "obj_ok m \<Longrightarrow> obj_ok (insert_opt k v m)"
  by (simp add: insert_opt_def split: option.split)

lemma get_insert_opt [simp]:
  "obj_ok m \<Longrightarrow> obj_get j (insert_opt k v m) = (if j = k \<and> v \<noteq> None then v else obj_get j m)"
  by (auto simp: insert_opt_def split: option.split)

text \<open>The object of the caller, or a wrapper around a value that is not one.\<close>

definition base_fields :: "audit_event \<Rightarrow> (string \<times> json) list" where
  "base_fields e = (case av_metadata e of Some (Object m) \<Rightarrow> m | Some j \<Rightarrow> [(''data'', j)] | None \<Rightarrow> [])"

text \<open>
  The stored metadata of an event is an object with \<open>success\<close> and, when the event has them,
  \<open>error_msg\<close> and \<open>correlation_id\<close>; every other field of the caller's metadata keeps its value. A
  row determines the action of its event.
\<close>

theorem merged_metadata_fields:
  assumes "obj_ok (base_fields e)"
  shows "\<exists>m. merged_metadata e = Object m \<and> obj_ok m \<and>
    (\<forall>k. obj_get k m =
       (if k = ''success'' then Some (Bool (av_success e))
        else if k = ''error_msg'' \<and> av_error_msg e \<noteq> None then map_option String (av_error_msg e)
        else if k = ''correlation_id'' \<and> av_correlation_id e \<noteq> None then map_option String (av_correlation_id e)
        else obj_get k (base_fields e)))"
proof -
  have b: "(case av_metadata e of Some (Object m) \<Rightarrow> m | Some other \<Rightarrow> obj_insert ''data'' other [] | None \<Rightarrow> []) = base_fields e"
    by (simp add: base_fields_def split: option.split json.split)
  show ?thesis using assms by (auto simp: merged_metadata_def Let_def b)
qed

section \<open>Transactions\<close>

lemma insert_all_effect:
  assumes "postgres_ok db table inserted aborted"
  shows "aborted (insert_all db batch t) \<or>
    \<not> aborted t \<and> inserted (insert_all db batch t) = inserted t @ map audit_row_of batch"
proof (induction batch arbitrary: t)
  case (Cons e batch)
  obtain ok t1 where i: "ad_insert db (audit_row_of e) t = (ok, t1)" by (cases "ad_insert db (audit_row_of e) t")
  have *: "if ok then \<not> aborted t \<and> \<not> aborted t1 \<and> inserted t1 = inserted t @ [audit_row_of e] else aborted t1"
    using assms i unfolding postgres_ok_def by blast
  have "insert_all db (e # batch) t = insert_all db batch t1" by (simp add: insert_all_def i)
  with Cons [of t1] show ?case using * by (auto split: if_splits)
qed (auto simp: insert_all_def)

text \<open>
  A batch is written completely, in order, or not at all. In particular one event that cannot be inserted
  takes the whole batch with it.
\<close>

lemma flush_all_or_nothing:
  assumes "postgres_ok db table inserted aborted"
  shows "table (flush_batch db batch d) = table d \<or> table (flush_batch db batch d) = table d @ map audit_row_of batch"
proof (cases "ad_begin db d")
  case (Some tx)
  obtain ok d' where c: "ad_commit db (insert_all db batch tx) d = (ok, d')" by (cases "ad_commit db (insert_all db batch tx) d")
  have b: "inserted tx = []" using assms Some unfolding postgres_ok_def by blast
  have "if aborted (insert_all db batch tx) then table d' = table d
     else if ok then table d' = table d @ inserted (insert_all db batch tx)
     else table d' = table d \<or> table d' = table d @ inserted (insert_all db batch tx)"
    using assms c unfolding postgres_ok_def by blast
  with insert_all_effect [OF assms, of batch tx] b show ?thesis
    by (auto simp: flush_batch_def Some c split: if_splits)
qed (simp add: flush_batch_def)

lemma insert_all_append: "insert_all db (xs @ ys) t = insert_all db ys (insert_all db xs t)"
  by (simp add: insert_all_def)

text \<open>
  An event whose insert fails loses the whole batch: the comment in the source expects the other events of the
  batch to be written.
\<close>

theorem failed_insert_loses_batch:
  assumes "postgres_ok db table inserted aborted" "ad_begin db d = Some tx"
    and "ad_insert db (audit_row_of e) (insert_all db xs tx) = (False, t)"
  shows "table (flush_batch db (xs @ e # ys) d) = table d"
proof -
  have a: "aborted t" using assms(1,3) unfolding postgres_ok_def by presburger
  have "insert_all db (xs @ e # ys) tx = insert_all db ys t"
    using assms(3) by (simp add: insert_all_append) (simp add: insert_all_def)
  moreover have "aborted (insert_all db ys t)" using insert_all_effect [OF assms(1), of ys t] a by blast
  moreover obtain ok d' where c: "ad_commit db (insert_all db ys t) d = (ok, d')" by (cases "ad_commit db (insert_all db ys t) d")
  ultimately have "table d' = table d" using assms(1) c unfolding postgres_ok_def by presburger
  with c assms(2) \<open>insert_all db (xs @ e # ys) tx = insert_all db ys t\<close> show ?thesis by (simp add: flush_batch_def)
qed


section \<open>The writer and its clients\<close>

text \<open>
  With the history: the events the channel accepted, those accepted before the shutdown signal, and the
  batches handed to the database.
\<close>

record ('c, 'd) audit_sys =
  as_state :: "('c, 'd) audit_state"
  as_accepted :: "audit_event list"
  as_before_signal :: "audit_event list"
  as_batches :: "audit_event list list"

text \<open>Each turn may meet another behaviour of the database, as long as it is one of PostgreSQL's.\<close>

inductive audit_step ::
  "(audit_event, 'c) mpsc_api \<Rightarrow> ('d \<Rightarrow> audit_row list) \<Rightarrow> ('t \<Rightarrow> audit_row list) \<Rightarrow> ('t \<Rightarrow> bool)
   \<Rightarrow> ('c, 'd) audit_sys \<Rightarrow> ('c, 'd) audit_sys \<Rightarrow> bool"
  for api table inserted aborted where
  log_step: "au_senders (as_state s) \<Longrightarrow> audit_log api event (as_state s) = (ok, st) \<Longrightarrow>
    audit_step api table inserted aborted s
      (s\<lparr>as_state := st, as_accepted := as_accepted s @ (if ok then [event] else [])\<rparr>)"
| turn_step: "postgres_ok db table inserted aborted \<Longrightarrow> writer_turn api db tick (as_state s) = Some (b, st) \<Longrightarrow>
    audit_step api table inserted aborted s
      (s\<lparr>as_state := st, as_batches := as_batches s @ (case b of Some x \<Rightarrow> [x] | None \<Rightarrow> [])\<rparr>)"
| signal_step: "au_senders (as_state s) \<Longrightarrow> \<not> au_signal (as_state s) \<Longrightarrow>
    audit_step api table inserted aborted s
      (s\<lparr>as_state := (as_state s)\<lparr>au_signal := True\<rparr>, as_before_signal := as_accepted s\<rparr>)"
| senders_step: "audit_step api table inserted aborted s (s\<lparr>as_state := (as_state s)\<lparr>au_senders := False\<rparr>\<rparr>)"

definition audit_start :: "(audit_event, 'c) mpsc_api \<Rightarrow> ('d \<Rightarrow> audit_row list) \<Rightarrow> ('c, 'd) audit_sys \<Rightarrow> bool" where
  "audit_start api table s \<longleftrightarrow>
     (\<exists>d. table d = [] \<and> s = \<lparr>as_state = audit_logger_new api d, as_accepted = [], as_before_signal = [], as_batches = []\<rparr>)"

definition audit_inv ::
  "('c \<Rightarrow> audit_event list) \<Rightarrow> ('d \<Rightarrow> audit_row list) \<Rightarrow> ('c, 'd) audit_sys \<Rightarrow> bool" where
  "audit_inv queue table s \<longleftrightarrow>
     as_accepted s = concat (as_batches s) @ au_buffer (as_state s) @ queue (au_chan (as_state s)) \<and>
     prefix (as_before_signal s) (as_accepted s) \<and>
     (\<exists>bs. subseq bs (as_batches s) \<and> table (au_db (as_state s)) = map audit_row_of (concat bs)) \<and>
     (case au_phase (as_state s) of
        Running \<Rightarrow> length (au_buffer (as_state s)) < BATCH_SIZE \<and> (\<forall>b \<in> set (as_batches s). length b \<le> BATCH_SIZE)
      | Draining \<Rightarrow> au_signal (as_state s)
      | Flushing \<Rightarrow> if au_signal (as_state s) then prefix (as_before_signal s) (concat (as_batches s) @ au_buffer (as_state s))
           else \<not> au_senders (as_state s) \<and> queue (au_chan (as_state s)) = []
      | Stopped \<Rightarrow> au_buffer (as_state s) = [] \<and>
          (if au_signal (as_state s) then prefix (as_before_signal s) (concat (as_batches s))
           else \<not> au_senders (as_state s) \<and> queue (au_chan (as_state s)) = []))"

lemma audit_inv_log:
  assumes "mpsc_ok api queue reserved cap" "audit_inv queue table s" "audit_log api event (as_state s) = (ok, st)"
    "au_senders (as_state s)"
  shows "audit_inv queue table (s\<lparr>as_state := st, as_accepted := as_accepted s @ (if ok then [event] else [])\<rparr>)"
proof (cases ok)
  case True
  then obtain c where "st = (as_state s)\<lparr>au_chan := c\<rparr>" "queue c = queue (au_chan (as_state s)) @ [event]"
    "au_phase (as_state s) \<noteq> Stopped"
    using assms(1,3) by (auto simp: audit_log_def mpsc_ok_def split: if_splits sum.splits)
  moreover have "prefix (as_before_signal s) (concat (as_batches s) @ au_buffer (as_state s) @ queue (au_chan (as_state s)) @ [event])"
    using assms(2) prefix_prefix [of "as_before_signal s" "as_accepted s" "[event]"] by (auto simp: audit_inv_def)
  ultimately show ?thesis using assms(2,4) True by (auto simp: audit_inv_def split: writer_phase.splits if_splits)
next
  case False
  then have "st = (as_state s)\<lparr>au_dropped := Suc (au_dropped (as_state s))\<rparr>"
    using assms(3) by (auto simp: audit_log_def split: if_splits sum.splits)
  then show ?thesis using assms(2) False by (auto simp: audit_inv_def split: writer_phase.splits)
qed

text \<open>A flush moves the buffer into a batch; the table grows by the batch or stays.\<close>

lemma flush_moves:
  assumes "postgres_ok db table inserted aborted" "flush_buffer db st = (b, st')"
    and "\<exists>bs. subseq bs batches \<and> table (au_db st) = map audit_row_of (concat bs)"
  shows "au_buffer st' = [] \<and> au_chan st' = au_chan st \<and> au_senders st' = au_senders st \<and> au_signal st' = au_signal st \<and>
    au_phase st' = au_phase st \<and> (case b of Some x \<Rightarrow> [x] | None \<Rightarrow> []) = (if au_buffer st = [] then [] else [au_buffer st]) \<and>
    (\<exists>bs. subseq bs (batches @ (case b of Some x \<Rightarrow> [x] | None \<Rightarrow> [])) \<and> table (au_db st') = map audit_row_of (concat bs))"
proof (cases "au_buffer st = []")
  case True
  with assms(2,3) show ?thesis by (auto simp: flush_buffer_def)
next
  case False
  obtain bs where bs: "subseq bs batches" "table (au_db st) = map audit_row_of (concat bs)" using assms(3) by blast
  have f: "b = Some (au_buffer st)" "st' = st\<lparr>au_buffer := [], au_db := flush_batch db (au_buffer st) (au_db st)\<rparr>"
    using assms(2) False by (simp_all add: flush_buffer_def)
  have "\<exists>cs. subseq cs (batches @ [au_buffer st]) \<and> table (flush_batch db (au_buffer st) (au_db st)) = map audit_row_of (concat cs)"
    using flush_all_or_nothing [OF assms(1), of "au_buffer st" "au_db st"]
  proof
    assume "table (flush_batch db (au_buffer st) (au_db st)) = table (au_db st)"
    with bs show ?thesis by (intro exI [of _ bs]) (auto intro: subseq_rev_drop_many)
  next
    assume "table (flush_batch db (au_buffer st) (au_db st)) = table (au_db st) @ map audit_row_of (au_buffer st)"
    with bs show ?thesis by (intro exI [of _ "bs @ [au_buffer st]"]) (auto intro: list_emb_append_mono)
  qed
  with f False show ?thesis by simp
qed

lemma audit_inv_turn:
  assumes "mpsc_ok api queue reserved cap" "postgres_ok db table inserted aborted" "audit_inv queue table s"
    and "writer_turn api db tick (as_state s) = Some (b, st)"
  shows "audit_inv queue table (s\<lparr>as_state := st, as_batches := as_batches s @ (case b of Some x \<Rightarrow> [x] | None \<Rightarrow> [])\<rparr>)"
proof -
  let ?st = "as_state s"
  have tab: "\<exists>bs. subseq bs (as_batches s) \<and> table (au_db ?st) = map audit_row_of (concat bs)"
    using assms(3) by (simp add: audit_inv_def)
  note recv = mpsc_recv [OF assms(1), of "au_chan ?st"]
  show ?thesis
  proof (cases "au_phase ?st")
    case Running
    note inv = assms(3) [unfolded audit_inv_def Running writer_phase.case]
    consider (signal) "b = None" "st = ?st\<lparr>au_phase := Draining\<rparr>" "au_signal ?st"
      | (take) ev c where "b = None" "\<not> au_signal ?st" "mp_recv api (au_chan ?st) = Some (ev, c)"
          "st = ?st\<lparr>au_chan := c, au_buffer := au_buffer ?st @ [ev]\<rparr>" "length (au_buffer ?st @ [ev]) < BATCH_SIZE"
      | (full) ev c where "\<not> au_signal ?st" "mp_recv api (au_chan ?st) = Some (ev, c)"
          "flush_buffer db (?st\<lparr>au_chan := c, au_buffer := au_buffer ?st @ [ev]\<rparr>) = (b, st)"
      | (gone) "b = None" "st = ?st\<lparr>au_phase := Flushing\<rparr>" "\<not> au_senders ?st" "\<not> au_signal ?st" "mp_recv api (au_chan ?st) = None"
      | (tick) "flush_buffer db ?st = (b, st)" "\<not> au_signal ?st"
      using assms(4) Running by (auto simp: writer_turn_def Let_def split: if_splits option.splits)
    then show ?thesis
    proof cases
      case signal
      with inv show ?thesis by (auto simp: audit_inv_def)
    next
      case take
      then have "queue (au_chan ?st) = ev # queue c" using recv by (auto split: list.splits)
      with take inv Running show ?thesis by (auto simp: audit_inv_def)
    next
      case full
      then have "queue (au_chan ?st) = ev # queue c" using recv by (auto split: list.splits)
      moreover note flush_moves [OF assms(2) full(3), of "as_batches s"] tab
      ultimately show ?thesis using inv full Running by (auto simp: audit_inv_def BATCH_SIZE_def)
    next
      case gone
      then have "queue (au_chan ?st) = []" using recv by (auto split: list.splits)
      with gone inv show ?thesis by (auto simp: audit_inv_def)
    next
      case tick
      note flush_moves [OF assms(2) tick(1) tab]
      with inv tick Running show ?thesis by (auto simp: audit_inv_def BATCH_SIZE_def)
    qed
  next
    case Draining
    note inv = assms(3) [unfolded audit_inv_def Draining writer_phase.case]
    show ?thesis
    proof (cases "mp_recv api (au_chan ?st)")
      case None
      then have "queue (au_chan ?st) = []" using recv by (auto split: list.splits)
      then show ?thesis using assms(4) Draining None inv by (auto simp: audit_inv_def writer_turn_def)
    next
      case (Some ec)
      then obtain ev c where ec: "mp_recv api (au_chan ?st) = Some (ev, c)" by (cases ec) auto
      then have "queue (au_chan ?st) = ev # queue c" using recv by (auto split: list.splits)
      then show ?thesis using assms(4) Draining ec inv by (auto simp: audit_inv_def writer_turn_def)
    qed
  next
    case Flushing
    note inv = assms(3) [unfolded audit_inv_def Flushing writer_phase.case]
    obtain st1 where f: "flush_buffer db ?st = (b, st1)" "st = st1\<lparr>au_phase := Stopped\<rparr>"
      using assms(4) Flushing by (auto simp: writer_turn_def split: prod.splits)
    note flush_moves [OF assms(2) f(1) tab]
    with inv f(2) show ?thesis by (auto simp: audit_inv_def split: if_splits)
  qed (use assms(4) in \<open>simp add: writer_turn_def\<close>)
qed

lemma audit_step_inv:
  assumes "mpsc_ok api queue reserved cap" "audit_inv queue table s" "audit_step api table inserted aborted s t"
  shows "audit_inv queue table t"
  using assms(3,2)
proof (cases rule: audit_step.cases)
  case (log_step event ok st)
  with audit_inv_log [OF assms(1,2)] show ?thesis by simp
next
  case (turn_step db tick b st)
  with audit_inv_turn [OF assms(1) turn_step(2) assms(2)] show ?thesis by simp
next
  case signal_step
  with assms(2) show ?thesis by (auto simp: audit_inv_def split: writer_phase.splits)
qed (use assms(2) in \<open>auto simp: audit_inv_def split: writer_phase.splits\<close>)



lemma drain_stops:
  assumes "mpsc_ok api queue reserved cap" "au_phase st = Draining" "length (queue (au_chan st)) + 2 \<le> n"
  shows "au_phase (audit_run_writer n api db st) = Stopped \<and>
    au_db (audit_run_writer n api db st) =
      (if au_buffer st @ queue (au_chan st) = [] then au_db st
       else flush_batch db (au_buffer st @ queue (au_chan st)) (au_db st))"
  using assms(2,3)
proof (induction n arbitrary: st)
  case (Suc n)
  note recv = mpsc_recv [OF assms(1), of "au_chan st"]
  show ?case
  proof (cases "queue (au_chan st)")
    case Nil
    obtain k where k: "n = Suc k" using Suc.prems(2) by (cases n) auto
    have stop: "audit_run_writer k api db s = s" if "au_phase s = Stopped" for s
      using that by (cases k) (simp_all add: writer_turn_def)
    have "mp_recv api (au_chan st) = None" using Nil recv by (auto split: option.splits)
    with Nil Suc.prems(1) show ?thesis by (simp add: k writer_turn_def flush_buffer_def stop)
  next
    case (Cons e es)
    then obtain c where c: "mp_recv api (au_chan st) = Some (e, c)" "queue c = es"
      using recv by (auto split: option.splits)
    have "audit_run_writer (Suc n) api db st = audit_run_writer n api db (st\<lparr>au_chan := c, au_buffer := au_buffer st @ [e]\<rparr>)"
      using c(1) Suc.prems(1) by (simp add: writer_turn_def)
    with Suc.IH [of "st\<lparr>au_chan := c, au_buffer := au_buffer st @ [e]\<rparr>"] Suc.prems c(2) Cons show ?thesis by simp
  qed
qed simp

text \<open>
  C39: The shutdown of the writer ends: after the signal, as many turns as there are events waiting and three more
  stop the writer, with every waiting event in the last batch.
\<close>

theorem audit_writer_stops:
  assumes "mpsc_ok api queue reserved AUDIT_CHANNEL_CAPACITY" "au_phase st = Running" "au_signal st"
    and "length (queue (au_chan st)) + 3 \<le> n"
  shows "au_phase (audit_run_writer n api db st) = Stopped \<and>
    au_db (audit_run_writer n api db st) =
      (if au_buffer st @ queue (au_chan st) = [] then au_db st
       else flush_batch db (au_buffer st @ queue (au_chan st)) (au_db st))"
proof -
  obtain k where k: "n = Suc k" using assms(4) by (cases n) auto
  have "audit_run_writer n api db st = audit_run_writer k api db (st\<lparr>au_phase := Draining\<rparr>)"
    using assms(2,3) by (simp add: k writer_turn_def)
  with drain_stops [OF assms(1), of "st\<lparr>au_phase := Draining\<rparr>" k db] assms(4) show ?thesis by (simp add: k)
qed

text \<open>A second call of \<open>shutdown\<close> does nothing.\<close>

lemma audit_shutdown_idempotent:
  "snd (snd (audit_shutdown o2 (snd (snd (audit_shutdown o1 h))))) = snd (snd (audit_shutdown o1 h)) \<and>
   fst (audit_shutdown o2 (snd (snd (audit_shutdown o1 h)))) = False \<and>
   fst (snd (audit_shutdown o2 (snd (snd (audit_shutdown o1 h))))) = None"
  by (simp add: audit_shutdown_def Let_def)

section \<open>Examples\<close>

text \<open>A database that is the list of its rows, and transactions that never fail, or fail on one action.\<close>

definition list_db :: "string \<Rightarrow> (audit_row list, audit_row list \<times> bool) audit_db" where
  "list_db bad =
     \<lparr>ad_begin = (\<lambda>d. Some ([], False)),
      ad_insert = (\<lambda>r (rs, ab). if ab \<or> fst (snd r) = bad then (False, (rs, True)) else (True, (rs @ [r], False))),
      ad_commit = (\<lambda>(rs, ab) d. (True, if ab then d else d @ rs))\<rparr>"

lemma list_db_ok: "postgres_ok (list_db bad) id fst snd"
  by (auto simp: postgres_ok_def list_db_def split: if_splits)

definition sample_event :: "audit_action \<Rightarrow> audit_event" where
  "sample_event a =
     \<lparr>av_action = a, av_user_id = None, av_server_id = Some 1, av_success = True, av_error_msg = None,
      av_metadata = Some (json_obj [(''k'', String ''v'')]), av_correlation_id = None\<rparr>"

theorem merged_metadata_fields_witness:
  "\<exists>m. merged_metadata (sample_event AuthSuccess) = Object m \<and> obj_get ''k'' m = Some (String ''v'') \<and>
     obj_get ''success'' m = Some (Bool True)"
proof -
  have b: "base_fields (sample_event AuthSuccess) = [(''k'', String ''v'')]"
    by (simp add: base_fields_def sample_event_def json_obj_def obj_of_def)
  then have "obj_ok (base_fields (sample_event AuthSuccess))" by (simp add: obj_ok_def)
  from merged_metadata_fields [OF this] obtain m where m: "merged_metadata (sample_event AuthSuccess) = Object m"
    "obj_get ''success'' m = Some (Bool (av_success (sample_event AuthSuccess)))"
    "obj_get ''k'' m = obj_get ''k'' [(''k'', String ''v'')]" by (auto simp: b)
  then show ?thesis by (simp add: sample_event_def)
qed

theorem failed_insert_loses_batch_witness:
  "flush_batch (list_db ''ssrf_block'') [sample_event AuthSuccess, sample_event SsrfBlock, sample_event AuthFailure] [] = []"
  using failed_insert_loses_batch [OF list_db_ok [of "''ssrf_block''"], of "[]" "([], False)" "sample_event SsrfBlock"
      "[sample_event AuthSuccess]" _ "[sample_event AuthFailure]"]
  by (simp add: list_db_def insert_all_def audit_row_of_def sample_event_def)

definition sample_audit :: "(nat \<times> audit_event list, audit_row list) audit_state" where
  "sample_audit = (audit_logger_new queue_mpsc [])\<lparr>au_chan := (4096, [sample_event AuthSuccess]), au_signal := True\<rparr>"

theorem audit_writer_stops_witness:
  "au_phase (audit_run_writer 4 queue_mpsc (list_db []) sample_audit) = Stopped \<and>
   au_db (audit_run_writer 4 queue_mpsc (list_db []) sample_audit) = [audit_row_of (sample_event AuthSuccess)]"
proof -
  have "audit_row_of (sample_event AuthSuccess) = (None, ''auth_success'', Some 1, merged_metadata (sample_event AuthSuccess))"
    by (simp add: audit_row_of_def sample_event_def)
  then show ?thesis
    using audit_writer_stops [OF queue_mpsc_ok, of sample_audit 4 "list_db []"]
    by (simp add: sample_audit_def audit_logger_new_def flush_batch_def insert_all_def list_db_def)
qed

definition sample_audit_sys :: "(nat \<times> audit_event list, audit_row list) audit_sys" where
  "sample_audit_sys =
     \<lparr>as_state = audit_logger_new queue_mpsc [], as_accepted = [], as_before_signal = [], as_batches = []\<rparr>"


end
