(* ===== verification/Float64_Exact.thy ===== *)
theory Float64_Exact
  imports Complex_Main Float64
begin

text \<open>
  When \<open>f64\<close> arithmetic is exact. The value \<open>v / 2 ^ j\<close> with \<open>v < 2 ^ 53\<close> is
  representable, rounding depends only on the ratio it is given, and so sums, differences and products
  whose result has that form are exact. Also the operations of \<open>f64\<close> that compare and convert.
\<close>

section \<open>Comparison and conversion\<close>

definition f64_is_nan :: "u64 \<Rightarrow> bool" where
  "f64_is_nan x = (f64_decode x = F_NaN)"

definition f64_le :: "u64 \<Rightarrow> u64 \<Rightarrow> bool" where
  "f64_le x y =
     (case (f64_decode x, f64_decode y) of
        (F_Fin s m e, F_Fin t k g) \<Rightarrow>
          (let (a, b) = f64_ratio s m e; (c, d) = f64_ratio t k g in a * int d \<le> c * int b)
      | (F_Inf s, F_Inf t) \<Rightarrow> s \<or> \<not> t
      | (F_Inf s, F_Fin _ _ _) \<Rightarrow> s
      | (F_Fin _ _ _, F_Inf t) \<Rightarrow> \<not> t
      | _ \<Rightarrow> False)"

text \<open>\<open>f64::min\<close> and \<open>f64::max\<close> prefer a number to a NaN.\<close>

definition f64_min :: "u64 \<Rightarrow> u64 \<Rightarrow> u64" where
  "f64_min x y = (if f64_is_nan x then y else if f64_is_nan y then x else if f64_le x y then x else y)"

definition f64_max :: "u64 \<Rightarrow> u64 \<Rightarrow> u64" where
  "f64_max x y = (if f64_is_nan x then y else if f64_is_nan y then x else if f64_le x y then y else x)"

definition f64_floor :: "u64 \<Rightarrow> u64" where
  "f64_floor x =
     (case f64_decode x of
        F_Fin s m e \<Rightarrow> (let (a, b) = f64_ratio s m e in f64_of_ratio s (a div int b) 1)
      | _ \<Rightarrow> x)"

definition f64_ceil :: "u64 \<Rightarrow> u64" where
  "f64_ceil x =
     (case f64_decode x of
        F_Fin s m e \<Rightarrow> (let (a, b) = f64_ratio s m e in f64_of_ratio s (- (- a div int b)) 1)
      | _ \<Rightarrow> x)"

text \<open>\<open>x as u32\<close> and \<open>x as u64\<close>: towards zero, saturating, and zero for a NaN.\<close>

definition f64_as_unsigned :: "u64 \<Rightarrow> 'a::len word" where
  "f64_as_unsigned x =
     (case f64_decode x of
        F_NaN \<Rightarrow> 0
      | F_Inf s \<Rightarrow> if s then 0 else - 1
      | F_Fin s m e \<Rightarrow>
          (let (a, b) = f64_ratio s m e in
           if a < 0 then 0 else if a div int b < 2 ^ LENGTH('a) then word_of_int (a div int b) else - 1))"

section \<open>Rounding depends on the ratio\<close>

lemma ratio_log_cond:
  assumes "0 < d"
  shows "d * 2 ^ nat k \<le> n * 2 ^ nat (- k) \<longleftrightarrow> (2 :: real) powi k \<le> real n / real d"
proof (cases "0 \<le> k")
  case True
  then have "d * 2 ^ nat k \<le> n * 2 ^ nat (- k) \<longleftrightarrow> real (d * 2 ^ nat k) \<le> real n" by (simp only: of_nat_le_iff) simp
  with True assms show ?thesis by (simp add: power_int_def pos_le_divide_eq mult.commute)
next
  case False
  then have "d * 2 ^ nat k \<le> n * 2 ^ nat (- k) \<longleftrightarrow> real d \<le> real (n * 2 ^ nat (- k))" by (simp only: of_nat_le_iff) simp
  with False assms show ?thesis by (simp add: power_int_def pos_le_divide_eq field_simps)
qed

lemma real_bit_len: "0 < n \<Longrightarrow> (2 :: real) powi (int (bit_len n) - 1) \<le> real n \<and> real n < 2 powi int (bit_len n)"
proof -
  assume n: "0 < n"
  note b = bit_len_bounds [OF n]
  have "(2 :: real) powi (int (bit_len n) - 1) = 2 ^ (bit_len n - 1)"
    using b by (metis Suc_pred' diff_Suc_1 int_ops(4) power_int_of_nat add_diff_cancel_left' of_nat_Suc)
  moreover have "(2 :: real) powi int (bit_len n) = 2 ^ bit_len n" by simp
  moreover have "(2 :: real) ^ (bit_len n - 1) \<le> real n" "real n < 2 ^ bit_len n"
    using b by (metis of_nat_le_iff of_nat_numeral of_nat_power, metis of_nat_less_iff of_nat_numeral of_nat_power)
  ultimately show ?thesis by simp
qed

lemma ratio_log_bounds:
  assumes "0 < n" "0 < d"
  shows "(2 :: real) powi ratio_log n d \<le> real n / real d \<and> real n / real d < 2 powi (ratio_log n d + 1)"
proof -
  let ?k = "int (bit_len n) - int (bit_len d)"
  note n = real_bit_len [OF assms(1)] and d = real_bit_len [OF assms(2)]
  have "(2 :: real) powi (int (bit_len n) - 1) / 2 powi int (bit_len d) < real n / real d"
    by (rule frac_less2) (use n d assms in auto)
  moreover have "(2 :: real) powi (?k - 1) = 2 powi (int (bit_len n) - 1) / 2 powi int (bit_len d)"
    by (subst power_int_diff [symmetric]) (simp_all add: algebra_simps)
  ultimately have lo: "(2 :: real) powi (?k - 1) < real n / real d" by simp
  have "real n / real d < 2 powi int (bit_len n) / 2 powi (int (bit_len d) - 1)"
    by (rule frac_less) (use n d assms in auto)
  moreover have "(2 :: real) powi (?k + 1) = 2 powi int (bit_len n) / 2 powi (int (bit_len d) - 1)"
    by (subst power_int_diff [symmetric]) (simp_all add: algebra_simps)
  ultimately have hi: "real n / real d < (2 :: real) powi (?k + 1)" by simp
  show ?thesis
    using lo hi ratio_log_cond [OF assms(2), of ?k n] by (auto simp: ratio_log_def Let_def)
qed

lemma ratio_log_unique:
  assumes "0 < n" "0 < d" "(2 :: real) powi k \<le> real n / real d" "real n / real d < 2 powi (k + 1)"
  shows "ratio_log n d = k"
proof -
  note b = ratio_log_bounds [OF assms(1,2)]
  have "(2 :: real) powi k < 2 powi (ratio_log n d + 1)" "(2 :: real) powi ratio_log n d < 2 powi (k + 1)"
    using b assms(3,4) by linarith+
  then have "k < ratio_log n d + 1" "ratio_log n d < k + 1"
    using power_int_increasing [of "ratio_log n d + 1" k "2 :: real"] power_int_increasing [of "k + 1" "ratio_log n d" "2 :: real"]
    by (auto simp: not_less [symmetric])
  then show ?thesis by simp
qed

lemma ratio_log_scale: "0 < n \<Longrightarrow> 0 < d \<Longrightarrow> 0 < c \<Longrightarrow> ratio_log (n * c) (d * c) = ratio_log n d"
  by (rule ratio_log_unique) (use ratio_log_bounds [of n d] in simp_all)

lemma div_round_even_scale: "0 < c \<Longrightarrow> div_round_even (n * c) (d * c) = div_round_even n d"
proof -
  assume c: "0 < c"
  have "2 * (n mod d * c) < d * c \<longleftrightarrow> 2 * (n mod d) < d" "d * c < 2 * (n mod d * c) \<longleftrightarrow> d < 2 * (n mod d)"
    using c by (metis mult.assoc mult_less_cancel2)+
  then show ?thesis using c by (simp add: div_round_even_def Let_def)
qed

lemma f64_round_scale:
  assumes "0 < d" "0 < c"
  shows "f64_round s (n * c) (d * c) = f64_round s n d"
proof (cases "n = 0")
  case False
  have "div_round_even (n * c * x) (d * c * y) = div_round_even (n * x) (d * y)" for x y
    using div_round_even_scale [OF assms(2), of "n * x" "d * y"] by (simp add: mult.commute mult.left_commute)
  with False assms ratio_log_scale [of n d c] show ?thesis by (simp add: f64_round_def Let_def)
qed (simp add: f64_round_def)

section \<open>Exact values\<close>

text \<open>\<open>f64_dy x v j\<close>: the finite value \<open>x\<close> has no sign and is \<open>v / 2 ^ j\<close>.\<close>

definition f64_dy :: "u64 \<Rightarrow> nat \<Rightarrow> nat \<Rightarrow> bool" where
  "f64_dy x v j \<longleftrightarrow>
     (\<exists>m e. f64_decode x = F_Fin False m e \<and> fst (f64_ratio False m e) * 2 ^ j = int v * int (snd (f64_ratio False m e)))"

lemma f64_ratio_pos [simp]: "0 < snd (f64_ratio s m e)"
  by (simp add: f64_ratio_def)

lemma f64_round_dyadic:
  assumes "0 < v" "v < 2 ^ 53" "j \<le> 1000"
  shows "f64_decode (f64_round s v (2 ^ j)) = F_Fin s (v * 2 ^ (53 - bit_len v)) (int (bit_len v) - 53 - int j)"
proof -
  let ?b = "bit_len v"
  let ?q = "v * 2 ^ (53 - ?b)"
  have b: "0 < ?b" "2 ^ (?b - 1) \<le> v" "v < 2 ^ ?b" "?b \<le> 53"
    using bit_len_bounds [OF assms(1)] bit_len_le [OF assms(2)] by auto
  have "(2 :: nat) ^ 52 = 2 ^ (?b - 1) * 2 ^ (53 - ?b)" using b by (simp flip: power_add)
  also have "\<dots> \<le> ?q" using b by simp
  finally have lo: "2 ^ 52 \<le> ?q" .
  have "?q < 2 ^ ?b * 2 ^ (53 - ?b)" using b by simp
  also have "\<dots> = (2 :: nat) ^ 53" using b by (simp flip: power_add)
  finally have hi: "?q < 2 ^ 53" .
  have p: "(2 :: real) powi (int ?b - 1 - int j) = 2 powi (int ?b - 1) / 2 ^ j"
    "(2 :: real) powi (int ?b - 1 - int j + 1) = 2 powi int ?b / 2 ^ j"
    using power_int_diff [of "2 :: real" "int ?b - 1" "int j"] power_int_diff [of "2 :: real" "int ?b" "int j"]
    by (simp_all add: algebra_simps)
  have "ratio_log v (2 ^ j) = int ?b - 1 - int j"
    by (rule ratio_log_unique) (use assms real_bit_len [OF assms(1)] p in \<open>simp_all add: divide_right_mono divide_strict_right_mono\<close>)
  then have e: "max (- 1074) (ratio_log v (2 ^ j) - 52) = int ?b - 53 - int j" using b assms(3) by simp
  have neg: "nat (- (int ?b - 53 - int j)) = 53 - ?b + j" "nat (int ?b - 53 - int j) = 0"
    "nat (int ?b - 53 - int j + 1074) = ?b + 1021 - j" using b assms(3) by simp_all
  have "div_round_even (v * 2 ^ (53 - ?b + j)) (2 ^ j * 2 ^ 0) = ?q"
    using div_round_even_exact [of "2 ^ j" ?q] by (simp add: power_add mult.assoc)
  then have "f64_round s v (2 ^ j) = f64_encode s (min f64_inf_bits ((?b + 1021 - j) * 2 ^ 52 + ?q))"
    unfolding f64_round_def e Let_def neg using assms(1) by simp
  also have "(?b + 1021 - j) * 2 ^ 52 + ?q = Suc (?b + 1021 - j) * 2 ^ 52 + (?q - 2 ^ 52)" using lo by simp
  also have "min f64_inf_bits \<dots> = \<dots>" using b hi lo assms(3) by (simp add: f64_inf_bits_def)
  finally have "f64_decode (f64_round s v (2 ^ j)) = F_Fin s (2 ^ 52 + (?q - 2 ^ 52)) (int (?b + 1021 - j) - 1074)"
    using b hi lo assms(3) f64_decode_encode [of "?b + 1021 - j" "?q - 2 ^ 52" s] by simp
  with lo b assms(3) show ?thesis by (simp add: of_nat_diff)
qed

lemma f64_decode_zero: "f64_decode (f64_encode False 0) = F_Fin False 0 (- 1074)"
  by (simp add: f64_decode_def unat_f64_encode Let_def)

lemma f64_round_dy:
  assumes "0 < v" "v < 2 ^ 53" "j \<le> 1000"
  shows "f64_dy (f64_round False v (2 ^ j)) v j"
proof -
  have "bit_len v \<le> 53" using bit_len_le [OF assms(2)] .
  then have e: "nat (- (int (bit_len v) - 53 - int j)) = 53 - bit_len v + j" "nat (int (bit_len v) - 53 - int j) = 0" by simp_all
  show ?thesis unfolding f64_dy_def
    by (intro exI conjI, rule f64_round_dyadic [OF assms]) (simp only: f64_ratio_def e power_add fst_conv snd_conv if_False, simp)
qed

text \<open>A ratio that equals \<open>v / 2 ^ j\<close> is rounded to it.\<close>

lemma f64_of_ratio_dy:
  assumes "0 < d" "n * 2 ^ j = int v * int d" "v < 2 ^ 53" "j \<le> 1000"
  shows "f64_dy (f64_of_ratio False n d) v j"
proof (cases "n = 0")
  case True
  with assms(1,2) have "v = 0" by simp
  with True show ?thesis by (simp add: f64_of_ratio_def f64_dy_def f64_decode_zero f64_ratio_def)
next
  case False
  have "0 \<le> n * 2 ^ j" using assms(2) by simp
  then have n: "0 < n" using False by (simp add: zero_le_mult_iff)
  have "int (nat n * 2 ^ j) = int (v * d)" using n assms(2) by simp
  then have eq: "nat n * 2 ^ j = v * d" by (simp only: of_nat_eq_iff)
  have "f64_round False (nat n) d = f64_round False (nat n * 2 ^ j) (d * 2 ^ j)" using assms(1) by (simp add: f64_round_scale)
  also have "\<dots> = f64_round False (v * d) (2 ^ j * d)" by (simp only: eq mult.commute)
  also have "\<dots> = f64_round False v (2 ^ j)" using assms(1) by (simp add: f64_round_scale)
  finally have "f64_of_ratio False n d = f64_round False v (2 ^ j)" using n by (simp add: f64_of_ratio_def)
  moreover have "0 < v" using eq n assms(1) by (cases v) auto
  ultimately show ?thesis using f64_round_dy assms(3,4) by simp
qed

lemma dyE:
  assumes "f64_dy x v j"
  obtains m e a b where "f64_decode x = F_Fin False m e" "f64_ratio False m e = (a, b)" "0 < b" "a * 2 ^ j = int v * int b"
  using assms unfolding f64_dy_def by (metis f64_ratio_pos prod.collapse)

lemma f64_of_int_dy: "n < 2 ^ 53 \<Longrightarrow> f64_dy (f64_of_int (int n)) n 0"
  unfolding f64_of_int_def by (rule f64_of_ratio_dy) simp_all

lemma f64_add_dy:
  assumes "f64_dy x v j" "f64_dy y w j" "v + w < 2 ^ 53" "j \<le> 1000"
  shows "f64_dy (f64_add x y) (v + w) j"
proof -
  obtain m e a b where x: "f64_decode x = F_Fin False m e" "f64_ratio False m e = (a, b)" "0 < b" "a * 2 ^ j = int v * int b"
    by (rule dyE [OF assms(1)])
  obtain k g c d where y: "f64_decode y = F_Fin False k g" "f64_ratio False k g = (c, d)" "0 < d" "c * 2 ^ j = int w * int d"
    by (rule dyE [OF assms(2)])
  have "(a * int d + c * int b) * 2 ^ j = a * 2 ^ j * int d + c * 2 ^ j * int b" by (simp add: algebra_simps)
  also have "\<dots> = int (v + w) * int (b * d)" by (simp add: x(4) y(4) algebra_simps)
  finally show ?thesis
    using f64_of_ratio_dy [of "b * d" "a * int d + c * int b" j "v + w"] x(1-3) y(1-3) assms(3,4) by (simp add: f64_add_def)
qed

lemma f64_mul_dy:
  assumes "f64_dy x v i" "f64_dy y w j" "v * w < 2 ^ 53" "i + j \<le> 1000"
  shows "f64_dy (f64_mul x y) (v * w) (i + j)"
proof -
  obtain m e a b where x: "f64_decode x = F_Fin False m e" "f64_ratio False m e = (a, b)" "0 < b" "a * 2 ^ i = int v * int b"
    by (rule dyE [OF assms(1)])
  obtain k g c d where y: "f64_decode y = F_Fin False k g" "f64_ratio False k g = (c, d)" "0 < d" "c * 2 ^ j = int w * int d"
    by (rule dyE [OF assms(2)])
  have "a * c * 2 ^ (i + j) = a * 2 ^ i * (c * 2 ^ j)" by (simp add: power_add algebra_simps)
  also have "\<dots> = int (v * w) * int (b * d)" by (simp add: x(4) y(4) algebra_simps)
  finally show ?thesis
    using f64_of_ratio_dy [of "b * d" "a * c" "i + j" "v * w"] x(1-3) y(1-3) assms(3,4) by (simp add: f64_mul_def)
qed

lemma f64_neg_one: "f64_decode (f64_neg (f64_of_int 1)) = F_Fin True (2 ^ 52) (- 52)"
  by (simp add: f64_of_int_def f64_of_ratio_def f64_round_def ratio_log_def bit_len.simps div_round_even_def
      f64_encode_def f64_inf_bits_def f64_neg_def f64_decode_def Let_def)

lemma f64_sub_one_dy:
  assumes "f64_dy x v j" "2 ^ j \<le> v" "v < 2 ^ 53" "j \<le> 1000"
  shows "f64_dy (f64_sub x (f64_of_int 1)) (v - 2 ^ j) j"
proof -
  obtain m e a b where x: "f64_decode x = F_Fin False m e" "f64_ratio False m e = (a, b)" "0 < b" "a * 2 ^ j = int v * int b"
    by (rule dyE [OF assms(1)])
  have "(a * 2 ^ 52 + - (2 ^ 52) * int b) * 2 ^ j = 2 ^ 52 * (a * 2 ^ j) - 2 ^ 52 * int b * 2 ^ j" by (simp add: algebra_simps)
  also have "\<dots> = int (v - 2 ^ j) * int (b * 2 ^ 52)" using assms(2) by (simp add: x(4) of_nat_diff algebra_simps)
  finally have "f64_dy (f64_of_ratio False (a * 2 ^ 52 + - (2 ^ 52) * int b) (b * 2 ^ 52)) (v - 2 ^ j) j"
    using x(3) assms(3,4) by (intro f64_of_ratio_dy) auto
  then show ?thesis using x(1,2) by (simp add: f64_sub_def f64_add_def f64_neg_one f64_ratio_def)
qed

lemma f64_le_dy:
  assumes "f64_dy x v j" "f64_dy y w j"
  shows "f64_le x y \<longleftrightarrow> v \<le> w"
proof -
  obtain m e a b where x: "f64_decode x = F_Fin False m e" "f64_ratio False m e = (a, b)" "0 < b" "a * 2 ^ j = int v * int b"
    by (rule dyE [OF assms(1)])
  obtain k g c d where y: "f64_decode y = F_Fin False k g" "f64_ratio False k g = (c, d)" "0 < d" "c * 2 ^ j = int w * int d"
    by (rule dyE [OF assms(2)])
  have "a * int d \<le> c * int b \<longleftrightarrow> a * int d * 2 ^ j \<le> c * int b * 2 ^ j" by simp
  also have "\<dots> \<longleftrightarrow> int v * (int b * int d) \<le> int w * (int b * int d)"
    using x(4) y(4) by (metis mult.assoc mult.commute)
  also have "\<dots> \<longleftrightarrow> v \<le> w" using x(3) y(3) mult_le_cancel_right_pos [of "int b * int d" "int v" "int w"] by simp
  finally show ?thesis using x(1,2) y(1,2) by (simp add: f64_le_def)
qed

lemma dy_not_nan: "f64_dy x v j \<Longrightarrow> \<not> f64_is_nan x"
  by (auto simp: f64_dy_def f64_is_nan_def)

lemma dy_shift: "f64_dy x v j \<Longrightarrow> f64_dy x (v * 2 ^ i) (j + i)"
  by (auto simp: f64_dy_def power_add)

lemma f64_floor_dy:
  assumes "f64_dy x v j" "v < 2 ^ 53"
  shows "f64_dy (f64_floor x) (v div 2 ^ j) 0"
proof -
  obtain m e a b where x: "f64_decode x = F_Fin False m e" "f64_ratio False m e = (a, b)" "0 < b" "a * 2 ^ j = int v * int b"
    by (rule dyE [OF assms(1)])
  have "a div int b = (a * 2 ^ j) div (int b * 2 ^ j)" by simp
  also have "\<dots> = int v div 2 ^ j" using x(3) by (simp add: x(4) mult.commute)
  finally have "a div int b = int (v div 2 ^ j)" by (simp add: zdiv_int)
  moreover have "v div 2 ^ j < 2 ^ 53" using assms(2) by (metis div_le_dividend le_less_trans)
  ultimately show ?thesis using x(1,2) f64_of_ratio_dy [of 1 "int (v div 2 ^ j)" 0 "v div 2 ^ j"] by (simp add: f64_floor_def)
qed

lemma f64_as_unsigned_dy:
  assumes "f64_dy x v 0" "v < 2 ^ LENGTH('a)"
  shows "f64_as_unsigned x = (of_nat v :: 'a::len word)"
proof -
  obtain m e a b where x: "f64_decode x = F_Fin False m e" "f64_ratio False m e = (a, b)" "0 < b" "a * 2 ^ 0 = int v * int b"
    by (rule dyE [OF assms(1)])
  then have "a = int v * int b" by simp
  moreover have "int v < 2 ^ LENGTH('a)" using assms(2) by (metis of_nat_less_iff of_nat_numeral of_nat_power)
  moreover have "\<not> int v * int b < 0" by (simp add: not_less)
  ultimately show ?thesis using x(1-3) by (simp add: f64_as_unsigned_def del: of_nat_mult)
qed

section \<open>Finite results\<close>

lemma div_round_even_le: "div_round_even n d \<le> Suc (n div d)"
  by (simp add: div_round_even_def Let_def)

lemma f64_round_finite:
  assumes "0 < d" "n \<le> d * 2 ^ 60"
  shows "\<exists>m e. f64_decode (f64_round False n d) = F_Fin False m e"
proof (cases "n = 0")
  case True
  then show ?thesis by (simp add: f64_round_def f64_decode_zero)
next
  case False
  let ?L = "ratio_log n d"
  let ?e = "max (- 1074) (?L - 52)"
  let ?q = "div_round_even (n * 2 ^ nat (- ?e)) (d * 2 ^ nat ?e)"
  note b = ratio_log_bounds [of n d]
  have "real n \<le> real (d * 2 ^ 60)" using assms(2) by (simp only: of_nat_le_iff)
  then have "real n / real d \<le> 2 powi 60" using assms(1) by (simp add: pos_divide_le_eq mult.commute)
  then have "(2 :: real) powi ?L \<le> 2 powi 60" using b False assms(1) by simp
  then have L: "?L \<le> 60" using power_int_le_imp_le_exp [of "2 :: real" ?L 60] by simp
  have "real (n * 2 ^ nat (- ?e)) / real (d * 2 ^ nat ?e) = real n / real d * 2 powi (- ?e)"
    by (cases "0 \<le> ?e") (auto simp: power_int_def field_simps)
  also have "\<dots> < 2 powi (?L + 1) * 2 powi (- ?e)" by (rule mult_strict_right_mono) (use b False assms(1) in simp_all)
  also have "\<dots> = 2 powi (?L + 1 - ?e)" by (simp flip: power_int_add)
  also have "\<dots> \<le> (2 :: real) powi 53" by (rule power_int_increasing) auto
  finally have "real (n * 2 ^ nat (- ?e)) < 2 ^ 53 * real (d * 2 ^ nat ?e)" using assms(1) by (simp add: pos_divide_less_eq)
  then have "real (n * 2 ^ nat (- ?e)) < real (2 ^ 53 * (d * 2 ^ nat ?e))" by simp
  then have "n * 2 ^ nat (- ?e) < 2 ^ 53 * (d * 2 ^ nat ?e)" by (simp only: of_nat_less_iff)
  then have "n * 2 ^ nat (- ?e) div (d * 2 ^ nat ?e) < 2 ^ 53" using assms(1) by (simp add: less_mult_imp_div_less)
  then have q: "?q \<le> 2 ^ 53" using div_round_even_le [of "n * 2 ^ nat (- ?e)" "d * 2 ^ nat ?e"] by simp
  define bits where "bits = nat (?e + 1074) * 2 ^ 52 + ?q"
  have "nat (?e + 1074) \<le> 1082" using L by simp
  then have lt: "bits < 2047 * 2 ^ 52" using q by (simp add: bits_def)
  have r: "f64_round False n d = f64_encode False bits"
    using False lt by (simp add: f64_round_def bits_def f64_inf_bits_def Let_def min_def)
  have u: "unat (f64_encode False bits) = bits" using lt by (subst unat_f64_encode) simp_all
  have "bits div 2 ^ 52 < 2047" using lt by (simp add: less_mult_imp_div_less)
  then have "bits div 2 ^ 52 mod 2048 \<noteq> 2047" "\<not> 2 ^ 63 \<le> bits" using lt by auto
  then show ?thesis unfolding r f64_decode_def u Let_def by simp
qed

text \<open>A finite value times zero is zero.\<close>

lemma f64_mul_zero:
  assumes "f64_dy x 0 j" "f64_decode y = F_Fin False k g"
  shows "f64_dy (f64_mul x y) 0 i"
proof -
  obtain m e a b where x: "f64_decode x = F_Fin False m e" "f64_ratio False m e = (a, b)" "a * 2 ^ j = int 0 * int b"
    by (rule dyE [OF assms(1)])
  then have "a = 0" by simp
  with x(1,2) assms(2) have "f64_mul x y = f64_encode False 0"
    by (simp add: f64_mul_def f64_of_ratio_def split_beta)
  then show ?thesis by (simp add: f64_dy_def f64_decode_zero f64_ratio_def)
qed

end
