(* ===== verification/Rate_Limit.thy ===== *)
theory Rate_Limit
  imports App_Error Audit_Log Float64_Exact
begin

text \<open>
  The rate limiter (\<open>libs/common/src/rate_limit/mod.rs\<close>): the token buckets in the process, with the
  \<open>f64\<close> arithmetic of theories \<open>Float64\<close> and \<open>Float64_Exact\<close>, the Redis path with its fallback,
  and the axum middleware. Redis and the script it runs are a parameter: a request sees what the
  connection and the two commands return. An instant is a number of nanoseconds.
\<close>

section \<open>State\<close>

record in_process_bucket =
  ib_tokens :: u64
  ib_last_check :: nat
  ib_capacity :: u64
  ib_rate_per_sec :: u64

record rate_limiter =
  lim_redis :: bool
  lim_script_sha :: string
  lim_in_process :: "(string \<times> in_process_bucket) list"
  lim_last_redis_warn :: "nat option"
  lim_warn_interval :: nat
  lim_warnings :: "(nat \<times> string) list"

record rate_limit_result =
  rr_allowed :: bool
  rr_remaining :: u32
  rr_limit :: u32
  rr_reset_secs :: u64

definition new_in_process :: "string \<Rightarrow> rate_limiter" where
  "new_in_process sha =
     \<lparr>lim_redis = False, lim_script_sha = sha, lim_in_process = [], lim_last_redis_warn = None,
      lim_warn_interval = 60 * 1000000000, lim_warnings = []\<rparr>"

definition new_with_redis :: "string \<Rightarrow> rate_limiter" where
  "new_with_redis sha =
     \<lparr>lim_redis = True, lim_script_sha = sha, lim_in_process = [], lim_last_redis_warn = None,
      lim_warn_interval = 60 * 1000000000, lim_warnings = []\<rparr>"

section \<open>Buckets in the process\<close>

abbreviation f64_one :: u64 where "f64_one \<equiv> f64_of_int 1"

definition f64_of_u32 :: "u32 \<Rightarrow> u64" where
  "f64_of_u32 n = f64_of_int (int (unat n))"

text \<open>\<open>Duration::as_secs_f64\<close>.\<close>

definition as_secs_f64 :: "nat \<Rightarrow> u64" where
  "as_secs_f64 ns =
     f64_add (f64_of_int (int (ns div 1000000000)))
       (f64_div (f64_of_int (int (ns mod 1000000000))) (f64_of_int 1000000000))"

definition new_bucket :: "nat \<Rightarrow> u32 \<Rightarrow> in_process_bucket" where
  "new_bucket now rate_per_min =
     \<lparr>ib_tokens = f64_of_u32 rate_per_min, ib_last_check = now,
      ib_capacity = f64_mul (f64_of_u32 rate_per_min) (f64_of_ratio False 3 2),
      ib_rate_per_sec = f64_div (f64_of_u32 rate_per_min) (f64_of_int 60)\<rparr>"

definition refill :: "nat \<Rightarrow> in_process_bucket \<Rightarrow> u64" where
  "refill now b =
     f64_min (ib_capacity b)
       (f64_add (ib_tokens b) (f64_mul (as_secs_f64 (now - ib_last_check b)) (ib_rate_per_sec b)))"

definition check_in_process :: "nat \<Rightarrow> string \<Rightarrow> u32 \<Rightarrow> rate_limiter \<Rightarrow> rate_limit_result \<times> rate_limiter" where
  "check_in_process now key rate_per_min rl =
     (let rate_per_sec = f64_div (f64_of_u32 rate_per_min) (f64_of_int 60);
          bucket = (case map_of (lim_in_process rl) key of Some b \<Rightarrow> b | None \<Rightarrow> new_bucket now rate_per_min);
          filled = refill now bucket;
          allowed = f64_le f64_one filled;
          tokens = (if allowed then f64_sub filled f64_one else filled);
          remaining = f64_as_unsigned (f64_max (f64_floor tokens) (f64_of_int 0));
          reset_secs = (if allowed \<or> f64_le rate_per_sec (f64_of_int 0) then 0
            else f64_as_unsigned (f64_ceil (f64_div (f64_sub f64_one tokens) rate_per_sec)))
      in (\<lparr>rr_allowed = allowed, rr_remaining = remaining, rr_limit = rate_per_min, rr_reset_secs = reset_secs\<rparr>,
          rl\<lparr>lim_in_process := AList.update key (bucket\<lparr>ib_tokens := tokens, ib_last_check := now\<rparr>) (lim_in_process rl)\<rparr>))"

section \<open>Redis\<close>

datatype redis_error = No_Script | Redis_Error string

text \<open>What one request sees of Redis: the connection, \<open>EVALSHA\<close> and \<open>EVAL\<close>.\<close>

record redis_env =
  rd_conn :: "string option"
  rd_evalsha :: "redis_error + int list"
  rd_eval :: "redis_error + int list"

definition redis_error_text :: "redis_error \<Rightarrow> string" where
  "redis_error_text e = (case e of No_Script \<Rightarrow> ''NOSCRIPT'' | Redis_Error m \<Rightarrow> m)"

definition maybe_warn :: "nat \<Rightarrow> string \<Rightarrow> rate_limiter \<Rightarrow> rate_limiter" where
  "maybe_warn now reason rl =
     (let should_warn = (case lim_last_redis_warn rl of Some t \<Rightarrow> lim_warn_interval rl \<le> now - t | None \<Rightarrow> True) in
      if should_warn then rl\<lparr>lim_last_redis_warn := Some now, lim_warnings := lim_warnings rl @ [(now, reason)]\<rparr>
      else rl)"

text \<open>\<open>u32::try_from\<close> and \<open>u64::try_from\<close> of an \<open>i64\<close>, with the default when it does not fit.\<close>

definition try_from_i64 :: "'a::len word \<Rightarrow> int \<Rightarrow> 'a word" where
  "try_from_i64 fallback i = (if 0 \<le> i \<and> i < 2 ^ LENGTH('a) then word_of_int i else fallback)"

definition script_result :: "redis_env \<Rightarrow> string + int list" where
  "script_result env =
     (case rd_evalsha env of
        Inr v \<Rightarrow> Inr v
      | Inl No_Script \<Rightarrow> (case rd_eval env of Inr v \<Rightarrow> Inr v | Inl e \<Rightarrow> Inl (redis_error_text e))
      | Inl e \<Rightarrow> Inl (redis_error_text e))"

definition try_redis ::
  "nat \<Rightarrow> redis_env \<Rightarrow> u32 \<Rightarrow> rate_limiter \<Rightarrow> rate_limit_result option \<times> rate_limiter" where
  "try_redis now env rate_per_min rl =
     (if \<not> lim_redis rl then (None, rl)
      else case rd_conn env of
        Some e \<Rightarrow> (None, maybe_warn now e rl)
      | None \<Rightarrow>
          (case script_result env of
             Inl e \<Rightarrow> (None, maybe_warn now e rl)
           | Inr raw \<Rightarrow>
               if length raw < 3 then (None, maybe_warn now ''unexpected Lua script return length'' rl)
               else
                 (Some \<lparr>rr_allowed = (raw ! 0 = 1), rr_remaining = try_from_i64 0 (raw ! 1), rr_limit = rate_per_min,
                        rr_reset_secs = try_from_i64 1 (raw ! 2)\<rparr>, rl)))"

definition check :: "nat \<Rightarrow> redis_env \<Rightarrow> string \<Rightarrow> u32 \<Rightarrow> rate_limiter \<Rightarrow> rate_limit_result \<times> rate_limiter" where
  "check now env key rate_per_min rl =
     (case try_redis now env rate_per_min rl of
        (Some result, lim1) \<Rightarrow> (result, lim1)
      | (None, lim1) \<Rightarrow> check_in_process now key rate_per_min lim1)"

section \<open>The middleware\<close>

record rate_limit_context =
  lx_server_id :: "uuid option"
  lx_user_id :: "uuid option"

record rate_limit_config =
  lc_per_server_rate :: u32
  lc_per_user_rate :: u32
  lc_enabled :: bool

text \<open>
  The limiter, the audit logger if there is one, and the state of the service behind. \<open>le_next\<close> runs
  that service on a request; \<open>le_error\<close> is \<open>into_response\<close> with its printer and request id.
\<close>

record ('c, 'd, 'n) limited_service =
  lv_limiter :: rate_limiter
  lv_audit :: "('c, 'd) audit_state option"
  lv_inner :: 'n

record ('q, 'c, 'n) rate_limit_ext =
  le_mpsc :: "(audit_event, 'c) mpsc_api"
  le_uuid_string :: "uuid \<Rightarrow> string"
  le_next :: "'q \<Rightarrow> 'n \<Rightarrow> app_response \<times> 'n"
  le_error :: "app_error \<Rightarrow> app_response"

definition insert_header :: "string \<Rightarrow> string \<Rightarrow> app_response \<Rightarrow> app_response" where
  "insert_header k v r = r\<lparr>ap_headers := AList.update k v (ap_headers r)\<rparr>"

definition append_rate_limit_headers :: "rate_limit_result \<Rightarrow> u64 \<Rightarrow> app_response \<Rightarrow> app_response" where
  "append_rate_limit_headers result now_unix r =
     (let reset_at = now_unix + rr_reset_secs result in
      insert_header ''x-ratelimit-reset'' (show_nat (unat reset_at))
        (insert_header ''x-ratelimit-remaining'' (show_nat (unat (rr_remaining result)))
          (insert_header ''x-ratelimit-limit'' (show_nat (unat (rr_limit result))) r)))"

definition build_429 :: "('q, 'c, 'n) rate_limit_ext \<Rightarrow> rate_limit_result \<Rightarrow> u64 \<Rightarrow> app_response" where
  "build_429 le result now_unix =
     (let retry_after = max (rr_reset_secs result) 1;
          resp = le_error le (RateLimited retry_after)
      in insert_header ''retry-after'' (show_nat (unat retry_after)) (append_rate_limit_headers result now_unix resp))"

definition exceeded_event :: "uuid option \<Rightarrow> uuid option \<Rightarrow> string \<Rightarrow> u32 \<Rightarrow> audit_event" where
  "exceeded_event user_id server_id scope rate =
     \<lparr>av_action = RateLimitExceeded, av_user_id = user_id, av_server_id = server_id, av_success = False,
      av_error_msg = Some (scope @ '' limit of '' @ show_nat (unat rate) @ '' req/min exceeded''),
      av_metadata = None, av_correlation_id = None\<rparr>"

definition log_exceeded ::
  "('q, 'c, 'n) rate_limit_ext \<Rightarrow> audit_event \<Rightarrow> ('c, 'd, 'n) limited_service \<Rightarrow> ('c, 'd, 'n) limited_service" where
  "log_exceeded le ev s = s\<lparr>lv_audit := map_option (\<lambda>a. snd (audit_log (le_mpsc le) ev a)) (lv_audit s)\<rparr>"

definition run_next ::
  "('q, 'c, 'n) rate_limit_ext \<Rightarrow> 'q \<Rightarrow> ('c, 'd, 'n) limited_service \<Rightarrow> app_response \<times> ('c, 'd, 'n) limited_service" where
  "run_next le req s = (let (resp, n) = le_next le req (lv_inner s) in (resp, s\<lparr>lv_inner := n\<rparr>))"

text \<open>One of the two limits: the check, the audit event and 429, or the service behind and the headers.\<close>

definition enforce ::
  "('q, 'c, 'n) rate_limit_ext \<Rightarrow> nat \<Rightarrow> u64 \<Rightarrow> redis_env \<Rightarrow> string \<Rightarrow> u32 \<Rightarrow> audit_event \<Rightarrow> 'q
   \<Rightarrow> ('c, 'd, 'n) limited_service \<Rightarrow> app_response \<times> ('c, 'd, 'n) limited_service" where
  "enforce le now now_unix env key rate ev req s =
     (let (result, rl) = check now env key rate (lv_limiter s);
          s1 = s\<lparr>lv_limiter := rl\<rparr>
      in if \<not> rr_allowed result then (build_429 le result now_unix, log_exceeded le ev s1)
         else let (resp, s2) = run_next le req s1 in (append_rate_limit_headers result now_unix resp, s2))"

definition rate_limit_middleware ::
  "('q, 'c, 'n) rate_limit_ext \<Rightarrow> rate_limit_config \<Rightarrow> nat \<Rightarrow> u64 \<Rightarrow> redis_env \<Rightarrow> rate_limit_context option \<Rightarrow> 'q
   \<Rightarrow> ('c, 'd, 'n) limited_service \<Rightarrow> app_response \<times> ('c, 'd, 'n) limited_service" where
  "rate_limit_middleware le config now now_unix env context req s =
     (if \<not> lc_enabled config then run_next le req s
      else case context of
        None \<Rightarrow> run_next le req s
      | Some ctx \<Rightarrow>
          (case lx_server_id ctx of
             Some sid \<Rightarrow>
               enforce le now now_unix env (''ratelimit:server:'' @ le_uuid_string le sid) (lc_per_server_rate config)
                 (exceeded_event (lx_user_id ctx) (Some sid) ''per-server'' (lc_per_server_rate config)) req s
           | None \<Rightarrow>
               (case lx_user_id ctx of
                  Some uid \<Rightarrow>
                    enforce le now now_unix env (''ratelimit:user:'' @ le_uuid_string le uid) (lc_per_user_rate config)
                      (exceeded_event (Some uid) (lx_server_id ctx) ''per-user'' (lc_per_user_rate config)) req s
                | None \<Rightarrow> run_next le req s)))"


section \<open>Bursts\<close>

text \<open>\<open>n\<close> checks of one key at the same instant: which of them are allowed.\<close>

fun check_burst :: "nat \<Rightarrow> nat \<Rightarrow> string \<Rightarrow> u32 \<Rightarrow> rate_limiter \<Rightarrow> bool list" where
  "check_burst 0 now key rate rl = []"
| "check_burst (Suc n) now key rate rl =
     (let (result, rl1) = check_in_process now key rate rl in rr_allowed result # check_burst n now key rate rl1)"

text \<open>A bucket that holds \<open>v / 2 ^ j\<close> tokens and has been refilled at \<open>now\<close>.\<close>

definition bucket_holds :: "nat \<Rightarrow> nat \<Rightarrow> nat \<Rightarrow> in_process_bucket \<Rightarrow> bool" where
  "bucket_holds now v j b \<longleftrightarrow>
     f64_dy (ib_tokens b) v j \<and> ib_last_check b = now \<and>
     (\<exists>c. f64_dy (ib_capacity b) c j \<and> v \<le> c \<and> c < 2 ^ 53) \<and> j \<le> 1000 \<and>
     (\<exists>m e. f64_decode (ib_rate_per_sec b) = F_Fin False m e)"

lemma f64_of_u32_dy: "f64_dy (f64_of_u32 r) (unat r) 0"
  using unsigned_less [of r, where ?'a = nat] unfolding f64_of_u32_def by (intro f64_of_int_dy) simp

lemma f64_dec: "f64_dy (f64_of_int 1) (2 ^ j) j"
  using dy_shift [OF f64_of_int_dy [of 1], of j] by simp

lemma as_secs_zero: "f64_dy (as_secs_f64 0) 0 0"
proof -
  have z: "f64_of_int 0 = f64_encode False 0" by (simp add: f64_of_int_def f64_of_ratio_def)
  have "f64_div (f64_of_int 0) (f64_of_int 1000000000) = f64_encode False 0"
  proof -
    obtain m e a b where x: "f64_decode (f64_of_int 1000000000) = F_Fin False m e" "f64_ratio False m e = (a, b)" "0 < b"
      "a * 2 ^ 0 = int 1000000000 * int b" using f64_of_int_dy [of 1000000000] by (auto elim: dyE)
    then have "m \<noteq> 0" by (intro notI) (simp add: f64_ratio_def)
    with x(1) show ?thesis by (simp add: f64_div_def z f64_decode_zero split_beta)
  qed
  moreover have "f64_dy (f64_encode False 0) 0 0" by (simp add: f64_dy_def f64_decode_zero f64_ratio_def)
  ultimately show ?thesis using f64_add_dy [of "f64_encode False 0" 0 0 "f64_encode False 0" 0] by (simp add: as_secs_f64_def z)
qed

lemma refill_same_instant:
  assumes "bucket_holds now v j b"
  shows "f64_dy (refill now b) v j"
proof -
  obtain c m e where b: "f64_dy (ib_tokens b) v j" "ib_last_check b = now" "f64_dy (ib_capacity b) c j" "v \<le> c" "c < 2 ^ 53"
    "j \<le> 1000" "f64_decode (ib_rate_per_sec b) = F_Fin False m e" using assms by (auto simp: bucket_holds_def)
  have "f64_dy (f64_mul (as_secs_f64 0) (ib_rate_per_sec b)) 0 j" by (rule f64_mul_zero [OF as_secs_zero b(7)])
  then have t: "f64_dy (f64_add (ib_tokens b) (f64_mul (as_secs_f64 0) (ib_rate_per_sec b))) (v + 0) j"
    by (intro f64_add_dy) (use b in auto)
  have "f64_le (ib_capacity b) (f64_add (ib_tokens b) (f64_mul (as_secs_f64 0) (ib_rate_per_sec b))) \<Longrightarrow> c = v"
    using f64_le_dy [OF b(3) t] b(4) by simp
  with b(2,3) t dy_not_nan [OF b(3)] dy_not_nan [OF t] show ?thesis by (auto simp: refill_def f64_min_def)
qed

lemma check_same_instant:
  assumes "map_of (lim_in_process rl) key = Some b" "bucket_holds now v j b" "check_in_process now key rate rl = (result, rl')"
  shows "rr_allowed result = (2 ^ j \<le> v) \<and>
    (\<exists>b'. map_of (lim_in_process rl') key = Some b' \<and> bucket_holds now (if 2 ^ j \<le> v then v - 2 ^ j else v) j b')"
proof -
  note t = refill_same_instant [OF assms(2)]
  have v: "v < 2 ^ 53" "j \<le> 1000" using assms(2) by (auto simp: bucket_holds_def)
  have a: "f64_le f64_one (refill now b) \<longleftrightarrow> 2 ^ j \<le> v" by (rule f64_le_dy [OF f64_dec t])
  have "f64_dy (if 2 ^ j \<le> v then f64_sub (refill now b) f64_one else refill now b) (if 2 ^ j \<le> v then v - 2 ^ j else v) j"
    using f64_sub_one_dy [OF t _ v] t by simp
  with assms a show ?thesis
    by (fastforce simp: check_in_process_def bucket_holds_def update_conv' Let_def intro: le_trans)
qed

lemma burst_from_bucket:
  assumes "map_of (lim_in_process rl) key = Some b" "bucket_holds now v j b"
  shows "check_burst n now key rate rl = replicate (min n (v div 2 ^ j)) True @ replicate (n - v div 2 ^ j) False"
  using assms
proof (induction n arbitrary: rl b v)
  case (Suc n)
  obtain result rl' where c: "check_in_process now key rate rl = (result, rl')" by (cases "check_in_process now key rate rl")
  note s = check_same_instant [OF Suc.prems c]
  then obtain b' where b': "map_of (lim_in_process rl') key = Some b'"
    "bucket_holds now (if 2 ^ j \<le> v then v - 2 ^ j else v) j b'" by blast
  note ih = Suc.IH [OF b']
  show ?case
  proof (cases "2 ^ j \<le> v")
    case True
    then have "v div 2 ^ j = Suc ((v - 2 ^ j) div 2 ^ j)" using le_div_geq [of "2 ^ j" v] by simp
    with True ih c s show ?thesis by simp
  next
    case False
    with ih c s show ?thesis by simp
  qed
qed simp

lemma new_bucket_holds: "bucket_holds now (2 * unat r) 1 (new_bucket now r)"
proof -
  have lt: "unat r < 2 ^ 32" using unsigned_less [of r, where ?'a = nat] by simp
  have h: "f64_dy (f64_of_ratio False 3 2) 3 1" by (rule f64_of_ratio_dy) simp_all
  have "f64_dy (f64_mul (f64_of_u32 r) (f64_of_ratio False 3 2)) (unat r * 3) (0 + 1)"
    by (rule f64_mul_dy [OF f64_of_u32_dy h]) (use lt in simp_all)
  moreover have "f64_dy (f64_of_u32 r) (unat r * 2) 1" using dy_shift [OF f64_of_u32_dy, of r 1] by simp
  moreover have "\<exists>m e. f64_decode (f64_div (f64_of_u32 r) (f64_of_int 60)) = F_Fin False m e"
  proof -
    obtain m e a b where x: "f64_decode (f64_of_u32 r) = F_Fin False m e" "f64_ratio False m e = (a, b)" "0 < b"
      "a * 2 ^ 0 = int (unat r) * int b" by (rule dyE [OF f64_of_u32_dy])
    obtain k g c d where y: "f64_decode (f64_of_int 60) = F_Fin False k g" "f64_ratio False k g = (c, d)" "0 < d"
      "c * 2 ^ 0 = int 60 * int d" using f64_of_int_dy [of 60] by (auto elim: dyE)
    have k: "k \<noteq> 0" using y(2-4) by (intro notI) (simp add: f64_ratio_def)
    have "nat a * d \<le> b * nat c * 2 ^ 60"
    proof -
      have "nat a = unat r * b" "nat c = 60 * d" using x(4) y(4) by (simp_all add: nat_mult_distrib)
      then have "nat a * d = unat r * (b * d)" "b * nat c * 2 ^ 60 = 60 * 2 ^ 60 * (b * d)" by simp_all
      moreover have "unat r * (b * d) \<le> 60 * 2 ^ 60 * (b * d)" by (rule mult_right_mono) (use lt in simp_all)
      ultimately show ?thesis by (simp only:)
    qed
    moreover have "0 < b * nat c" using x(3) y(3,4) by (simp add: zero_less_mult_iff)
    ultimately have "\<exists>m e. f64_decode (f64_round False (nat a * d) (b * nat c)) = F_Fin False m e"
      by (intro f64_round_finite)
    then show ?thesis using x(1,2) y(1,2) k by (simp add: f64_div_def f64_decode_zero)
  qed
  ultimately show ?thesis using lt by (auto simp: bucket_holds_def new_bucket_def mult.commute)
qed

text \<open>
  C32: A key that was not seen before gets exactly its rate of requests at one instant, in spite of the
  floating-point arithmetic: the first \<open>rate\<close> checks are allowed and all further ones are refused.
\<close>

theorem fresh_burst_exact:
  assumes "map_of (lim_in_process rl) key = None"
  shows "check_burst n now key rate rl = replicate (min n (unat rate)) True @ replicate (n - unat rate) False"
proof -
  define rl0 where "rl0 = rl\<lparr>lim_in_process := AList.update key (new_bucket now rate) (lim_in_process rl)\<rparr>"
  have same: "check_in_process now key rate rl = check_in_process now key rate rl0"
  proof -
    have "AList.update key x (AList.update key y xs) = AList.update key x xs" for x y and xs :: "(string \<times> in_process_bucket) list"
      by (induction xs) auto
    moreover have "map_of (AList.update key (new_bucket now rate) (lim_in_process rl)) key = Some (new_bucket now rate)"
      by (simp add: update_conv')
    ultimately show ?thesis using assms by (simp add: check_in_process_def rl0_def Let_def)
  qed
  then have "check_burst n now key rate rl = check_burst n now key rate rl0" by (cases n) simp_all
  also have "\<dots> = replicate (min n (2 * unat rate div 2 ^ 1)) True @ replicate (n - 2 * unat rate div 2 ^ 1) False"
    by (rule burst_from_bucket [OF _ new_bucket_holds]) (simp add: rl0_def update_conv')
  finally show ?thesis by simp
qed

text \<open>A check changes the bucket of its own key only.\<close>

lemma check_other_key:
  "k \<noteq> key \<Longrightarrow> map_of (lim_in_process (snd (check now env key rate rl))) k = map_of (lim_in_process rl) k"
  by (auto simp: check_def try_redis_def maybe_warn_def check_in_process_def update_conv' Let_def
      split: option.splits sum.splits)

section \<open>The middleware\<close>

lemma check_limit: "rr_limit (fst (check now env key rate rl)) = rate"
  by (auto simp: check_def try_redis_def check_in_process_def Let_def split: option.splits sum.splits)

lemma headers_kept:
  "map_of (ap_headers (append_rate_limit_headers result t r)) ''x-ratelimit-limit'' = Some (show_nat (unat (rr_limit result)))"
  "map_of (ap_headers (append_rate_limit_headers result t r)) ''x-ratelimit-remaining'' =
     Some (show_nat (unat (rr_remaining result)))"
  "ap_status (append_rate_limit_headers result t r) = ap_status r"
  "ap_body (append_rate_limit_headers result t r) = ap_body r"
  by (simp_all add: append_rate_limit_headers_def insert_header_def update_conv' Let_def)

lemma enforce_effect:
  assumes "check now env key rate (lv_limiter s) = (result, rl)" "enforce le now now_unix env key rate ev req s = (resp, s')"
  shows "lv_limiter s' = rl \<and>
    map_of (ap_headers resp) ''x-ratelimit-limit'' = Some (show_nat (unat rate)) \<and>
    (if rr_allowed result then
       (ap_status resp, ap_body resp) = (ap_status (fst (le_next le req (lv_inner s))), ap_body (fst (le_next le req (lv_inner s)))) \<and>
       lv_inner s' = snd (le_next le req (lv_inner s)) \<and> lv_audit s' = lv_audit s
     else
       lv_inner s' = lv_inner s \<and> ap_status resp = ap_status (le_error le (RateLimited (max (rr_reset_secs result) 1))) \<and>
       map_of (ap_headers resp) ''retry-after'' = Some (show_nat (max (unat (rr_reset_secs result)) 1)) \<and>
       lv_audit s' = map_option (\<lambda>a. snd (audit_log (le_mpsc le) ev a)) (lv_audit s)) \<and>
    (if rd_conn env = None then True else
       (result, rl) = check_in_process now key rate (snd (try_redis now env rate (lv_limiter s))))"
proof -
  have lim: "rr_limit result = rate" using check_limit [of now env key rate "lv_limiter s"] assms(1) by simp
  have mx: "unat (max (rr_reset_secs result) 1) = max (unat (rr_reset_secs result)) 1"
    by (simp add: max_def word_le_nat_alt)
  have fallback: "if rd_conn env = None then True else
       (result, rl) = check_in_process now key rate (snd (try_redis now env rate (lv_limiter s)))"
    using assms(1) by (auto simp: check_def try_redis_def split: if_splits option.splits)
  show ?thesis
  proof (cases "rr_allowed result")
    case True
    then show ?thesis using assms lim fallback
      by (auto simp: enforce_def run_next_def headers_kept split_beta Let_def)
  next
    case False
    then show ?thesis using assms lim mx fallback
      by (auto simp: enforce_def log_exceeded_def build_429_def headers_kept insert_header_def update_conv' Let_def)
  qed
qed


text \<open>
  With a server in the context the user's limit is not looked at: the result does not depend on it, and the
  bucket of the user stays as it was.
\<close>

theorem user_limit_skipped:
  assumes "lx_server_id ctx = Some sid"
  shows "rate_limit_middleware le (config\<lparr>lc_per_user_rate := r\<rparr>) now now_unix env (Some ctx) req s =
      rate_limit_middleware le config now now_unix env (Some ctx) req s \<and>
    map_of (lim_in_process (lv_limiter (snd (rate_limit_middleware le config now now_unix env (Some ctx) req s))))
      (''ratelimit:user:'' @ u) = map_of (lim_in_process (lv_limiter s)) (''ratelimit:user:'' @ u)"
proof -
  have k: "''ratelimit:user:'' @ u \<noteq> ''ratelimit:server:'' @ v" for v by simp
  show ?thesis
    using assms check_other_key [OF k]
    by (auto simp: rate_limit_middleware_def enforce_def run_next_def log_exceeded_def split_beta Let_def)
qed

text \<open>Warnings about Redis are at least the interval apart.\<close>

definition warnings_spaced :: "rate_limiter \<Rightarrow> bool" where
  "warnings_spaced rl \<longleftrightarrow>
     sorted_wrt (\<lambda>a b. fst a + lim_warn_interval rl \<le> fst b) (lim_warnings rl) \<and>
     (case lim_last_redis_warn rl of
        None \<Rightarrow> lim_warnings rl = []
      | Some t \<Rightarrow> \<exists>ws r. lim_warnings rl = ws @ [(t, r)])"

lemma maybe_warn_spaced:
  assumes "warnings_spaced rl" "0 < lim_warn_interval rl"
  shows "warnings_spaced (maybe_warn now reason rl)"
proof (cases "lim_last_redis_warn rl")
  case None
  with assms show ?thesis by (simp add: warnings_spaced_def maybe_warn_def)
next
  case (Some t)
  then obtain ws r where w: "lim_warnings rl = ws @ [(t, r)]" using assms(1) by (auto simp: warnings_spaced_def)
  show ?thesis
  proof (cases "lim_warn_interval rl \<le> now - t")
    case True
    then have "t + lim_warn_interval rl \<le> now" using assms(2) by linarith
    with True Some w assms(1) show ?thesis by (fastforce simp: warnings_spaced_def maybe_warn_def sorted_wrt_append)
  qed (use Some assms(1) in \<open>simp add: maybe_warn_def\<close>)
qed

section \<open>Examples\<close>

theorem fresh_burst_exact_witness:
  "check_burst 5 7 ''k'' 3 (new_in_process ''sha'') = [True, True, True, False, False]"
proof -
  have "map_of (lim_in_process (new_in_process ''sha'')) ''k'' = None" by (simp add: new_in_process_def)
  note fresh_burst_exact [OF this, of 5 7 3]
  moreover have "unat (3 :: u32) = 3" by simp
  ultimately have "check_burst 5 7 ''k'' 3 (new_in_process ''sha'') = replicate (min 5 3) True @ replicate (5 - 3) False"
    by (simp only:)
  moreover have "replicate (min 5 3) True @ replicate (5 - 3) False = [True, True, True, False, False]"
    by (simp add: numeral_eq_Suc)
  ultimately show ?thesis by (simp only:)
qed

definition sample_le :: "(unit, nat \<times> audit_event list, nat) rate_limit_ext" where
  "sample_le =
     \<lparr>le_mpsc = queue_mpsc, le_uuid_string = (\<lambda>_. ''id''),
      le_next = (\<lambda>_ n. (\<lparr>ap_status = 200, ap_headers = [], ap_body = ''ok''\<rparr>, Suc n)),
      le_error = into_response (\<lambda>_. Some ''error'') (\<lambda>_. True) ''rid''\<rparr>"

definition sample_limited :: "(nat \<times> audit_event list, audit_row list, nat) limited_service" where
  "sample_limited = \<lparr>lv_limiter = new_with_redis ''sha'', lv_audit = Some (audit_logger_new queue_mpsc []), lv_inner = 0\<rparr>"


end
