(* ===== verification/Crypto.thy ===== *)
theory Crypto
  imports Prelude
begin

text \<open>
  The encryption of stored credentials (\<open>libs/mcp-crypto/src/lib.rs\<close>): the envelope of a nonce and an
  AES-256-GCM ciphertext. The cipher and the hex decoder are third-party crates and parameters; what the
  envelope relies on is \<open>gcm_ok\<close>. Zeroing of memory is not modelled.
\<close>

datatype crypto_error = DecryptionFailed | InvalidKeyLength | EncryptionFailed | InvalidHex

type_synonym bytes = "u8 list"

text \<open>\<open>[u8; 32]\<close>: the length is part of the type in the source and of \<open>key_ok\<close> here.\<close>

datatype crypto_key = CryptoKey bytes

fun key_ok :: "crypto_key \<Rightarrow> bool" where
  "key_ok (CryptoKey k) = (length k = 32)"

definition key_from_bytes :: "bytes \<Rightarrow> crypto_key" where
  "key_from_bytes bs = CryptoKey bs"

definition key_from_hex :: "(string \<Rightarrow> bytes option) \<Rightarrow> string \<Rightarrow> crypto_error + crypto_key" where
  "key_from_hex hex_decode hex_str =
     and_then (ok_or InvalidHex (hex_decode hex_str)) (\<lambda>bs.
     and_then (if length bs = 32 then Inr bs else Inl InvalidKeyLength) (\<lambda>arr.
     Inr (CryptoKey arr)))"

record gcm_api =
  gc_encrypt :: "crypto_key \<Rightarrow> bytes \<Rightarrow> bytes \<Rightarrow> bytes option"
  gc_decrypt :: "crypto_key \<Rightarrow> bytes \<Rightarrow> bytes \<Rightarrow> bytes option"

text \<open>
  What AES-GCM documents: decryption inverts encryption under the same key and nonce, and it accepts a
  ciphertext only if it is, tag included, the encryption of the result.
\<close>

definition gcm_ok :: "gcm_api \<Rightarrow> bool" where
  "gcm_ok gc \<longleftrightarrow>
     (\<forall>k n p c. gc_encrypt gc k n p = Some c \<longrightarrow> gc_decrypt gc k n c = Some p) \<and>
     (\<forall>k n p c. gc_decrypt gc k n c = Some p \<longrightarrow> gc_encrypt gc k n p = Some c)"

text \<open>\<open>nonce_bytes\<close> are the twelve bytes from the random generator.\<close>

definition encrypt :: "gcm_api \<Rightarrow> bytes \<Rightarrow> crypto_key \<Rightarrow> bytes \<Rightarrow> crypto_error + bytes" where
  "encrypt gc nonce_bytes key plaintext =
     and_then (ok_or EncryptionFailed (gc_encrypt gc key nonce_bytes plaintext)) (\<lambda>ciphertext.
     Inr (nonce_bytes @ ciphertext))"

definition decrypt :: "gcm_api \<Rightarrow> crypto_key \<Rightarrow> bytes \<Rightarrow> crypto_error + bytes" where
  "decrypt gc key data =
     (if length data < 12 then Inl DecryptionFailed
      else let nonce_bytes = take 12 data; ciphertext = drop 12 data in
        ok_or DecryptionFailed (gc_decrypt gc key nonce_bytes ciphertext))"

lemma gcm_okD:
  "gcm_ok gc \<Longrightarrow> gc_encrypt gc k n p = Some c \<Longrightarrow> gc_decrypt gc k n c = Some p"
  "gcm_ok gc \<Longrightarrow> gc_decrypt gc k n c = Some p \<Longrightarrow> gc_encrypt gc k n p = Some c"
  unfolding gcm_ok_def by blast+

lemma decrypt_encrypt:
  assumes "gcm_ok gc" "length nonce = 12" "encrypt gc nonce key p = Inr data"
  shows "decrypt gc key data = Inr p"
  using assms(2,3) by (auto simp: encrypt_def decrypt_def and_then_eq_Inr ok_or_eq_Inr dest: gcm_okD [OF assms(1)])

text \<open>
  C34: Stored credentials come back exactly: data decrypts to a plaintext if and only if it is what \<open>encrypt\<close>
  produced from that plaintext under the same key with some nonce of twelve bytes; everything else, shorter or tampered data
  included, is refused with \<open>DecryptionFailed\<close>. A key read from hex has 32 bytes.
\<close>

theorem crypto_roundtrip:
  assumes "gcm_ok gc"
  shows "(decrypt gc key data = Inr p \<longleftrightarrow> (\<exists>nonce. length nonce = 12 \<and> encrypt gc nonce key p = Inr data)) \<and>
    (decrypt gc key data = Inl e \<longrightarrow> e = DecryptionFailed \<and> (\<forall>nonce p. length nonce = 12 \<longrightarrow> encrypt gc nonce key p \<noteq> Inr data)) \<and>
    (\<forall>k. key_from_hex hex_decode s = Inr k \<longrightarrow> key_ok k)"
proof (intro conjI allI impI)
  show "decrypt gc key data = Inr p \<longleftrightarrow> (\<exists>nonce. length nonce = 12 \<and> encrypt gc nonce key p = Inr data)"
  proof
    assume d: "decrypt gc key data = Inr p"
    then have l: "length (take 12 data) = 12" "gc_decrypt gc key (take 12 data) (drop 12 data) = Some p"
      by (auto simp: decrypt_def ok_or_eq_Inr Let_def split: if_splits)
    then have "gc_encrypt gc key (take 12 data) p = Some (drop 12 data)" using gcm_okD(2) [OF assms] by blast
    then have "encrypt gc (take 12 data) key p = Inr data" by (simp add: encrypt_def)
    with l(1) show "\<exists>nonce. length nonce = 12 \<and> encrypt gc nonce key p = Inr data" by blast
  qed (use decrypt_encrypt [OF assms] in blast)
  show "e = DecryptionFailed" if "decrypt gc key data = Inl e"
    using that by (auto simp: decrypt_def ok_or_def Let_def split: if_splits option.splits)
  show "encrypt gc nonce key q \<noteq> Inr data" if "decrypt gc key data = Inl e" "length nonce = 12" for nonce q
    using that decrypt_encrypt [OF assms] by fastforce
  show "key_ok k" if "key_from_hex hex_decode s = Inr k" for k
    using that by (auto simp: key_from_hex_def and_then_eq_Inr split: if_splits)
qed

section \<open>Examples\<close>

text \<open>A cipher with the required laws: the nonce and the key as the tag.\<close>

definition tag_gcm :: gcm_api where
  "tag_gcm =
     \<lparr>gc_encrypt = (\<lambda>key n p. case key of CryptoKey k \<Rightarrow> Some (k @ n @ p)),
      gc_decrypt = (\<lambda>key n c. case key of CryptoKey k \<Rightarrow>
        if take (length k + length n) c = k @ n then Some (drop (length k + length n) c) else None)\<rparr>"

lemma tag_gcm_ok: "gcm_ok tag_gcm"
proof -
  have "c = k @ n @ drop (length k + length n) c" if "take (length k + length n) c = k @ n" for k n c :: bytes
    using that append_take_drop_id [of "length k + length n" c] by (metis append_assoc)
  then show ?thesis by (auto simp: gcm_ok_def tag_gcm_def split: crypto_key.split if_splits)
qed

definition sample_key :: crypto_key where
  "sample_key = CryptoKey (replicate 32 7)"

theorem crypto_roundtrip_witness:
  "decrypt tag_gcm sample_key (replicate 12 1 @ replicate 32 7 @ replicate 12 1 @ [42]) = Inr [42]"
proof -
  have e: "encrypt tag_gcm (replicate 12 1) sample_key [42] = Inr (replicate 12 1 @ replicate 32 7 @ replicate 12 1 @ [42])"
    by (simp add: encrypt_def tag_gcm_def sample_key_def)
  have "length (replicate 12 (1 :: u8)) = 12" by simp
  with e crypto_roundtrip [OF tag_gcm_ok, where key = sample_key and p = "[42]"
      and data = "replicate 12 1 @ replicate 32 7 @ replicate 12 1 @ [42]"] show ?thesis by blast
qed

end
