(* ===== verification/Api_Tables.thy ===== *)
theory Api_Tables
  imports App_Error Audit_Log Crypto
begin

text \<open>
  The tables of the platform API: their rows and constraints as \<open>migrations/\<close> declare them, the SQL
  statements of \<open>services/api\<close> as functions on them, and what every statement keeps: the constraints
  of the schema and the rows of other users.

  A statement gets what PostgreSQL supplies as an argument: an error of the connection or the server (then it
  has no effect), the value of \<open>gen_random_uuid()\<close> and of \<open>NOW()\<close>. Columns have the types of the
  schema, so decoding a column does not fail. The triggers on \<open>mcp_servers\<close> are part of the statements:
  they count \<open>config_version\<close> up and send a notification.
\<close>

section \<open>Rows\<close>

record user_row =
  us_id :: uuid
  us_clerk_id :: string
  us_email :: string
  us_created_at :: int
  us_updated_at :: int

record server_row =
  sv_id :: uuid
  sv_user_id :: uuid
  sv_name :: string
  sv_slug :: string
  sv_description :: "string option"
  sv_config_json :: json
  sv_status :: string
  sv_created_at :: int
  sv_updated_at :: int
  sv_config_version :: int

record credential_entry =
  ce_id :: uuid
  ce_server_id :: uuid
  ce_auth_type :: string
  ce_key_name :: "string option"
  ce_encrypted_payload :: bytes
  ce_iv :: bytes
  ce_hint :: "string option"
  ce_created_at :: int

record token_entry =
  tk_id :: uuid
  tk_server_id :: uuid
  tk_token_hash :: string
  tk_description :: "string option"
  tk_hint :: "string option"
  tk_is_active :: bool
  tk_created_at :: int
  tk_revoked_at :: "int option"

text \<open>The notifications of the trigger \<open>notify_mcp_server_changes\<close> and of a credential rotation.\<close>

datatype notice = Server_Changed uuid string int | Credential_Updated string

record api_db =
  t_users :: "user_row list"
  t_servers :: "server_row list"
  t_credentials :: "credential_entry list"
  t_tokens :: "token_entry list"
  t_notices :: "notice list"

definition AUTH_TYPES :: "string list" where
  "AUTH_TYPES = [''bearer'', ''api_key_header'', ''api_key_query'', ''basic'']"

section \<open>Statements\<close>

text \<open>\<open>sqlx::Error\<close>: an error of the database with the violated constraint, or another one.\<close>

datatype sql_error = Sql_Database "string option" string | Sql_Other string

fun sql_text :: "sql_error \<Rightarrow> string" where
  "sql_text (Sql_Database _ m) = m"
| "sql_text (Sql_Other m) = m"

record stmt =
  sm_error :: "string option"
  sm_uuid :: uuid
  sm_now :: int

definition run_stmt :: "stmt \<Rightarrow> (api_db \<Rightarrow> (sql_error + 'a) \<times> api_db) \<Rightarrow> api_db \<Rightarrow> (sql_error + 'a) \<times> api_db" where
  "run_stmt x f db = (case sm_error x of Some e \<Rightarrow> (Inl (Sql_Other e), db) | None \<Rightarrow> f db)"

definition violation :: "string \<Rightarrow> sql_error" where
  "violation c = Sql_Database (Some c) (''violates constraint '' @ c)"

subsection \<open>Servers\<close>

definition insert_server ::
  "stmt \<Rightarrow> uuid \<Rightarrow> string \<Rightarrow> string \<Rightarrow> string option \<Rightarrow> json \<Rightarrow> api_db \<Rightarrow> (sql_error + server_row) \<times> api_db" where
  "insert_server x user_id name slug description config_json = run_stmt x (\<lambda>db.
     if sm_uuid x \<in> sv_id ` set (t_servers db) then (Inl (violation ''mcp_servers_pkey''), db)
     else if (user_id, slug) \<in> (\<lambda>s. (sv_user_id s, sv_slug s)) ` set (t_servers db) then
       (Inl (violation ''mcp_servers_user_id_slug_key''), db)
     else if user_id \<notin> us_id ` set (t_users db) then (Inl (violation ''mcp_servers_user_id_fkey''), db)
     else
       let row = \<lparr>sv_id = sm_uuid x, sv_user_id = user_id, sv_name = name, sv_slug = slug, sv_description = description,
             sv_config_json = config_json, sv_status = ''active'', sv_created_at = sm_now x, sv_updated_at = sm_now x,
             sv_config_version = 1\<rparr>
       in (Inr row, db\<lparr>t_servers := t_servers db @ [row],
             t_notices := t_notices db @ [Server_Changed (sm_uuid x) ''insert'' 1]\<rparr>))"

definition owned_by :: "uuid \<Rightarrow> uuid \<Rightarrow> server_row \<Rightarrow> bool" where
  "owned_by user_id server_id s \<longleftrightarrow> sv_id s = server_id \<and> sv_user_id s = user_id"

definition select_server :: "stmt \<Rightarrow> uuid \<Rightarrow> uuid \<Rightarrow> api_db \<Rightarrow> sql_error + server_row option" where
  "select_server x server_id user_id db = fst (run_stmt x (\<lambda>db. (Inr (find (owned_by user_id server_id) (t_servers db)), db)) db)"

definition updated_server :: "int \<Rightarrow> string \<Rightarrow> string option \<Rightarrow> json \<Rightarrow> string \<Rightarrow> server_row \<Rightarrow> server_row" where
  "updated_server now name description config_json status s =
     s\<lparr>sv_name := name, sv_description := description, sv_config_json := config_json, sv_status := status,
       sv_updated_at := now, sv_config_version := sv_config_version s + 1\<rparr>"

definition update_server_stmt ::
  "stmt \<Rightarrow> string \<Rightarrow> string option \<Rightarrow> json \<Rightarrow> string \<Rightarrow> uuid \<Rightarrow> uuid \<Rightarrow> api_db \<Rightarrow> (sql_error + server_row) \<times> api_db" where
  "update_server_stmt x name description config_json status server_id user_id = run_stmt x (\<lambda>db.
     case find (owned_by user_id server_id) (t_servers db) of
       None \<Rightarrow> (Inl (Sql_Other ''no rows returned by a query that expected to return at least one row''), db)
     | Some s \<Rightarrow>
         let row = updated_server (sm_now x) name description config_json status s in
         (Inr row, db\<lparr>t_servers := map (\<lambda>t. if owned_by user_id server_id t
              then updated_server (sm_now x) name description config_json status t else t) (t_servers db),
            t_notices := t_notices db @ [Server_Changed server_id ''update'' (sv_config_version row)]\<rparr>))"

text \<open>A deleted server takes its credentials and tokens with it.\<close>

definition drop_servers :: "(server_row \<Rightarrow> bool) \<Rightarrow> api_db \<Rightarrow> api_db" where
  "drop_servers P db =
     (let gone = filter P (t_servers db) in
      db\<lparr>t_servers := filter (\<lambda>s. \<not> P s) (t_servers db),
         t_credentials := filter (\<lambda>c. ce_server_id c \<notin> sv_id ` set gone) (t_credentials db),
         t_tokens := filter (\<lambda>t. tk_server_id t \<notin> sv_id ` set gone) (t_tokens db),
         t_notices := t_notices db @ map (\<lambda>s. Server_Changed (sv_id s) ''delete'' (sv_config_version s)) gone\<rparr>)"

definition delete_server_stmt :: "stmt \<Rightarrow> uuid \<Rightarrow> uuid \<Rightarrow> api_db \<Rightarrow> (sql_error + nat) \<times> api_db" where
  "delete_server_stmt x server_id user_id = run_stmt x (\<lambda>db.
     (Inr (count_if (owned_by user_id server_id) (t_servers db)), drop_servers (owned_by user_id server_id) db))"

text \<open>\<open>SELECT COUNT(*)\<close>, and the page queries: newest first, ties by descending id.\<close>

definition newest_key :: "server_row \<Rightarrow> int \<times> nat" where
  "newest_key s = (sv_created_at s, unat (sv_id s))"

definition key_before :: "int \<times> nat \<Rightarrow> int \<times> nat \<Rightarrow> bool" where
  "key_before a b \<longleftrightarrow> fst a < fst b \<or> fst a = fst b \<and> snd a < snd b"

fun insert_newest :: "server_row \<Rightarrow> server_row list \<Rightarrow> server_row list" where
  "insert_newest s [] = [s]"
| "insert_newest s (t # ts) = (if key_before (newest_key s) (newest_key t) then t # insert_newest s ts else s # t # ts)"

definition newest_first :: "server_row list \<Rightarrow> server_row list" where
  "newest_first rows = foldr insert_newest rows []"

definition servers_of :: "uuid \<Rightarrow> api_db \<Rightarrow> server_row list" where
  "servers_of user_id db = filter (\<lambda>s. sv_user_id s = user_id) (t_servers db)"

definition count_servers :: "stmt \<Rightarrow> uuid \<Rightarrow> api_db \<Rightarrow> sql_error + nat" where
  "count_servers x user_id db = fst (run_stmt x (\<lambda>db. (Inr (length (servers_of user_id db)), db)) db)"

definition select_page :: "stmt \<Rightarrow> uuid \<Rightarrow> nat \<Rightarrow> api_db \<Rightarrow> sql_error + server_row list" where
  "select_page x user_id fetch_limit db =
     fst (run_stmt x (\<lambda>db. (Inr (take fetch_limit (newest_first (servers_of user_id db))), db)) db)"

definition select_page_after :: "stmt \<Rightarrow> uuid \<Rightarrow> int \<Rightarrow> uuid \<Rightarrow> nat \<Rightarrow> api_db \<Rightarrow> sql_error + server_row list" where
  "select_page_after x user_id created_at after_id fetch_limit db =
     fst (run_stmt x (\<lambda>db. (Inr (take fetch_limit (newest_first (filter
       (\<lambda>s. sv_created_at s < created_at \<or> sv_created_at s = created_at \<and> sv_id s < after_id) (servers_of user_id db)))), db)) db)"

subsection \<open>Credentials\<close>

definition insert_credential ::
  "stmt \<Rightarrow> uuid \<Rightarrow> string \<Rightarrow> string option \<Rightarrow> bytes \<Rightarrow> bytes \<Rightarrow> string \<Rightarrow> api_db \<Rightarrow> (sql_error + credential_entry) \<times> api_db" where
  "insert_credential x server_id auth_type key_name payload iv hint = run_stmt x (\<lambda>db.
     if auth_type \<notin> set AUTH_TYPES then (Inl (violation ''credentials_auth_type_check''), db)
     else if sm_uuid x \<in> ce_id ` set (t_credentials db) then (Inl (violation ''credentials_pkey''), db)
     else if server_id \<notin> sv_id ` set (t_servers db) then (Inl (violation ''credentials_server_id_fkey''), db)
     else
       let row = \<lparr>ce_id = sm_uuid x, ce_server_id = server_id, ce_auth_type = auth_type, ce_key_name = key_name,
             ce_encrypted_payload = payload, ce_iv = iv, ce_hint = Some hint, ce_created_at = sm_now x\<rparr>
       in (Inr row, db\<lparr>t_credentials := t_credentials db @ [row]\<rparr>))"

definition select_credential_server :: "stmt \<Rightarrow> uuid \<Rightarrow> api_db \<Rightarrow> sql_error + uuid option" where
  "select_credential_server x credential_id db =
     fst (run_stmt x (\<lambda>db. (Inr (map_option ce_server_id (find (\<lambda>c. ce_id c = credential_id) (t_credentials db))), db)) db)"

definition update_credential :: "stmt \<Rightarrow> uuid \<Rightarrow> bytes \<Rightarrow> bytes \<Rightarrow> api_db \<Rightarrow> (sql_error + credential_entry) \<times> api_db" where
  "update_credential x credential_id payload iv = run_stmt x (\<lambda>db.
     case find (\<lambda>c. ce_id c = credential_id) (t_credentials db) of
       None \<Rightarrow> (Inl (Sql_Other ''no rows returned by a query that expected to return at least one row''), db)
     | Some c \<Rightarrow>
         (Inr (c\<lparr>ce_encrypted_payload := payload, ce_iv := iv\<rparr>),
          db\<lparr>t_credentials := map (\<lambda>d. if ce_id d = credential_id
             then d\<lparr>ce_encrypted_payload := payload, ce_iv := iv\<rparr> else d) (t_credentials db)\<rparr>))"

definition delete_credential :: "stmt \<Rightarrow> uuid \<Rightarrow> api_db \<Rightarrow> (sql_error + unit) \<times> api_db" where
  "delete_credential x credential_id = run_stmt x (\<lambda>db.
     (Inr (), db\<lparr>t_credentials := filter (\<lambda>c. ce_id c \<noteq> credential_id) (t_credentials db)\<rparr>))"

definition notify_credential :: "stmt \<Rightarrow> string \<Rightarrow> api_db \<Rightarrow> (sql_error + unit) \<times> api_db" where
  "notify_credential x payload = run_stmt x (\<lambda>db. (Inr (), db\<lparr>t_notices := t_notices db @ [Credential_Updated payload]\<rparr>))"

text \<open>\<open>ORDER BY created_at DESC\<close>: rows with equal times stay in the order of the table.\<close>

definition by_created :: "('a \<Rightarrow> int) \<Rightarrow> 'a list \<Rightarrow> 'a list" where
  "by_created created rows = sort_key (\<lambda>r. - created r) rows"

definition select_credentials :: "stmt \<Rightarrow> uuid \<Rightarrow> api_db \<Rightarrow> sql_error + credential_entry list" where
  "select_credentials x server_id db =
     fst (run_stmt x (\<lambda>db. (Inr (by_created ce_created_at (filter (\<lambda>c. ce_server_id c = server_id) (t_credentials db))), db)) db)"

subsection \<open>Tokens\<close>

definition insert_token ::
  "stmt \<Rightarrow> uuid \<Rightarrow> string \<Rightarrow> string option \<Rightarrow> string \<Rightarrow> api_db \<Rightarrow> (sql_error + token_entry) \<times> api_db" where
  "insert_token x server_id token_hash description hint = run_stmt x (\<lambda>db.
     if sm_uuid x \<in> tk_id ` set (t_tokens db) then (Inl (violation ''server_tokens_pkey''), db)
     else if token_hash \<in> tk_token_hash ` set (t_tokens db) then (Inl (violation ''server_tokens_token_hash_key''), db)
     else if server_id \<notin> sv_id ` set (t_servers db) then (Inl (violation ''server_tokens_server_id_fkey''), db)
     else
       let row = \<lparr>tk_id = sm_uuid x, tk_server_id = server_id, tk_token_hash = token_hash, tk_description = description,
             tk_hint = Some hint, tk_is_active = True, tk_created_at = sm_now x, tk_revoked_at = None\<rparr>
       in (Inr row, db\<lparr>t_tokens := t_tokens db @ [row]\<rparr>))"

definition select_token_server :: "stmt \<Rightarrow> uuid \<Rightarrow> api_db \<Rightarrow> sql_error + uuid option" where
  "select_token_server x token_id db =
     fst (run_stmt x (\<lambda>db. (Inr (map_option tk_server_id (find (\<lambda>t. tk_id t = token_id) (t_tokens db))), db)) db)"

definition revoke_token_stmt :: "stmt \<Rightarrow> uuid \<Rightarrow> api_db \<Rightarrow> (sql_error + unit) \<times> api_db" where
  "revoke_token_stmt x token_id = run_stmt x (\<lambda>db.
     (Inr (), db\<lparr>t_tokens := map (\<lambda>t. if tk_id t = token_id
        then t\<lparr>tk_is_active := False, tk_revoked_at := Some (sm_now x)\<rparr> else t) (t_tokens db)\<rparr>))"

definition select_tokens :: "stmt \<Rightarrow> uuid \<Rightarrow> api_db \<Rightarrow> sql_error + token_entry list" where
  "select_tokens x server_id db =
     fst (run_stmt x (\<lambda>db. (Inr (by_created tk_created_at (filter (\<lambda>t. tk_server_id t = server_id) (t_tokens db))), db)) db)"

subsection \<open>Users\<close>

definition upsert_user_stmt :: "stmt \<Rightarrow> string \<Rightarrow> string \<Rightarrow> api_db \<Rightarrow> (sql_error + uuid \<times> string) \<times> api_db" where
  "upsert_user_stmt x clerk_id email = run_stmt x (\<lambda>db.
     if \<exists>u \<in> set (t_users db). us_email u = email \<and> us_clerk_id u \<noteq> clerk_id then (Inl (violation ''users_email_key''), db)
     else case find (\<lambda>u. us_clerk_id u = clerk_id) (t_users db) of
       Some u \<Rightarrow>
         (Inr (us_id u, email), db\<lparr>t_users := map (\<lambda>v. if us_clerk_id v = clerk_id
            then v\<lparr>us_email := email, us_updated_at := sm_now x\<rparr> else v) (t_users db)\<rparr>)
     | None \<Rightarrow>
         if sm_uuid x \<in> us_id ` set (t_users db) then (Inl (violation ''users_pkey''), db)
         else (Inr (sm_uuid x, email), db\<lparr>t_users := t_users db @
           [\<lparr>us_id = sm_uuid x, us_clerk_id = clerk_id, us_email = email, us_created_at = sm_now x, us_updated_at = sm_now x\<rparr>]\<rparr>))"

text \<open>A deleted user takes the servers along, which take theirs.\<close>

definition delete_user_stmt :: "stmt \<Rightarrow> string \<Rightarrow> api_db \<Rightarrow> (sql_error + nat) \<times> api_db" where
  "delete_user_stmt x clerk_id = run_stmt x (\<lambda>db.
     let gone = filter (\<lambda>u. us_clerk_id u = clerk_id) (t_users db) in
     (Inr (length gone),
      drop_servers (\<lambda>s. sv_user_id s \<in> us_id ` set gone) (db\<lparr>t_users := filter (\<lambda>u. us_clerk_id u \<noteq> clerk_id) (t_users db)\<rparr>)))"

definition select_user_created :: "stmt \<Rightarrow> uuid \<Rightarrow> api_db \<Rightarrow> sql_error + int" where
  "select_user_created x user_id db =
     fst (run_stmt x (\<lambda>db. (case find (\<lambda>u. us_id u = user_id) (t_users db) of
        Some u \<Rightarrow> Inr (us_created_at u)
      | None \<Rightarrow> Inl (Sql_Other ''no rows returned by a query that expected to return at least one row''), db)) db)"

section \<open>The constraints of the schema\<close>

definition users_ok :: "user_row list \<Rightarrow> bool" where
  "users_ok us \<longleftrightarrow> distinct (map us_id us) \<and> distinct (map us_clerk_id us) \<and> distinct (map us_email us)"

definition servers_ok :: "user_row list \<Rightarrow> server_row list \<Rightarrow> bool" where
  "servers_ok us ss \<longleftrightarrow> distinct (map sv_id ss) \<and> distinct (map (\<lambda>s. (sv_user_id s, sv_slug s)) ss) \<and>
     sv_user_id ` set ss \<subseteq> us_id ` set us"

definition credentials_ok :: "server_row list \<Rightarrow> credential_entry list \<Rightarrow> bool" where
  "credentials_ok ss cs \<longleftrightarrow> distinct (map ce_id cs) \<and> ce_server_id ` set cs \<subseteq> sv_id ` set ss \<and>
     ce_auth_type ` set cs \<subseteq> set AUTH_TYPES"

definition tokens_ok :: "server_row list \<Rightarrow> token_entry list \<Rightarrow> bool" where
  "tokens_ok ss ts \<longleftrightarrow> distinct (map tk_id ts) \<and> distinct (map tk_token_hash ts) \<and> tk_server_id ` set ts \<subseteq> sv_id ` set ss"

definition db_ok :: "api_db \<Rightarrow> bool" where
  "db_ok db \<longleftrightarrow> users_ok (t_users db) \<and> servers_ok (t_users db) (t_servers db) \<and>
     credentials_ok (t_servers db) (t_credentials db) \<and> tokens_ok (t_servers db) (t_tokens db)"

named_theorems stmt_defs \<open>the statements that change a table\<close>

lemmas stmt_def_list [stmt_defs] = insert_server_def update_server_stmt_def delete_server_stmt_def insert_credential_def
  update_credential_def delete_credential_def notify_credential_def insert_token_def revoke_token_stmt_def
  upsert_user_stmt_def delete_user_stmt_def run_stmt_def

lemma map_update_cols: "(\<And>x. f (g x) = f x) \<Longrightarrow> map f (map (\<lambda>x. if P x then g x else x) xs) = map f xs"
  by (induction xs) auto

lemma distinct_map_filter_sub: "distinct (map f xs) \<Longrightarrow> distinct (map f (filter P xs))"
  by (induction xs) auto

lemma image_update_cols:
  assumes "\<And>x. f (g x) = f x"
  shows "f ` set (map (\<lambda>x. if P x then g x else x) xs) = f ` set xs"
proof -
  have "set (map f (map (\<lambda>x. if P x then g x else x) xs)) = set (map f xs)" by (simp only: map_update_cols [of f g, OF assms])
  then show ?thesis by (simp only: list.set_map)
qed

lemma servers_same_cols:
  assumes "db_ok db" "map (\<lambda>s. (sv_id s, sv_user_id s, sv_slug s)) ss = map (\<lambda>s. (sv_id s, sv_user_id s, sv_slug s)) (t_servers db)"
  shows "db_ok (db\<lparr>t_servers := ss, t_notices := ns\<rparr>)"
proof -
  have m: "map (f \<circ> (\<lambda>s. (sv_id s, sv_user_id s, sv_slug s))) ss = map (f \<circ> (\<lambda>s. (sv_id s, sv_user_id s, sv_slug s))) (t_servers db)"
    for f :: "uuid \<times> uuid \<times> string \<Rightarrow> 'a" using arg_cong [OF assms(2), of "map f"] by simp
  have cols: "map sv_id ss = map sv_id (t_servers db)" "map sv_user_id ss = map sv_user_id (t_servers db)"
    "map (\<lambda>s. (sv_user_id s, sv_slug s)) ss = map (\<lambda>s. (sv_user_id s, sv_slug s)) (t_servers db)"
    using m [of fst] m [of "\<lambda>(i, u, sl). u"] m [of snd] by (simp_all add: comp_def)
  have "sv_id ` set ss = sv_id ` set (t_servers db)" "sv_user_id ` set ss = sv_user_id ` set (t_servers db)"
    using arg_cong [OF cols(1), of set] arg_cong [OF cols(2), of set] by (simp_all only: list.set_map)
  with cols assms(1) show ?thesis by (simp add: db_ok_def servers_ok_def credentials_ok_def tokens_ok_def)
qed

lemma updated_server_cols [simp]:
  "sv_id (updated_server n a b c d s) = sv_id s" "sv_user_id (updated_server n a b c d s) = sv_user_id s"
  "sv_slug (updated_server n a b c d s) = sv_slug s" "sv_created_at (updated_server n a b c d s) = sv_created_at s"
  by (simp_all add: updated_server_def)

lemma drop_servers_ok:
  assumes "db_ok (db\<lparr>t_users := us\<rparr>)" "users_ok us'" "sv_user_id ` set (filter (\<lambda>s. \<not> P s) (t_servers db)) \<subseteq> us_id ` set us'"
  shows "db_ok (drop_servers P (db\<lparr>t_users := us'\<rparr>))"
proof -
  have d: "distinct (map sv_id (t_servers db))" using assms(1) by (simp add: db_ok_def servers_ok_def)
  have keep: "k \<in> sv_id ` set (filter (\<lambda>s. \<not> P s) (t_servers db))"
    if "k \<in> sv_id ` set (t_servers db)" "k \<notin> sv_id ` set (filter P (t_servers db))" for k
    using that by auto
  have "servers_ok us' (filter (\<lambda>s. \<not> P s) (t_servers db))"
    using assms by (simp add: db_ok_def servers_ok_def distinct_map_filter_sub)
  moreover have "credentials_ok (filter (\<lambda>s. \<not> P s) (t_servers db))
      (filter (\<lambda>c. ce_server_id c \<notin> sv_id ` set (filter P (t_servers db))) (t_credentials db))"
    using assms(1) keep by (auto simp: db_ok_def credentials_ok_def distinct_map_filter_sub)
  moreover have "tokens_ok (filter (\<lambda>s. \<not> P s) (t_servers db))
      (filter (\<lambda>c. tk_server_id c \<notin> sv_id ` set (filter P (t_servers db))) (t_tokens db))"
    using assms(1) keep by (auto simp: db_ok_def tokens_ok_def distinct_map_filter_sub)
  ultimately show ?thesis using assms(2) by (simp add: db_ok_def drop_servers_def Let_def)
qed

lemma insert_server_ok: "db_ok db \<Longrightarrow> db_ok (snd (insert_server x u n sl d c db))"
  by (auto simp: stmt_defs db_ok_def servers_ok_def credentials_ok_def tokens_ok_def Let_def image_iff split: option.split)

lemma update_server_stmt_ok:
  assumes "db_ok db"
  shows "db_ok (snd (update_server_stmt x n d c st sid u db))"
proof -
  have "map (\<lambda>s. (sv_id s, sv_user_id s, sv_slug s))
      (map (\<lambda>t. if owned_by u sid t then updated_server (sm_now x) n d c st t else t) (t_servers db)) =
      map (\<lambda>s. (sv_id s, sv_user_id s, sv_slug s)) (t_servers db)"
    by (rule map_update_cols) simp
  from servers_same_cols [OF assms this] assms show ?thesis
    by (simp add: stmt_defs Let_def split: option.split)
qed

lemma delete_server_stmt_ok: "db_ok db \<Longrightarrow> db_ok (snd (delete_server_stmt x sid u db))"
  using drop_servers_ok [where db = db and us = "t_users db" and us' = "t_users db" and P = "owned_by u sid"]
  by (auto simp: stmt_defs db_ok_def servers_ok_def split: option.split)

lemma credential_stmts_ok:
  "db_ok db \<Longrightarrow> db_ok (snd (insert_credential x sid a k p iv h db))"
  "db_ok db \<Longrightarrow> db_ok (snd (update_credential x cid p iv db))"
  "db_ok db \<Longrightarrow> db_ok (snd (delete_credential x cid db))"
  "db_ok db \<Longrightarrow> db_ok (snd (notify_credential x t db))"
proof -
  show "db_ok (snd (insert_credential x sid a k p iv h db))" if "db_ok db"
    using that by (auto simp: stmt_defs db_ok_def credentials_ok_def Let_def split: option.split)
  show "db_ok (snd (update_credential x cid p iv db))" if "db_ok db"
    using that by (auto simp: stmt_defs db_ok_def credentials_ok_def map_update_cols image_update_cols
        simp del: map_map split: option.split)
  show "db_ok (snd (delete_credential x cid db))" if "db_ok db"
    using that by (auto simp: stmt_defs db_ok_def credentials_ok_def distinct_map_filter_sub split: option.split)
  show "db_ok (snd (notify_credential x t db))" if "db_ok db"
    using that by (auto simp: stmt_defs db_ok_def split: option.split)
qed

lemma token_stmts_ok:
  "db_ok db \<Longrightarrow> db_ok (snd (insert_token x sid hash d h db))"
  "db_ok db \<Longrightarrow> db_ok (snd (revoke_token_stmt x tid db))"
proof -
  show "db_ok (snd (insert_token x sid hash d h db))" if "db_ok db"
    using that by (auto simp: stmt_defs db_ok_def tokens_ok_def Let_def split: option.split)
  show "db_ok (snd (revoke_token_stmt x tid db))" if "db_ok db"
    using that by (auto simp: stmt_defs db_ok_def tokens_ok_def map_update_cols image_update_cols
        simp del: map_map split: option.split)
qed

lemma delete_user_stmt_ok:
  assumes "db_ok db"
  shows "db_ok (snd (delete_user_stmt x clerk db))"
proof -
  let ?gone = "filter (\<lambda>u. us_clerk_id u = clerk) (t_users db)"
  have "users_ok (filter (\<lambda>u. us_clerk_id u \<noteq> clerk) (t_users db))"
    using assms by (simp add: db_ok_def users_ok_def distinct_map_filter_sub)
  moreover have "sv_user_id ` set (filter (\<lambda>s. \<not> sv_user_id s \<in> us_id ` set ?gone) (t_servers db)) \<subseteq>
      us_id ` set (filter (\<lambda>u. us_clerk_id u \<noteq> clerk) (t_users db))"
  proof
    fix k assume "k \<in> sv_user_id ` set (filter (\<lambda>s. \<not> sv_user_id s \<in> us_id ` set ?gone) (t_servers db))"
    then have k: "k \<in> sv_user_id ` set (t_servers db)" "k \<notin> us_id ` set ?gone" by auto
    then obtain v where "v \<in> set (t_users db)" "k = us_id v"
      using assms by (auto simp: db_ok_def servers_ok_def)
    with k(2) show "k \<in> us_id ` set (filter (\<lambda>u. us_clerk_id u \<noteq> clerk) (t_users db))" by auto
  qed
  ultimately show ?thesis
    using drop_servers_ok [where db = db and us = "t_users db"] assms by (auto simp: stmt_defs Let_def split: option.split)
qed

lemma distinct_map_update:
  assumes "distinct (map f xs)" "distinct (map k xs)" "\<And>x. k (g x) = k x"
    and "\<And>x. x \<in> set xs \<Longrightarrow> k x \<noteq> c \<Longrightarrow> f x \<noteq> e" "\<And>x. f (g x) = e"
  shows "distinct (map f (map (\<lambda>x. if k x = c then g x else x) xs))"
  using assms by (induction xs) (auto simp: image_iff)

lemma upsert_user_ok:
  assumes "db_ok db"
  shows "db_ok (snd (upsert_user_stmt x clerk email db))"
proof (cases "sm_error x = None \<and> \<not> (\<exists>u \<in> set (t_users db). us_email u = email \<and> us_clerk_id u \<noteq> clerk)")
  case True
  let ?upd = "map (\<lambda>v. if us_clerk_id v = clerk then v\<lparr>us_email := email, us_updated_at := sm_now x\<rparr> else v) (t_users db)"
  have "users_ok ?upd"
    using assms True distinct_map_update [of us_email "t_users db" us_clerk_id
        "\<lambda>v. v\<lparr>us_email := email, us_updated_at := sm_now x\<rparr>" clerk email]
    by (auto simp: db_ok_def users_ok_def map_update_cols simp del: map_map)
  moreover have "us_id ` set ?upd = us_id ` set (t_users db)" by (rule image_update_cols) simp
  ultimately show ?thesis
    using assms True
    by (auto simp: stmt_defs db_ok_def servers_ok_def users_ok_def find_None_iff split: option.split)
next
  case False
  then show ?thesis using assms by (auto simp: stmt_defs split: option.split)
qed

section \<open>The rows of other users\<close>

definition foreign_servers :: "uuid \<Rightarrow> api_db \<Rightarrow> server_row list" where
  "foreign_servers u db = filter (\<lambda>s. sv_user_id s \<noteq> u) (t_servers db)"

definition foreign_credentials :: "uuid \<Rightarrow> api_db \<Rightarrow> credential_entry list" where
  "foreign_credentials u db = filter (\<lambda>c. ce_server_id c \<in> sv_id ` set (foreign_servers u db)) (t_credentials db)"

definition foreign_tokens :: "uuid \<Rightarrow> api_db \<Rightarrow> token_entry list" where
  "foreign_tokens u db = filter (\<lambda>t. tk_server_id t \<in> sv_id ` set (foreign_servers u db)) (t_tokens db)"

definition others_kept :: "uuid \<Rightarrow> api_db \<Rightarrow> api_db \<Rightarrow> bool" where
  "others_kept u db db' \<longleftrightarrow> t_users db' = t_users db \<and> foreign_servers u db' = foreign_servers u db \<and>
     foreign_credentials u db' = foreign_credentials u db \<and> foreign_tokens u db' = foreign_tokens u db"

lemma others_kept_refl [simp]: "others_kept u db db"
  by (simp add: others_kept_def)

lemma others_kept_same:
  assumes "t_users db' = t_users db" "foreign_servers u db' = foreign_servers u db"
    and "t_credentials db' = t_credentials db" "t_tokens db' = t_tokens db"
  shows "others_kept u db db'"
  using assms by (simp add: others_kept_def foreign_credentials_def foreign_tokens_def)

lemma others_kept_trans: "others_kept u a b \<Longrightarrow> others_kept u b c \<Longrightarrow> others_kept u a c"
  by (simp add: others_kept_def)

lemma own_not_foreign:
  assumes "db_ok db" "s \<in> set (t_servers db)" "sv_user_id s = u"
  shows "sv_id s \<notin> sv_id ` set (foreign_servers u db)"
proof
  assume "sv_id s \<in> sv_id ` set (foreign_servers u db)"
  then obtain t where "t \<in> set (t_servers db)" "sv_user_id t \<noteq> u" "sv_id t = sv_id s" by (auto simp: foreign_servers_def)
  moreover have "inj_on sv_id (set (t_servers db))" using assms(1) by (simp add: db_ok_def servers_ok_def distinct_map)
  ultimately show False using assms(2,3) by (metis inj_onD)
qed

lemma insert_server_others: "others_kept u db (snd (insert_server x u n sl d c db))"
  by (rule others_kept_same) (auto simp: stmt_defs foreign_servers_def Let_def split: option.split)

lemma update_server_others: "others_kept u db (snd (update_server_stmt x n d c st sid u db))"
proof -
  have "filter (\<lambda>s. sv_user_id s \<noteq> u) (map (\<lambda>t. if owned_by u sid t then updated_server now n d c st t else t) ss) =
      filter (\<lambda>s. sv_user_id s \<noteq> u) ss" for now ss
    by (induction ss) (auto simp: owned_by_def)
  then show ?thesis
    by (intro others_kept_same) (simp_all add: stmt_defs foreign_servers_def Let_def split: option.split)
qed

lemma delete_server_others:
  assumes "db_ok db"
  shows "others_kept u db (snd (delete_server_stmt x sid u db))"
proof -
  let ?gone = "filter (owned_by u sid) (t_servers db)"
  have f: "foreign_servers u (drop_servers (owned_by u sid) db) = foreign_servers u db"
    by (auto simp: drop_servers_def foreign_servers_def owned_by_def Let_def intro!: filter_cong)
  have "k \<notin> sv_id ` set ?gone" if k: "k \<in> sv_id ` set (foreign_servers u db)" for k
  proof
    assume "k \<in> sv_id ` set ?gone"
    then obtain s where "s \<in> set (t_servers db)" "sv_user_id s = u" "sv_id s = k" by (auto simp: owned_by_def)
    then show False using own_not_foreign [OF assms] k by blast
  qed
  with f have "others_kept u db (drop_servers (owned_by u sid) db)"
    unfolding others_kept_def foreign_credentials_def foreign_tokens_def
    by (auto simp: drop_servers_def Let_def intro!: filter_cong)
  then show ?thesis by (simp add: stmt_defs split: option.split)
qed

text \<open>Statements on the credentials and tokens of a server of the user.\<close>

lemma insert_credential_others:
  assumes "db_ok db" "s \<in> set (t_servers db)" "owned_by u sid s"
  shows "others_kept u db (snd (insert_credential x sid a k p iv h db))"
  using own_not_foreign [OF assms(1,2), of u] assms(3)
  by (auto simp: stmt_defs owned_by_def others_kept_def foreign_servers_def foreign_credentials_def foreign_tokens_def Let_def
      split: option.split)

lemma insert_token_others:
  assumes "db_ok db" "s \<in> set (t_servers db)" "owned_by u sid s"
  shows "others_kept u db (snd (insert_token x sid hash d h db))"
  using own_not_foreign [OF assms(1,2), of u] assms(3)
  by (auto simp: stmt_defs owned_by_def others_kept_def foreign_servers_def foreign_credentials_def foreign_tokens_def Let_def
      split: option.split)

lemma filter_map_same:
  assumes "\<And>x. x \<in> set xs \<Longrightarrow> P x \<Longrightarrow> g x = x" "\<And>x. x \<in> set xs \<Longrightarrow> P (g x) = P x"
  shows "filter P (map g xs) = filter P xs"
  using assms by (induction xs) auto

lemma update_credential_others:
  assumes "db_ok db" "s \<in> set (t_servers db)" "owned_by u sid s"
    and "\<And>c. c \<in> set (t_credentials db) \<Longrightarrow> ce_id c = cid \<Longrightarrow> ce_server_id c = sid"
  shows "others_kept u db (snd (update_credential x cid p iv db))"
    and "others_kept u db (snd (delete_credential x cid db))"
proof -
  let ?F = "\<lambda>c. ce_server_id c \<in> sv_id ` set (foreign_servers u db)"
  have n: "ce_id c \<noteq> cid" if "c \<in> set (t_credentials db)" "?F c" for c
    using own_not_foreign [OF assms(1,2), of u] assms(3) assms(4) [OF that(1)] that(2) unfolding owned_by_def by metis
  have u: "filter ?F (map (\<lambda>d. if ce_id d = cid then d\<lparr>ce_encrypted_payload := p, ce_iv := iv\<rparr> else d) (t_credentials db)) =
      filter ?F (t_credentials db)"
    by (rule filter_map_same) (use n in auto)
  have d: "filter ?F (filter (\<lambda>c. ce_id c \<noteq> cid) (t_credentials db)) = filter ?F (t_credentials db)"
    using n by (auto intro!: filter_cong)
  show "others_kept u db (snd (update_credential x cid p iv db))"
    using u by (auto simp: stmt_defs others_kept_def foreign_servers_def foreign_credentials_def foreign_tokens_def
        split: option.split)
  show "others_kept u db (snd (delete_credential x cid db))"
    using d by (auto simp: stmt_defs others_kept_def foreign_servers_def foreign_credentials_def foreign_tokens_def
        split: option.split)
qed

lemma revoke_token_others:
  assumes "db_ok db" "s \<in> set (t_servers db)" "owned_by u sid s"
    and "\<And>t. t \<in> set (t_tokens db) \<Longrightarrow> tk_id t = tid \<Longrightarrow> tk_server_id t = sid"
  shows "others_kept u db (snd (revoke_token_stmt x tid db))"
proof -
  let ?F = "\<lambda>t. tk_server_id t \<in> sv_id ` set (foreign_servers u db)"
  have n: "tk_id t \<noteq> tid" if "t \<in> set (t_tokens db)" "?F t" for t
    using own_not_foreign [OF assms(1,2), of u] assms(3) assms(4) [OF that(1)] that(2) unfolding owned_by_def by metis
  have "filter ?F (map (\<lambda>t. if tk_id t = tid then t\<lparr>tk_is_active := False, tk_revoked_at := Some (sm_now x)\<rparr> else t) (t_tokens db)) =
      filter ?F (t_tokens db)"
    by (rule filter_map_same) (use n in auto)
  then show ?thesis
    by (auto simp: stmt_defs others_kept_def foreign_servers_def foreign_credentials_def foreign_tokens_def split: option.split)
qed

lemma notify_others: "others_kept u db (snd (notify_credential x t db))"
  by (auto simp: stmt_defs others_kept_def foreign_servers_def foreign_credentials_def foreign_tokens_def split: option.split)

end
