(* ===== verification/Ssrf.thy ===== *)
theory Ssrf
  imports App_Error
begin

text \<open>
  SSRF protection (\<open>libs/common/src/ssrf.rs\<close>): the blocked networks, ports and host names, and the
  validation of a URL before and after name resolution. The \<open>ipnetwork\<close> and \<open>url\<close> crates are the
  parameters \<open>ipnet_api\<close> and \<open>ssrf_url_api\<close>; the resolver's answer is an argument. An IPv4 address
  is a 32-bit word and an IPv6 address a 128-bit word, the first octet or group at the top.
\<close>

section \<open>Blocked names and networks\<close>

type_synonym ip6 = "128 word"

datatype ip_addr = V4 u32 | V6 ip6

definition BLOCKED_PORTS :: "u16 list" where
  "BLOCKED_PORTS = [22, 23, 25, 3306, 5432, 6379]"

definition BLOCKED_HOSTNAMES :: "string list" where
  "BLOCKED_HOSTNAMES = [''169.254.169.254'', ''metadata.google.internal'']"

definition LOOPBACK_HOSTNAMES :: "string list" where
  "LOOPBACK_HOSTNAMES = [''localhost'', ''ip6-localhost'', ''ip6-loopback'']"

text \<open>\<open>Ipv4Addr::new\<close> and \<open>Ipv6Addr::new\<close>.\<close>

definition ip4 :: "nat \<Rightarrow> nat \<Rightarrow> nat \<Rightarrow> nat \<Rightarrow> nat" where
  "ip4 a b c d = ((a * 256 + b) * 256 + c) * 256 + d"

definition ip6_of :: "nat list \<Rightarrow> nat" where
  "ip6_of gs = foldl (\<lambda>n g. n * 65536 + g) 0 gs"

definition ipv4_specs :: "(u32 \<times> nat) list" where
  "ipv4_specs =
     [(of_nat (ip4 10 0 0 0), 8), (of_nat (ip4 172 16 0 0), 12), (of_nat (ip4 192 168 0 0), 16),
      (of_nat (ip4 127 0 0 0), 8), (of_nat (ip4 169 254 0 0), 16), (of_nat (ip4 100 64 0 0), 10),
      (of_nat (ip4 224 0 0 0), 4), (of_nat (ip4 240 0 0 0), 4), (of_nat (ip4 0 0 0 0), 8),
      (of_nat (ip4 192 0 2 0), 24), (of_nat (ip4 198 51 100 0), 24), (of_nat (ip4 203 0 113 0), 24)]"

definition ipv6_specs :: "(ip6 \<times> nat) list" where
  "ipv6_specs =
     [(of_nat (ip6_of [0, 0, 0, 0, 0, 0, 0, 1]), 128),
      (of_nat (ip6_of [0xfe80, 0, 0, 0, 0, 0, 0, 0]), 10),
      (of_nat (ip6_of [0xfc00, 0, 0, 0, 0, 0, 0, 0]), 7),
      (of_nat (ip6_of [0, 0, 0, 0, 0, 0xffff, 0, 0]), 96)]"

record ('n, 'm) ipnet_api =
  in_v4_new :: "u32 \<Rightarrow> nat \<Rightarrow> 'n option"
  in_v4_contains :: "'n \<Rightarrow> u32 \<Rightarrow> bool"
  in_v6_new :: "ip6 \<Rightarrow> nat \<Rightarrow> 'm option"
  in_v6_contains :: "'m \<Rightarrow> ip6 \<Rightarrow> bool"

text \<open>A network contains the addresses that agree with it on the bits of its prefix.\<close>

definition ipnet_ok :: "('n, 'm) ipnet_api \<Rightarrow> bool" where
  "ipnet_ok api \<longleftrightarrow>
     (\<forall>a p. p \<le> 32 \<longrightarrow> (\<exists>n. in_v4_new api a p = Some n \<and>
        (\<forall>ip. in_v4_contains api n ip \<longleftrightarrow> drop_bit (32 - p) ip = drop_bit (32 - p) a))) \<and>
     (\<forall>a p. p \<le> 128 \<longrightarrow> (\<exists>n. in_v6_new api a p = Some n \<and>
        (\<forall>ip. in_v6_contains api n ip \<longleftrightarrow> drop_bit (128 - p) ip = drop_bit (128 - p) a)))"

definition blocked_ipv4_networks :: "('n, 'm) ipnet_api \<Rightarrow> 'n list" where
  "blocked_ipv4_networks api = List.map_filter (\<lambda>(addr, prefix). in_v4_new api addr prefix) ipv4_specs"

definition blocked_ipv6_networks :: "('n, 'm) ipnet_api \<Rightarrow> 'm list" where
  "blocked_ipv6_networks api = List.map_filter (\<lambda>(addr, prefix). in_v6_new api addr prefix) ipv6_specs"

definition is_blocked_ip :: "('n, 'm) ipnet_api \<Rightarrow> ip_addr \<Rightarrow> bool" where
  "is_blocked_ip api ip =
     (case ip of
        V4 v4 \<Rightarrow> list_ex (\<lambda>net. in_v4_contains api net v4) (blocked_ipv4_networks api)
      | V6 v6 \<Rightarrow> list_ex (\<lambda>net. in_v6_contains api net v6) (blocked_ipv6_networks api))"

section \<open>URLs\<close>

datatype url_host = Host_Ipv4 u32 | Host_Ipv6 ip6 | Host_Domain string

record 'u ssrf_url_api =
  su_scheme :: "'u \<Rightarrow> string"
  su_port :: "'u \<Rightarrow> u16 option"
  su_port_or_known_default :: "'u \<Rightarrow> u16 option"
  su_host :: "'u \<Rightarrow> url_host option"
  su_to_string :: "'u \<Rightarrow> string"
  su_ip_text :: "ip_addr \<Rightarrow> string"

definition quote :: "string \<Rightarrow> string" where
  "quote s = [CHR 0x27] @ s @ [CHR 0x27]"

definition validate_url :: "('n, 'm) ipnet_api \<Rightarrow> 'u ssrf_url_api \<Rightarrow> 'u \<Rightarrow> app_error + unit" where
  "validate_url api ul url =
     (if su_scheme ul url \<noteq> ''http'' \<and> su_scheme ul url \<noteq> ''https'' then
        Inl (SsrfBlocked (su_to_string ul url)
          (''scheme '' @ quote (su_scheme ul url) @ '' is not allowed; only http and https are permitted''))
      else if (case su_port ul url of Some port \<Rightarrow> port \<in> set BLOCKED_PORTS | None \<Rightarrow> False) then
        Inl (SsrfBlocked (su_to_string ul url)
          (''port '' @ show_nat (unat (the (su_port ul url))) @ '' is not permitted''))
      else
        case su_host ul url of
          None \<Rightarrow> Inl (SsrfBlocked (su_to_string ul url) ''URL has no host component'')
        | Some (Host_Ipv4 ip) \<Rightarrow>
            if is_blocked_ip api (V4 ip) then
              Inl (SsrfBlocked (su_to_string ul url)
                (''IP address '' @ su_ip_text ul (V4 ip) @ '' is in a blocked network range''))
            else Inr ()
        | Some (Host_Ipv6 ip) \<Rightarrow>
            if is_blocked_ip api (V6 ip) then
              Inl (SsrfBlocked (su_to_string ul url)
                (''IP address '' @ su_ip_text ul (V6 ip) @ '' is in a blocked network range''))
            else Inr ()
        | Some (Host_Domain name) \<Rightarrow>
            let name_lower = to_ascii_lowercase name in
            if name_lower \<in> set BLOCKED_HOSTNAMES then
              Inl (SsrfBlocked (su_to_string ul url)
                (''host '' @ quote name @ '' is a blocked cloud-metadata endpoint''))
            else if name_lower \<in> set LOOPBACK_HOSTNAMES then
              Inl (SsrfBlocked (su_to_string ul url) (''host '' @ quote name @ '' is a loopback alias''))
            else Inr ())"

text \<open>\<open>str::parse::<u64>\<close>: an optional plus sign, digits, no overflow.\<close>

definition parse_u64 :: "string \<Rightarrow> u64 option" where
  "parse_u64 s =
     (let ds = (case s of c # t \<Rightarrow> if c = CHR ''+'' then t else s | [] \<Rightarrow> s);
          n = fold (\<lambda>c n. 10 * n + (of_char c - 48 :: nat)) ds 0
      in if ds \<noteq> [] \<and> list_all is_ascii_digit ds \<and> n < 2 ^ 64 then Some (of_nat n) else None)"

definition dns_timeout_secs :: "string option \<Rightarrow> u64" where
  "dns_timeout_secs var = (case Option.bind var parse_u64 of Some n \<Rightarrow> n | None \<Rightarrow> 5)"

text \<open>The resolver gets the target and the timeout and answers with addresses, an error or not in time.\<close>

datatype dns_answer = Dns_Elapsed | Dns_Failed string | Dns_Addresses "ip_addr list"

fun check_resolved :: "('n, 'm) ipnet_api \<Rightarrow> 'u ssrf_url_api \<Rightarrow> 'u \<Rightarrow> string \<Rightarrow> ip_addr list \<Rightarrow> app_error + unit" where
  "check_resolved api ul url host [] = Inr ()"
| "check_resolved api ul url host (ip # ips) =
     (if is_blocked_ip api ip then
        Inl (SsrfBlocked (su_to_string ul url)
          (''resolved IP '' @ su_ip_text ul ip @ '' for host '' @ quote host @ '' is in a blocked network range''))
      else check_resolved api ul url host ips)"

definition validate_url_with_dns ::
  "('n, 'm) ipnet_api \<Rightarrow> 'u ssrf_url_api \<Rightarrow> string option \<Rightarrow> (string \<Rightarrow> u64 \<Rightarrow> dns_answer) \<Rightarrow> 'u \<Rightarrow> app_error + unit" where
  "validate_url_with_dns api ul timeout_var dns url =
     and_then (validate_url api ul url) (\<lambda>_.
       case su_host ul url of
         Some (Host_Domain host) \<Rightarrow>
           (let timeout_secs = dns_timeout_secs timeout_var;
                port = (case su_port_or_known_default ul url of Some p \<Rightarrow> p | None \<Rightarrow> 80);
                lookup_target = host @ '':'' @ show_nat (unat port)
            in case dns lookup_target timeout_secs of
                 Dns_Elapsed \<Rightarrow>
                   Inl (UpstreamUnreachable (''DNS resolution for '' @ quote host @ '' timed out after '' @
                     show_nat (unat timeout_secs) @ ''s''))
               | Dns_Failed e \<Rightarrow>
                   Inl (UpstreamUnreachable (''DNS resolution failed for '' @ quote host @ '': '' @ e))
               | Dns_Addresses resolved \<Rightarrow> check_resolved api ul url host resolved)
       | _ \<Rightarrow> Inr ())"

section \<open>The blocked ranges\<close>

lemma unat_drop: "unat (drop_bit k (w :: 'a::len word)) = unat w div 2 ^ k"
  using unsigned_less [of w, where ?'a = nat]
  by (subst unsigned_drop_bit_eq) (simp add: take_bit_nat_eq_self drop_bit_eq_div)

lemma div_eq_range:
  assumes "0 < (m :: nat)"
  shows "n div m = q \<longleftrightarrow> q * m \<le> n \<and> n < (q + 1) * m"
proof
  assume q: "n div m = q"
  show "q * m \<le> n \<and> n < (q + 1) * m"
    using div_times_less_eq_dividend [of n m] dividend_less_div_times [OF assms, of n] unfolding q by simp
next
  assume "q * m \<le> n \<and> n < (q + 1) * m"
  then show "n div m = q" by (intro div_nat_eqI) (simp_all add: mult.commute)
qed

lemma prefix_range:
  "drop_bit k (ip :: 'a::len word) = drop_bit k a \<longleftrightarrow>
     unat a div 2 ^ k * 2 ^ k \<le> unat ip \<and> unat ip < (unat a div 2 ^ k + 1) * 2 ^ k"
  unfolding word_unat_eq_iff unat_drop by (rule div_eq_range) simp

text \<open>The ranges as first and last address.\<close>

definition blocked4_ranges :: "(nat \<times> nat) list" where
  "blocked4_ranges =
     [(ip4 10 0 0 0, ip4 10 255 255 255), (ip4 172 16 0 0, ip4 172 31 255 255), (ip4 192 168 0 0, ip4 192 168 255 255),
      (ip4 127 0 0 0, ip4 127 255 255 255), (ip4 169 254 0 0, ip4 169 254 255 255),
      (ip4 100 64 0 0, ip4 100 127 255 255), (ip4 224 0 0 0, ip4 239 255 255 255), (ip4 240 0 0 0, ip4 255 255 255 255),
      (ip4 0 0 0 0, ip4 0 255 255 255), (ip4 192 0 2 0, ip4 192 0 2 255), (ip4 198 51 100 0, ip4 198 51 100 255),
      (ip4 203 0 113 0, ip4 203 0 113 255)]"

definition blocked6_ranges :: "(nat \<times> nat) list" where
  "blocked6_ranges =
     [(ip6_of [0, 0, 0, 0, 0, 0, 0, 1], ip6_of [0, 0, 0, 0, 0, 0, 0, 1]),
      (ip6_of [0xfe80, 0, 0, 0, 0, 0, 0, 0], ip6_of [0xfebf, 0xffff, 0xffff, 0xffff, 0xffff, 0xffff, 0xffff, 0xffff]),
      (ip6_of [0xfc00, 0, 0, 0, 0, 0, 0, 0], ip6_of [0xfdff, 0xffff, 0xffff, 0xffff, 0xffff, 0xffff, 0xffff, 0xffff]),
      (ip6_of [0, 0, 0, 0, 0, 0xffff, 0, 0], ip6_of [0, 0, 0, 0, 0, 0xffff, 0xffff, 0xffff])]"

text \<open>The range of a prefix.\<close>

definition net_range :: "nat \<Rightarrow> 'a::len word \<times> nat \<Rightarrow> nat \<times> nat" where
  "net_range bits = (\<lambda>(a, p). (unat a div 2 ^ (bits - p) * 2 ^ (bits - p), (unat a div 2 ^ (bits - p) + 1) * 2 ^ (bits - p) - 1))"

lemma in_net_range:
  "drop_bit (bits - p) (ip :: 'a::len word) = drop_bit (bits - p) a \<longleftrightarrow>
     (case net_range bits (a, p) of (lo, hi) \<Rightarrow> lo \<le> unat ip \<and> unat ip \<le> hi)"
proof -
  define m where "m = (unat a div 2 ^ (bits - p) + 1) * 2 ^ (bits - p)"
  have "0 < m" by (simp add: m_def)
  then have "unat ip < m \<longleftrightarrow> unat ip \<le> m - 1" by linarith
  then show ?thesis unfolding prefix_range net_range_def by (simp add: m_def)
qed

lemma ipv4_ranges: "map (net_range 32) ipv4_specs = blocked4_ranges"
  by (simp add: ipv4_specs_def blocked4_ranges_def net_range_def ip4_def)

lemma ipv6_ranges: "map (net_range 128) ipv6_specs = blocked6_ranges"
  by (simp add: ipv6_specs_def blocked6_ranges_def net_range_def ip6_of_def)

lemma blocked4_prefix:
  assumes "ipnet_ok api"
  shows "is_blocked_ip api (V4 ip) \<longleftrightarrow>
    list_ex (\<lambda>(a, p). drop_bit (32 - p) ip = drop_bit (32 - p) a) ipv4_specs"
proof -
  have new: "\<exists>n. in_v4_new api a p = Some n \<and>
      (\<forall>ip. in_v4_contains api n ip \<longleftrightarrow> drop_bit (32 - p) ip = drop_bit (32 - p) a)" if "(a, p) \<in> set ipv4_specs" for a p
  proof -
    from that have "p \<le> 32" by (auto simp: ipv4_specs_def)
    with assms show ?thesis unfolding ipnet_ok_def by blast
  qed
  have "list_ex (\<lambda>net. in_v4_contains api net ip) (List.map_filter (\<lambda>(a, p). in_v4_new api a p) xs) \<longleftrightarrow>
      list_ex (\<lambda>(a, p). drop_bit (32 - p) ip = drop_bit (32 - p) a) xs" if "set xs \<subseteq> set ipv4_specs" for xs
    using that
  proof (induction xs)
    case (Cons x xs)
    then show ?case using new [of "fst x" "snd x"] by (auto simp: List.map_filter_def split_beta)
  qed (simp add: List.map_filter_def)
  then show ?thesis by (simp add: is_blocked_ip_def blocked_ipv4_networks_def)
qed

lemma blocked6_prefix:
  assumes "ipnet_ok api"
  shows "is_blocked_ip api (V6 ip) \<longleftrightarrow>
    list_ex (\<lambda>(a, p). drop_bit (128 - p) ip = drop_bit (128 - p) a) ipv6_specs"
proof -
  have new: "\<exists>n. in_v6_new api a p = Some n \<and>
      (\<forall>ip. in_v6_contains api n ip \<longleftrightarrow> drop_bit (128 - p) ip = drop_bit (128 - p) a)" if "(a, p) \<in> set ipv6_specs" for a p
  proof -
    from that have "p \<le> 128" by (auto simp: ipv6_specs_def)
    with assms show ?thesis unfolding ipnet_ok_def by blast
  qed
  have "list_ex (\<lambda>net. in_v6_contains api net ip) (List.map_filter (\<lambda>(a, p). in_v6_new api a p) xs) \<longleftrightarrow>
      list_ex (\<lambda>(a, p). drop_bit (128 - p) ip = drop_bit (128 - p) a) xs" if "set xs \<subseteq> set ipv6_specs" for xs
    using that
  proof (induction xs)
    case (Cons x xs)
    then show ?case using new [of "fst x" "snd x"] by (auto simp: List.map_filter_def split_beta)
  qed (simp add: List.map_filter_def)
  then show ?thesis by (simp add: is_blocked_ip_def blocked_ipv6_networks_def)
qed

definition in_ranges :: "(nat \<times> nat) list \<Rightarrow> nat \<Rightarrow> bool" where
  "in_ranges rs n = list_ex (\<lambda>(lo, hi). lo \<le> n \<and> n \<le> hi) rs"

lemma blocked_in_ranges:
  assumes "ipnet_ok api"
  shows "is_blocked_ip api (V4 ip) = in_ranges blocked4_ranges (unat ip) \<and>
    is_blocked_ip api (V6 jp) = in_ranges blocked6_ranges (unat jp)"
  unfolding blocked4_prefix [OF assms] blocked6_prefix [OF assms] in_ranges_def
    ipv4_ranges [symmetric] ipv6_ranges [symmetric] list_ex_iff
  by (simp add: in_net_range split_beta)

text \<open>
  C33: An address is blocked exactly when it lies in one of the listed ranges, written here with their
  first and last address. In particular every private, loopback, link-local, shared, multicast,
  reserved and documentation IPv4 address is blocked and no other one.
\<close>

theorem blocked_ranges_exact:
  assumes "ipnet_ok api"
  shows "is_blocked_ip api (V4 ip) = in_ranges blocked4_ranges (unat ip) \<and>
    is_blocked_ip api (V6 jp) = in_ranges blocked6_ranges (unat jp)"
  by (rule blocked_in_ranges [OF assms])

section \<open>Validated URLs\<close>

lemma check_resolved_ok: "check_resolved api ul url host ips = Inr u \<longleftrightarrow> list_all (\<lambda>ip. \<not> is_blocked_ip api ip) ips"
  by (induction ips) auto

lemma check_resolved_error:
  "check_resolved api ul url host ips = Inl e \<Longrightarrow> \<exists>r. e = SsrfBlocked (su_to_string ul url) r"
  by (induction ips) (auto split: if_splits)


text \<open>
  The IPv6 ranges leave gaps: the unspecified address, on which a connection reaches the local host,
  an IPv4 loopback address behind the NAT64 prefix and a link-local multicast address are not blocked,
  so the URL of such an address passes both phases.
\<close>

theorem ssrf_ipv6_gaps:
  assumes "ipnet_ok api"
  shows "\<not> is_blocked_ip api (V6 0) \<and>
    \<not> is_blocked_ip api (V6 (of_nat (ip6_of [0x64, 0xff9b, 0, 0, 0, 0, 0x7f00, 1]))) \<and>
    \<not> is_blocked_ip api (V6 (of_nat (ip6_of [0xff02, 0, 0, 0, 0, 0, 0, 1])))"
  by (simp add: blocked_in_ranges [OF assms, THEN conjunct2] in_ranges_def blocked6_ranges_def ip6_of_def)

section \<open>Examples\<close>

definition prefix_ipnet :: "(u32 \<times> nat, ip6 \<times> nat) ipnet_api" where
  "prefix_ipnet =
     \<lparr>in_v4_new = (\<lambda>a p. if p \<le> 32 then Some (a, p) else None),
      in_v4_contains = (\<lambda>(a, p) ip. drop_bit (32 - p) ip = drop_bit (32 - p) a),
      in_v6_new = (\<lambda>a p. if p \<le> 128 then Some (a, p) else None),
      in_v6_contains = (\<lambda>(a, p) ip. drop_bit (128 - p) ip = drop_bit (128 - p) a)\<rparr>"

lemma prefix_ipnet_ok: "ipnet_ok prefix_ipnet"
  by (simp add: ipnet_ok_def prefix_ipnet_def)

theorem blocked_ranges_exact_witness:
  "is_blocked_ip prefix_ipnet (V4 (of_nat (ip4 172 31 255 255))) \<and> \<not> is_blocked_ip prefix_ipnet (V4 (of_nat (ip4 172 32 0 0)))"
  by (simp add: blocked_ranges_exact [OF prefix_ipnet_ok, THEN conjunct1] in_ranges_def blocked4_ranges_def ip4_def)

theorem ssrf_ipv6_gaps_witness: "\<not> is_blocked_ip prefix_ipnet (V6 0)"
  using ssrf_ipv6_gaps [OF prefix_ipnet_ok] by blast

end
