(* ===== verification/Api_Servers.thy ===== *)
theory Api_Servers
  imports Api_Tables Ssrf
begin

text \<open>
  Servers in the platform API: \<open>services/api/src/servers.rs\<close>, the service with its slugs and pages, and
  \<open>handlers/servers\<close>, the handlers and their request and response types. Unicode case and character
  classes beyond ASCII, the URL parser and the random generator are parameters.
\<close>

section \<open>Types\<close>

record api_server_config =
  cf_upstream_base_url :: "string option"

record server_response =
  sr_id :: uuid
  sr_slug :: string
  sr_display_name :: string
  sr_description :: "string option"
  sr_config :: api_server_config
  sr_is_active :: bool
  sr_created_at :: int
  sr_updated_at :: int
  sr_mcp_url :: string

record create_server_request =
  cq_display_name :: string
  cq_description :: "string option"
  cq_config :: api_server_config

record update_server_request =
  uq_display_name :: "string option"
  uq_description :: "string option"
  uq_config :: "api_server_config option"
  uq_is_active :: "bool option"

record list_servers_query =
  lq_after :: "uuid option"
  lq_limit :: "u32 option"

record validate_url_error =
  ve_code :: string
  ve_message :: string

record validate_url_response =
  vr_valid :: bool
  vr_error :: "validate_url_error option"

text \<open>\<open>uni_lowercase\<close> is \<open>str::to_lowercase\<close>, \<open>uni_alphanumeric\<close> is \<open>char::is_alphanumeric\<close> beyond ASCII.\<close>

record ('u, 'n, 'm, 'c) api_ext =
  ax_mpsc :: "(audit_event, 'c) mpsc_api"
  ax_lowercase :: "string \<Rightarrow> string"
  ax_alphanumeric :: "string \<Rightarrow> bool"
  ax_ipnet :: "('n, 'm) ipnet_api"
  ax_url :: "'u ssrf_url_api"
  ax_parse_url :: "string \<Rightarrow> 'u option"
  ax_serde_error :: "json \<Rightarrow> string"
  ax_gateway_base_url :: string

record ('c, 'd) api_state =
  ap_db :: api_db
  ap_audit :: "('c, 'd) audit_state"

definition api_audit :: "(audit_event, 'c) mpsc_api \<Rightarrow> audit_event \<Rightarrow> ('c, 'd) api_state \<Rightarrow> ('c, 'd) api_state" where
  "api_audit mp ev st = st\<lparr>ap_audit := snd (audit_log mp ev (ap_audit st))\<rparr>"

text \<open>A statement against the state of the service.\<close>

definition with_db :: "(api_db \<Rightarrow> 'r \<times> api_db) \<Rightarrow> ('c, 'd) api_state \<Rightarrow> 'r \<times> ('c, 'd) api_state" where
  "with_db f st = (let (r, db) = f (ap_db st) in (r, st\<lparr>ap_db := db\<rparr>))"

section \<open>The service\<close>

definition emit_server_audit ::
  "('u, 'n, 'm, 'c) api_ext \<Rightarrow> audit_action \<Rightarrow> uuid \<Rightarrow> uuid \<Rightarrow> ('c, 'd) api_state \<Rightarrow> ('c, 'd) api_state" where
  "emit_server_audit ax action user_id server_id =
     api_audit (ax_mpsc ax) \<lparr>av_action = action, av_user_id = Some user_id, av_server_id = Some server_id, av_success = True,
       av_error_msg = None, av_metadata = None, av_correlation_id = None\<rparr>"

definition is_alphanumeric :: "('u, 'n, 'm, 'c) api_ext \<Rightarrow> string \<Rightarrow> bool" where
  "is_alphanumeric ax ch = (if is_ascii_str ch then list_all is_ascii_alphanumeric ch else ax_alphanumeric ax ch)"

text \<open>\<open>random\<close> are the four characters from the generator.\<close>

definition generate_slug :: "('u, 'n, 'm, 'c) api_ext \<Rightarrow> string \<Rightarrow> string \<Rightarrow> string" where
  "generate_slug ax random display_name =
     (let chars = utf8_chars (ax_lowercase ax display_name);
          dashed = map (\<lambda>c. if c = '' '' \<or> c = ''_'' then ''-'' else c) chars;
          base = concat (take 45 (filter (\<lambda>c. is_alphanumeric ax c \<or> c = ''-'') dashed));
          base = trim_end_char (CHR ''-'') (trim_start_char (CHR ''-'') base);
          slug_suffix = to_ascii_lowercase random
      in if base = [] then slug_suffix else base @ ''-'' @ slug_suffix)"

text \<open>\<open>serde_json::from_value::<ServerConfig>\<close>: unknown fields are ignored, a missing one is the default; a struct may also be given as an array.\<close>

fun optional_string :: "json \<Rightarrow> string option option" where
  "optional_string Null = Some None"
| "optional_string (String s) = Some (Some s)"
| "optional_string _ = None"

fun server_config_from :: "json \<Rightarrow> api_server_config option" where
  "server_config_from (Object kvs) =
     (case obj_get ''upstream_base_url'' kvs of
        None \<Rightarrow> Some \<lparr>cf_upstream_base_url = None\<rparr>
      | Some j \<Rightarrow> map_option (\<lambda>v. \<lparr>cf_upstream_base_url = v\<rparr>) (optional_string j))"
| "server_config_from (Array []) = Some \<lparr>cf_upstream_base_url = None\<rparr>"
| "server_config_from (Array [j]) = map_option (\<lambda>v. \<lparr>cf_upstream_base_url = v\<rparr>) (optional_string j)"
| "server_config_from _ = None"

definition config_to_value :: "api_server_config \<Rightarrow> json" where
  "config_to_value cf =
     Object [(''upstream_base_url'', case cf_upstream_base_url cf of Some s \<Rightarrow> String s | None \<Rightarrow> Null)]"

definition row_to_server_response :: "('u, 'n, 'm, 'c) api_ext \<Rightarrow> server_row \<Rightarrow> app_error + server_response" where
  "row_to_server_response ax row =
     and_then (ok_or (InternalServerError (''config_json deserialize failed: '' @ ax_serde_error ax (sv_config_json row)))
       (server_config_from (sv_config_json row))) (\<lambda>config.
     Inr \<lparr>sr_id = sv_id row, sr_slug = sv_slug row, sr_display_name = sv_name row, sr_description = sv_description row,
       sr_config = config, sr_is_active = (sv_status row = ''active''), sr_created_at = sv_created_at row,
       sr_updated_at = sv_updated_at row, sr_mcp_url = ax_gateway_base_url ax @ ''/mcp/'' @ sv_slug row\<rparr>)"

text \<open>
  The loop over at most five slugs; \<open>tries i\<close> are the random characters and the statement of the attempt
  with \<open>i\<close> attempts left after it.
\<close>

fun create_attempts ::
  "('u, 'n, 'm, 'c) api_ext \<Rightarrow> nat \<Rightarrow> (nat \<Rightarrow> string \<times> stmt) \<Rightarrow> app_error option \<Rightarrow> uuid \<Rightarrow> string \<Rightarrow> string option \<Rightarrow> json
   \<Rightarrow> ('c, 'd) api_state \<Rightarrow> (app_error + server_response) \<times> ('c, 'd) api_state" where
  "create_attempts ax 0 tries last_err user_id display_name description config_value st =
     (Inl (case last_err of Some e \<Rightarrow> e | None \<Rightarrow> InternalServerError ''slug generation exhausted all retries''), st)"
| "create_attempts ax (Suc n) tries last_err user_id display_name description config_value st =
     (let slug = generate_slug ax (fst (tries n)) display_name in
      case with_db (insert_server (snd (tries n)) user_id display_name slug description config_value) st of
        (Inr row, st1) \<Rightarrow>
          (case row_to_server_response ax row of
             Inl e \<Rightarrow> (Inl e, st1)
           | Inr response \<Rightarrow> (Inr response, emit_server_audit ax ServerCreate user_id (sr_id response) st1))
      | (Inl (Sql_Database (Some c) m), st1) \<Rightarrow>
          if contains_str ''mcp_servers_user_id_slug_key'' c then
            create_attempts ax n tries (Some (InternalServerError ''slug collision after max retries''))
              user_id display_name description config_value st1
          else (Inl (InternalServerError (''server insert failed: '' @ m)), st1)
      | (Inl e, st1) \<Rightarrow> (Inl (InternalServerError (''server insert failed: '' @ sql_text e)), st1))"

definition create_server ::
  "('u, 'n, 'm, 'c) api_ext \<Rightarrow> (nat \<Rightarrow> string \<times> stmt) \<Rightarrow> uuid \<Rightarrow> string \<Rightarrow> string option \<Rightarrow> json
   \<Rightarrow> ('c, 'd) api_state \<Rightarrow> (app_error + server_response) \<times> ('c, 'd) api_state" where
  "create_server ax tries = create_attempts ax 5 tries None"

text \<open>The statements of one call are \<open>xs 0\<close>, \<open>xs 1\<close>, and so on.\<close>

definition list_servers ::
  "('u, 'n, 'm, 'c) api_ext \<Rightarrow> (nat \<Rightarrow> stmt) \<Rightarrow> uuid \<Rightarrow> list_servers_query \<Rightarrow> api_db
   \<Rightarrow> app_error + server_response list \<times> nat \<times> bool" where
  "list_servers ax xs user_id params db =
     (let page_size = min (case lq_limit params of Some l \<Rightarrow> unat l | None \<Rightarrow> 20) 100 in
      and_then (map_err (\<lambda>e. InternalServerError (''count servers failed: '' @ sql_text e)) (count_servers (xs 0) user_id db)) (\<lambda>total.
      let fetch_limit = page_size + 1 in
      and_then
        (case lq_after params of
           Some after_id \<Rightarrow>
             and_then (map_err (\<lambda>e. InternalServerError (''cursor lookup failed: '' @ sql_text e))
               (select_server (xs 1) after_id user_id db)) (\<lambda>found.
             and_then (ok_or (NotFound ''pagination cursor not found'') found) (\<lambda>cursor.
             map_err (\<lambda>e. InternalServerError (''list servers failed: '' @ sql_text e))
               (select_page_after (xs 2) user_id (sv_created_at cursor) after_id fetch_limit db)))
         | None \<Rightarrow>
             map_err (\<lambda>e. InternalServerError (''list servers failed: '' @ sql_text e))
               (select_page (xs 2) user_id fetch_limit db)) (\<lambda>rows.
      let has_next = page_size < length rows;
          rows = take (min (length rows) page_size) rows in
      and_then (collect_results (row_to_server_response ax) rows) (\<lambda>servers. Inr (servers, total, has_next)))))"

definition get_server ::
  "('u, 'n, 'm, 'c) api_ext \<Rightarrow> stmt \<Rightarrow> uuid \<Rightarrow> uuid \<Rightarrow> api_db \<Rightarrow> app_error + server_response" where
  "get_server ax x user_id server_id db =
     and_then (map_err (\<lambda>e. InternalServerError (''get server failed: '' @ sql_text e)) (select_server x server_id user_id db)) (\<lambda>found.
     and_then (ok_or (NotFound ''server not found'') found) (row_to_server_response ax))"

text \<open>The new column values, from the request and the row that was read.\<close>

record merged_server =
  mg_name :: string
  mg_description :: "string option"
  mg_config_json :: json
  mg_status :: string

definition merge_update ::
  "string option \<Rightarrow> string option option \<Rightarrow> json option \<Rightarrow> bool option \<Rightarrow> server_row \<Rightarrow> merged_server" where
  "merge_update display_name description config_value is_active current =
     \<lparr>mg_name = (case display_name of Some n \<Rightarrow> n | None \<Rightarrow> sv_name current),
      mg_description = (case description of Some v \<Rightarrow> v | None \<Rightarrow> sv_description current),
      mg_config_json = (case config_value of Some v \<Rightarrow> v | None \<Rightarrow> sv_config_json current),
      mg_status = (case is_active of Some True \<Rightarrow> ''active'' | Some False \<Rightarrow> ''inactive'' | None \<Rightarrow> sv_status current)\<rparr>"

definition update_server ::
  "('u, 'n, 'm, 'c) api_ext \<Rightarrow> (nat \<Rightarrow> stmt) \<Rightarrow> uuid \<Rightarrow> uuid \<Rightarrow> string option \<Rightarrow> string option option \<Rightarrow> json option \<Rightarrow> bool option
   \<Rightarrow> ('c, 'd) api_state \<Rightarrow> (app_error + server_response) \<times> ('c, 'd) api_state" where
  "update_server ax xs user_id server_id display_name description config_value is_active st =
     (case and_then (map_err (\<lambda>e. InternalServerError (''ownership check failed: '' @ sql_text e))
          (select_server (xs 0) server_id user_id (ap_db st))) (ok_or (NotFound ''server not found'')) of
        Inl e \<Rightarrow> (Inl e, st)
      | Inr current \<Rightarrow>
          let new = merge_update display_name description config_value is_active current in
          (case with_db (update_server_stmt (xs 1) (mg_name new) (mg_description new) (mg_config_json new) (mg_status new)
               server_id user_id) st of
             (Inl e, st1) \<Rightarrow> (Inl (InternalServerError (''server update failed: '' @ sql_text e)), st1)
           | (Inr updated, st1) \<Rightarrow>
               (row_to_server_response ax updated, emit_server_audit ax ServerUpdate user_id server_id st1)))"

definition delete_server ::
  "('u, 'n, 'm, 'c) api_ext \<Rightarrow> stmt \<Rightarrow> uuid \<Rightarrow> uuid \<Rightarrow> ('c, 'd) api_state \<Rightarrow> (app_error + unit) \<times> ('c, 'd) api_state" where
  "delete_server ax x user_id server_id st =
     (case with_db (delete_server_stmt x server_id user_id) st of
        (Inl e, st1) \<Rightarrow> (Inl (InternalServerError (''server delete failed: '' @ sql_text e)), st1)
      | (Inr rows_affected, st1) \<Rightarrow>
          if rows_affected = 0 then (Inl (NotFound ''server not found''), st1)
          else (Inr (), emit_server_audit ax ServerDelete user_id server_id st1))"

definition check_ownership :: "stmt \<Rightarrow> uuid \<Rightarrow> uuid \<Rightarrow> api_db \<Rightarrow> app_error + unit" where
  "check_ownership x user_id server_id db =
     and_then (map_err (\<lambda>e. InternalServerError (''ownership check failed: '' @ sql_text e)) (select_server x server_id user_id db)) (\<lambda>found.
     if found = None then Inl (NotFound ''server not found'') else Inr ())"

section \<open>The handlers\<close>

definition validate_display_name :: "string \<Rightarrow> app_error + unit" where
  "validate_display_name display_name =
     (if 100 < length display_name then Inl (Validation ''display_name'' ''must be 100 characters or fewer'')
      else if trim display_name = [] then Inl (Validation ''display_name'' ''must not be blank'')
      else Inr ())"

definition validate_config_ssrf :: "('u, 'n, 'm, 'c) api_ext \<Rightarrow> api_server_config \<Rightarrow> app_error + unit" where
  "validate_config_ssrf ax config =
     (case cf_upstream_base_url config of
        None \<Rightarrow> Inr ()
      | Some raw_url \<Rightarrow>
          and_then (ok_or (Validation ''config.upstream_base_url'' ''invalid URL format'') (ax_parse_url ax raw_url))
            (validate_url (ax_ipnet ax) (ax_url ax)))"

definition create_server_handler ::
  "('u, 'n, 'm, 'c) api_ext \<Rightarrow> (nat \<Rightarrow> string \<times> stmt) \<Rightarrow> uuid \<Rightarrow> create_server_request
   \<Rightarrow> ('c, 'd) api_state \<Rightarrow> (app_error + server_response) \<times> ('c, 'd) api_state" where
  "create_server_handler ax tries user body st =
     (case and_then (validate_display_name (cq_display_name body)) (\<lambda>_. validate_config_ssrf ax (cq_config body)) of
        Inl e \<Rightarrow> (Inl e, st)
      | Inr _ \<Rightarrow>
          create_server ax tries user (cq_display_name body) (cq_description body) (config_to_value (cq_config body)) st)"

definition update_server_handler ::
  "('u, 'n, 'm, 'c) api_ext \<Rightarrow> (nat \<Rightarrow> stmt) \<Rightarrow> uuid \<Rightarrow> uuid \<Rightarrow> update_server_request
   \<Rightarrow> ('c, 'd) api_state \<Rightarrow> (app_error + server_response) \<times> ('c, 'd) api_state" where
  "update_server_handler ax xs user server_id body st =
     (case and_then (case uq_display_name body of Some dn \<Rightarrow> validate_display_name dn | None \<Rightarrow> Inr ()) (\<lambda>_.
          case uq_config body of Some cfg \<Rightarrow> validate_config_ssrf ax cfg | None \<Rightarrow> Inr ()) of
        Inl e \<Rightarrow> (Inl e, st)
      | Inr _ \<Rightarrow>
          update_server ax xs user server_id (uq_display_name body) (map_option Some (uq_description body))
            (map_option config_to_value (uq_config body)) (uq_is_active body) st)"

definition validate_url_handler ::
  "('u, 'n, 'm, 'c) api_ext \<Rightarrow> stmt \<Rightarrow> uuid \<Rightarrow> uuid \<Rightarrow> string \<Rightarrow> api_db \<Rightarrow> app_error + validate_url_response" where
  "validate_url_handler ax x user server_id url db =
     and_then (check_ownership x user server_id db) (\<lambda>_.
     case ax_parse_url ax url of
       None \<Rightarrow> Inr \<lparr>vr_valid = False, vr_error = Some \<lparr>ve_code = ''invalid_url'', ve_message = ''URL could not be parsed''\<rparr>\<rparr>
     | Some parsed \<Rightarrow>
         (case validate_url (ax_ipnet ax) (ax_url ax) parsed of
            Inr _ \<Rightarrow> Inr \<lparr>vr_valid = True, vr_error = None\<rparr>
          | Inl (SsrfBlocked _ reason) \<Rightarrow>
              Inr \<lparr>vr_valid = False, vr_error = Some \<lparr>ve_code = ''ssrf_blocked'', ve_message = reason\<rparr>\<rparr>
          | Inl other \<Rightarrow> Inl other))"

section \<open>Slugs\<close>

text \<open>The bytes of one scalar value.\<close>

definition char_ok :: "string \<Rightarrow> bool" where
  "char_ok ch = (case ch of [] \<Rightarrow> False
     | b # r \<Rightarrow> \<not> is_cont_byte b \<and> list_all is_cont_byte r \<and> ((of_char b :: nat) < 128 \<longrightarrow> r = []))"

lemma utf8_chars_concat: "list_all char_ok cs \<Longrightarrow> utf8_chars (concat cs) = cs"
proof (induction cs)
  case (Cons ch cs)
  obtain b r where ch: "ch = b # r" "list_all is_cont_byte r" using Cons.prems by (cases ch) (auto simp: char_ok_def)
  have "utf8_chars ch = [ch]"
    using ch by (simp add: list_all_iff takeWhile_eq_all_conv [THEN iffD2] dropWhile_eq_Nil_conv [THEN iffD2])
  moreover have "concat cs = [] \<or> \<not> is_cont_byte (hd (concat cs))"
    using Cons.prems by (cases cs) (auto simp: char_ok_def split: list.splits)
  ultimately show ?case using Cons utf8_chars_append [of "concat cs" ch] by simp
qed simp

lemma char_ok_dash: "char_ok (b # r) \<Longrightarrow> b = CHR ''-'' \<Longrightarrow> r = []"
  by (auto simp: char_ok_def)

lemma trim_start_concat:
  "list_all char_ok cs \<Longrightarrow> trim_start_char (CHR ''-'') (concat cs) = concat (dropWhile (\<lambda>c. c = ''-'') cs)"
proof (induction cs)
  case (Cons ch cs)
  obtain b r where ch: "ch = b # r" using Cons.prems by (cases ch) (auto simp: char_ok_def)
  then show ?case using Cons char_ok_dash [of b r] by (auto simp: trim_start_char_def)
qed (simp add: trim_start_char_def)

lemma cont_not_dash: "is_cont_byte c \<Longrightarrow> c \<noteq> CHR ''-''"
  by (auto simp: is_cont_byte_def)

lemma trim_end_concat:
  "list_all char_ok cs \<Longrightarrow> trim_end_char (CHR ''-'') (concat cs) = concat (rev (dropWhile (\<lambda>c. c = ''-'') (rev cs)))"
proof (induction cs rule: rev_induct)
  case (snoc ch cs)
  obtain b r where ch: "ch = b # r" "list_all is_cont_byte r" using snoc.prems by (cases ch) (auto simp: char_ok_def)
  show ?case
  proof (cases "ch = ''-''")
    case True
    then show ?thesis using snoc by (simp add: trim_end_char_def)
  next
    case False
    have "last ch \<noteq> CHR ''-''"
    proof (cases "r = []")
      case True
      with False ch show ?thesis by auto
    next
      case r: False
      then have "is_cont_byte (last r)" using ch(2) by (simp add: list_all_iff)
      then show ?thesis using r ch(1) cont_not_dash by auto
    qed
    moreover obtain x xs where "rev ch = x # xs" using ch(1) by (cases "rev ch") auto
    ultimately have "dropWhile (\<lambda>x. x = CHR ''-'') (rev ch @ rev (concat cs)) = rev ch @ rev (concat cs)"
      using hd_rev [of ch] by simp
    with False show ?thesis by (simp add: trim_end_char_def)
  qed
qed (simp add: trim_end_char_def)

lemma ascii_alnum_lower: "is_ascii_alphanumeric c \<Longrightarrow> is_ascii_alphanumeric (ascii_lower_char c)"
  by (auto simp: is_ascii_alphanumeric_def is_ascii_alphabetic_def is_ascii_digit_def ascii_lower_char_def Let_def)

lemma ascii_alnum_small: "is_ascii_alphanumeric c \<Longrightarrow> (of_char c :: nat) < 128"
  by (auto simp: is_ascii_alphanumeric_def is_ascii_alphabetic_def is_ascii_digit_def Let_def)

lemma char_ok_ascii: "(of_char c :: nat) < 128 \<Longrightarrow> char_ok [c]"
  by (simp add: char_ok_def is_cont_byte_def Let_def)

lemma trim_dashes:
  fixes cs :: "string list"
  defines "core \<equiv> rev (dropWhile (\<lambda>c. c = ''-'') (rev (dropWhile (\<lambda>c. c = ''-'') cs)))"
  assumes "list_all char_ok cs"
  shows "trim_end_char (CHR ''-'') (trim_start_char (CHR ''-'') (concat cs)) = concat core"
    and "set core \<subseteq> set cs" "length core \<le> length cs" "core \<noteq> [] \<Longrightarrow> hd core \<noteq> ''-''"
proof -
  let ?d = "dropWhile (\<lambda>c. c = ''-'') cs"
  show "trim_end_char (CHR ''-'') (trim_start_char (CHR ''-'') (concat cs)) = concat core"
    unfolding core_def trim_start_concat [OF assms(2)]
    by (rule trim_end_concat) (use assms(2) in \<open>auto simp: list_all_iff dest: set_dropWhileD\<close>)
  show "set core \<subseteq> set cs"
    unfolding core_def set_rev by (intro subsetI) (metis set_dropWhileD set_rev)
  have "length core \<le> length (rev ?d)" 
    using length_dropWhile_le [of "\<lambda>c. c = ''-''" "rev ?d"] by (simp only: core_def length_rev)
  then show "length core \<le> length cs" using length_dropWhile_le [of "\<lambda>c. c = ''-''" cs] by simp
  have pre: "core = take (length core) ?d"
    unfolding core_def by (metis append_eq_conv_conj rev_append rev_rev_ident takeWhile_dropWhile_id)
  show "hd core \<noteq> ''-''" if "core \<noteq> []"
  proof -
    have "?d \<noteq> []" using that pre by (metis take_Nil)
    moreover have "hd core = hd ?d" using that pre by (metis hd_take length_greater_0_conv)
    ultimately show ?thesis using hd_dropWhile [of "\<lambda>c. c = ''-''" cs] by metis
  qed
qed

text \<open>The characters of a slug: what is left of the name, a hyphen, and the random ones.\<close>

lemma slug_chars:
  assumes "list_all char_ok (utf8_chars (ax_lowercase ax display_name))" "list_all is_ascii_alphanumeric random"
  obtains core where "utf8_chars (generate_slug ax random display_name) =
      (if core = [] then [] else core @ [''-'']) @ map (\<lambda>c. [c]) (to_ascii_lowercase random)"
    and "length core \<le> 45" "list_all (\<lambda>c. is_alphanumeric ax c \<or> c = ''-'') core" "list_all char_ok core"
    and "core = [] \<or> hd core \<noteq> ''-''" "set core \<subseteq> insert ''-'' (set (utf8_chars (ax_lowercase ax display_name)))"
proof -
  define chars where "chars = take 45 (filter (\<lambda>c. is_alphanumeric ax c \<or> c = ''-'')
      (map (\<lambda>c. if c = '' '' \<or> c = ''_'' then ''-'' else c) (utf8_chars (ax_lowercase ax display_name))))"
  define core where "core = rev (dropWhile (\<lambda>c. c = ''-'') (rev (dropWhile (\<lambda>c. c = ''-'') chars)))"
  define cs where "cs = (if core = [] then [] else core @ [''-'']) @ map (\<lambda>c. [c]) (to_ascii_lowercase random)"
  have chars: "list_all char_ok chars" "list_all (\<lambda>c. is_alphanumeric ax c \<or> c = ''-'') chars" "length chars \<le> 45"
    "set chars \<subseteq> insert ''-'' (set (utf8_chars (ax_lowercase ax display_name)))"
    using assms(1) by (auto simp: chars_def list_all_iff char_ok_ascii dest!: in_set_takeD)
  note t = trim_dashes [OF chars(1), folded core_def]
  have core: "list_all char_ok core" "list_all (\<lambda>c. is_alphanumeric ax c \<or> c = ''-'') core" "length core \<le> 45"
    using chars t(2,3) by (auto simp: list_all_iff)
  have "concat core = [] \<longleftrightarrow> core = []" using core(1) by (cases core) (auto simp: char_ok_def)
  then have slug: "generate_slug ax random display_name = concat cs"
    using t(1) by (simp add: generate_slug_def Let_def chars_def [symmetric] cs_def)
  have "list_all char_ok cs"
    using core(1) assms(2)
    by (auto simp: cs_def list_all_iff to_ascii_lowercase_def char_ok_ascii ascii_alnum_small ascii_alnum_lower)
  then have "utf8_chars (generate_slug ax random display_name) = cs" unfolding slug by (rule utf8_chars_concat)
  then show thesis using that [of core] core t(2,4) chars(4) unfolding cs_def by blast
qed

text \<open>
  A slug has at most fifty characters, each of them alphanumeric or a hyphen; it does not start with a hyphen, and
  it ends with the random characters in lower case. When the name in lower case is ASCII, the slug has at most
  fifty bytes, all of them ASCII letters, digits and hyphens. The name in lower case is a string of scalar values, and the generator gives
  four ASCII letters or digits.
\<close>

theorem slug_shape:
  assumes "list_all char_ok (utf8_chars (ax_lowercase ax display_name))"
    and "length random = 4" "list_all is_ascii_alphanumeric random"
  shows "length (utf8_chars (generate_slug ax random display_name)) \<le> 50 \<and>
    list_all (\<lambda>c. is_alphanumeric ax c \<or> c = ''-'') (utf8_chars (generate_slug ax random display_name)) \<and>
    hd (utf8_chars (generate_slug ax random display_name)) \<noteq> ''-'' \<and>
    ends_with (to_ascii_lowercase random) (generate_slug ax random display_name) \<and>
    (if is_ascii_str (ax_lowercase ax display_name)
     then length (generate_slug ax random display_name) \<le> 50 \<and> is_ascii_str (generate_slug ax random display_name) else True)"
proof -
  obtain core where g: "utf8_chars (generate_slug ax random display_name) =
      (if core = [] then [] else core @ [''-'']) @ map (\<lambda>c. [c]) (to_ascii_lowercase random)" (is "_ = ?cs")
    and core: "length core \<le> 45" "list_all (\<lambda>c. is_alphanumeric ax c \<or> c = ''-'') core" "list_all char_ok core"
      "core = [] \<or> hd core \<noteq> ''-''" "set core \<subseteq> insert ''-'' (set (utf8_chars (ax_lowercase ax display_name)))"
    by (rule slug_chars [OF assms(1,3)])
  have slug: "generate_slug ax random display_name = concat ?cs" using g concat_utf8_chars by metis
  have sfx: "length (to_ascii_lowercase random) = 4" "list_all is_ascii_alphanumeric (to_ascii_lowercase random)"
    using assms(2,3) by (auto simp: to_ascii_lowercase_def list_all_iff ascii_alnum_lower)
  then obtain c r where cr: "to_ascii_lowercase random = c # r" by (cases "to_ascii_lowercase random") auto
  have "list_all (\<lambda>c. is_alphanumeric ax c \<or> c = ''-'') ?cs"
    using core(2) sfx(2) by (auto simp: list_all_iff is_alphanumeric_def ascii_alnum_small)
  moreover have len: "length ?cs \<le> 50" using core(1) sfx(1) by simp
  moreover have "hd ?cs \<noteq> ''-''"
    using core(4) sfx(2) cr by (auto simp: is_ascii_alphanumeric_def is_ascii_alphabetic_def is_ascii_digit_def Let_def)
  moreover have "ends_with (to_ascii_lowercase random) (concat ?cs)" by (simp add: ends_with_def)
  moreover have "length (concat ?cs) \<le> 50 \<and> is_ascii_str (concat ?cs)" if ascii: "is_ascii_str (ax_lowercase ax display_name)"
  proof -
    have "\<exists>b. c = [b] \<and> (of_char b :: nat) < 128" if "c \<in> set core" for c
    proof -
      from that core(5) consider "c = ''-''" | b where "c = [b]" "b \<in> set (ax_lowercase ax display_name)"
        unfolding utf8_chars_ascii [OF ascii] by auto
      then show ?thesis
      proof cases
        case 1
        then show ?thesis by simp
      next
        case 2
        then show ?thesis using ascii by (simp add: is_ascii_str_def)
      qed
    qed
    moreover have "\<forall>b \<in> set (to_ascii_lowercase random). (of_char b :: nat) < 128"
      using sfx(2) ascii_alnum_small by (auto simp: list_all_iff)
    ultimately have one: "\<forall>c \<in> set ?cs. \<exists>b. c = [b] \<and> (of_char b :: nat) < 128" by auto
    have "length (concat xs) = length xs \<and> is_ascii_str (concat xs)"
      if "\<forall>c \<in> set xs. \<exists>b. c = [b] \<and> (of_char b :: nat) < 128" for xs
      using that by (induction xs) auto
    then have "length (concat ?cs) = length ?cs \<and> is_ascii_str (concat ?cs)" using one by blast
    then show ?thesis using len by simp
  qed
  ultimately show ?thesis unfolding g unfolding slug by simp
qed

section \<open>Pages\<close>

lemma key_before_order:
  "\<not> key_before a a" "key_before a b \<Longrightarrow> key_before b c \<Longrightarrow> key_before a c" "key_before a b \<Longrightarrow> \<not> key_before b a"
  "a \<noteq> b \<Longrightarrow> \<not> key_before a b \<Longrightarrow> key_before b a"
  by (cases a; cases b; cases c; auto simp: key_before_def)+

definition newest_order :: "server_row list \<Rightarrow> bool" where
  "newest_order = sorted_wrt (\<lambda>a b. key_before (newest_key b) (newest_key a))"

lemma set_insert_newest [simp]: "set (insert_newest s ts) = insert s (set ts)"
  by (induction ts) auto

lemma length_insert_newest [simp]: "length (insert_newest s ts) = Suc (length ts)"
  by (induction ts) auto

lemma set_newest_first [simp]: "set (newest_first rows) = set rows"
  by (induction rows) (simp_all add: newest_first_def)

lemma length_newest_first [simp]: "length (newest_first rows) = length rows"
  by (induction rows) (simp_all add: newest_first_def)

lemma newest_key_inj: "newest_key s = newest_key t \<Longrightarrow> sv_id s = sv_id t"
  by (simp add: newest_key_def word_unat_eq_iff)

lemma insert_newest_order:
  "newest_order ts \<Longrightarrow> sv_id s \<notin> sv_id ` set ts \<Longrightarrow> newest_order (insert_newest s ts)"
proof (induction ts)
  case (Cons t ts)
  have "newest_key s \<noteq> newest_key t" using Cons.prems(2) newest_key_inj [of s t] by auto
  then consider "key_before (newest_key s) (newest_key t)" | "key_before (newest_key t) (newest_key s)"
    "\<not> key_before (newest_key s) (newest_key t)"
    using key_before_order(4) [of "newest_key s" "newest_key t"] by metis
  then show ?case
  proof cases
    case 1
    then show ?thesis using Cons by (auto simp: newest_order_def)
  next
    case 2
    have "key_before (newest_key x) (newest_key s)" if "x \<in> set ts" for x
    proof (rule key_before_order(2) [OF _ 2(1)])
      show "key_before (newest_key x) (newest_key t)" using Cons.prems(1) that by (simp add: newest_order_def)
    qed
    with 2 show ?thesis using Cons.prems(1) by (simp add: newest_order_def)
  qed
qed (simp add: newest_order_def)

lemma newest_first_order: "distinct (map sv_id rows) \<Longrightarrow> newest_order (newest_first rows)"
proof (induction rows)
  case (Cons s rows)
  have "sv_id s \<notin> sv_id ` set (newest_first rows)" using Cons.prems by simp
  with Cons insert_newest_order show ?case by (simp add: newest_first_def)
qed (simp add: newest_first_def newest_order_def)

lemma distinct_newest_first: "distinct (map sv_id rows) \<Longrightarrow> distinct (map sv_id (newest_first rows))"
proof (induction rows)
  case (Cons s rows)
  have "distinct (map sv_id (insert_newest s ts))" if "distinct (map sv_id ts)" "sv_id s \<notin> sv_id ` set ts" for ts
    using that by (induction ts) auto
  with Cons show ?case using set_newest_first [of rows] by (simp add: newest_first_def)
qed (simp add: newest_first_def)

lemma filter_insert_newest:
  "newest_order ts \<Longrightarrow> filter P (insert_newest s ts) = (if P s then insert_newest s (filter P ts) else filter P ts)"
proof (induction ts)
  case (Cons t ts)
  have "insert_newest s (filter P ts) = s # filter P ts" if "\<not> key_before (newest_key s) (newest_key t)"
  proof (cases "filter P ts")
    case (Cons y ys)
    then have "y \<in> set ts" by (metis filter_is_subset list.set_intros(1) subsetD)
    then have "key_before (newest_key y) (newest_key t)" using Cons.prems \<open>newest_order (t # ts)\<close> by (auto simp: newest_order_def)
    then have "\<not> key_before (newest_key s) (newest_key y)" using that key_before_order(2) by blast
    then show ?thesis using Cons by simp
  qed simp
  with Cons show ?case by (auto simp: newest_order_def)
qed simp

lemma newest_first_filter:
  "distinct (map sv_id rows) \<Longrightarrow> newest_first (filter P rows) = filter P (newest_first rows)"
proof (induction rows)
  case (Cons s rows)
  then have "newest_order (newest_first rows)" using newest_first_order by simp
  with Cons show ?case by (auto simp: newest_first_def filter_insert_newest)
qed (simp add: newest_first_def)

lemma newest_order_nth:
  "newest_order rows \<Longrightarrow> i < j \<Longrightarrow> j < length rows \<Longrightarrow> key_before (newest_key (rows ! j)) (newest_key (rows ! i))"
  by (simp add: newest_order_def sorted_wrt_iff_nth_less)

lemma older_than_nth:
  assumes "newest_order rows" "i < length rows"
  shows "filter (\<lambda>s. key_before (newest_key s) (newest_key (rows ! i))) rows = drop (Suc i) rows"
proof -
  let ?P = "\<lambda>s. key_before (newest_key s) (newest_key (rows ! i))"
  have "rows = take i rows @ rows ! i # drop (Suc i) rows" using id_take_nth_drop [OF assms(2)] .
  moreover have "filter ?P (take i rows) = []"
  proof -
    have "\<not> ?P s" if s: "s \<in> set (take i rows)" for s
    proof -
      obtain j where "j < length (take i rows)" "s = take i rows ! j" using s unfolding in_set_conv_nth by blast
      then have "j < i" "s = rows ! j" by simp_all
      then show ?thesis using key_before_order(3) [OF newest_order_nth [OF assms(1), of j i]] assms(2) by simp
    qed
    then show ?thesis by (simp add: filter_empty_conv)
  qed
  moreover have "filter ?P (drop (Suc i) rows) = drop (Suc i) rows"
  proof (rule filter_True, rule ballI)
    fix s assume "s \<in> set (drop (Suc i) rows)"
    then obtain j where "j < length (drop (Suc i) rows)" "s = drop (Suc i) rows ! j" unfolding in_set_conv_nth by blast
    then have "Suc i + j < length rows" "s = rows ! (Suc i + j)" by simp_all
    then show "?P s" using newest_order_nth [OF assms(1), of i "Suc i + j"] by simp
  qed
  ultimately show ?thesis using key_before_order(1) by (metis append_Nil filter.simps(2) filter_append)
qed

lemma find_owned:
  assumes "distinct (map sv_id rows)" "s \<in> set rows" "owned_by u sid s"
  shows "find (owned_by u sid) rows = Some s"
proof -
  obtain t where t: "find (owned_by u sid) rows = Some t"
    using assms(2,3) by (cases "find (owned_by u sid) rows") (auto simp: find_None_iff)
  then have "t \<in> set rows" "owned_by u sid t" by (auto simp: find_Some_iff)
  then have "t = s" using assms by (auto simp: owned_by_def distinct_map inj_on_def)
  with t show ?thesis by simp
qed

definition configs_readable :: "api_db \<Rightarrow> bool" where
  "configs_readable db \<longleftrightarrow> (\<forall>s \<in> set (t_servers db). server_config_from (sv_config_json s) \<noteq> None)"

lemma collect_responses:
  "\<forall>s \<in> set rows. server_config_from (sv_config_json s) \<noteq> None \<Longrightarrow>
     \<exists>rs. collect_results (row_to_server_response ax) rows = Inr rs \<and> map sr_id rs = map sv_id rows"
proof (induction rows)
  case (Cons s rows)
  then obtain c where "server_config_from (sv_config_json s) = Some c" by auto
  with Cons show ?case by (auto simp: row_to_server_response_def)
qed simp

definition page_limit :: "u32 option \<Rightarrow> nat" where
  "page_limit l = min (case l of Some l \<Rightarrow> unat l | None \<Rightarrow> 20) 100"

text \<open>One page, at the start or after the \<open>p\<close>-th server.\<close>

lemma list_servers_page:
  fixes rows ax xs u db l
  defines "rows \<equiv> newest_first (servers_of u db)"
  assumes "db_ok db" "configs_readable db" "\<forall>i. sm_error (xs i) = None" "p \<le> length rows"
    and "after = (if p = 0 then None else Some (sv_id (rows ! (p - 1))))"
  shows "\<exists>rs. list_servers ax xs u \<lparr>lq_after = after, lq_limit = l\<rparr> db =
      Inr (rs, length rows, page_limit l < length rows - p) \<and> map sr_id rs = map sv_id (take (page_limit l) (drop p rows))"
proof -
  have d: "distinct (map sv_id (t_servers db))" using assms(2) by (simp add: db_ok_def servers_ok_def)
  then have ds: "distinct (map sv_id (servers_of u db))" by (simp add: servers_of_def distinct_map_filter_sub)
  have page: "(case after of
      Some after_id \<Rightarrow> and_then (map_err E1 (select_server (xs 1) after_id u db)) (\<lambda>found.
        and_then (ok_or E2 found) (\<lambda>cursor. map_err E3 (select_page_after (xs 2) u (sv_created_at cursor) after_id n db)))
    | None \<Rightarrow> map_err E3 (select_page (xs 2) u n db)) = Inr (take n (drop p rows))" for E1 E2 E3 n
  proof (cases "p = 0")
    case True
    then show ?thesis using assms(4,6) by (simp add: select_page_def run_stmt_def rows_def)
  next
    case False
    let ?c = "rows ! (p - 1)"
    have i: "p - 1 < length rows" using False assms(5) by simp
    then have c: "?c \<in> set (servers_of u db)" using nth_mem [OF i] by (simp add: rows_def)
    then have "find (owned_by u (sv_id ?c)) (t_servers db) = Some ?c"
      by (intro find_owned [OF d]) (auto simp: servers_of_def owned_by_def)
    moreover have "(\<lambda>s. sv_created_at s < sv_created_at ?c \<or> sv_created_at s = sv_created_at ?c \<and> sv_id s < sv_id ?c) =
        (\<lambda>s. key_before (newest_key s) (newest_key ?c))"
      by (simp add: fun_eq_iff key_before_def newest_key_def word_less_nat_alt)
    moreover have "newest_first (filter (\<lambda>s. key_before (newest_key s) (newest_key ?c)) (servers_of u db)) = drop p rows"
      using older_than_nth [OF newest_first_order [OF ds, folded rows_def] i] False
      by (simp add: newest_first_filter [OF ds] rows_def)
    ultimately show ?thesis
      using False assms(4,6) by (simp add: select_server_def select_page_after_def run_stmt_def)
  qed
  have "\<forall>s \<in> set (take (page_limit l) (drop p rows)). server_config_from (sv_config_json s) \<noteq> None"
    using assms(3) by (auto simp: configs_readable_def rows_def servers_of_def dest!: in_set_takeD in_set_dropD)
  then obtain rs where rs: "collect_results (row_to_server_response ax) (take (page_limit l) (drop p rows)) = Inr rs"
    "map sr_id rs = map sv_id (take (page_limit l) (drop p rows))" using collect_responses by blast
  have "take (min (length (take (page_limit l + 1) (drop p rows))) (page_limit l)) (take (page_limit l + 1) (drop p rows)) =
      take (page_limit l) (drop p rows)" by (simp add: min_def)
  moreover have "page_limit l < length (take (page_limit l + 1) (drop p rows)) \<longleftrightarrow> page_limit l < length rows - p" by auto
  ultimately have "list_servers ax xs u \<lparr>lq_after = after, lq_limit = l\<rparr> db =
      Inr (rs, length rows, page_limit l < length rows - p)"
    using assms(4) rs(1) unfolding list_servers_def Let_def
    by (simp add: page page_limit_def [symmetric] count_servers_def run_stmt_def rows_def)
  with rs(2) show ?thesis by blast
qed

text \<open>A client that follows the pages, \<open>n\<close> requests at most.\<close>

fun walk_pages ::
  "('u, 'n, 'm, 'c) api_ext \<Rightarrow> (nat \<Rightarrow> stmt) \<Rightarrow> uuid \<Rightarrow> u32 option \<Rightarrow> nat \<Rightarrow> uuid option \<Rightarrow> api_db \<Rightarrow> server_response list" where
  "walk_pages ax xs u l 0 after db = []"
| "walk_pages ax xs u l (Suc n) after db =
     (case list_servers ax xs u \<lparr>lq_after = after, lq_limit = l\<rparr> db of
        Inl _ \<Rightarrow> []
      | Inr (page, cnt, has_next) \<Rightarrow>
          page @ (if has_next \<and> page \<noteq> [] then walk_pages ax xs u l n (Some (sr_id (last page))) db else []))"

lemma walk_pages_from:
  fixes rows ax xs u db l
  defines "rows \<equiv> newest_first (servers_of u db)"
  assumes "db_ok db" "configs_readable db" "\<forall>i. sm_error (xs i) = None" "0 < page_limit l"
  shows "p \<le> length rows \<Longrightarrow> after = (if p = 0 then None else Some (sv_id (rows ! (p - 1)))) \<Longrightarrow>
    length rows - p \<le> n * page_limit l \<Longrightarrow> map sr_id (walk_pages ax xs u l n after db) = map sv_id (drop p rows)"
proof (induction n arbitrary: p after)
  case (Suc n)
  obtain rs where rs: "list_servers ax xs u \<lparr>lq_after = after, lq_limit = l\<rparr> db =
      Inr (rs, length rows, page_limit l < length rows - p)" "map sr_id rs = map sv_id (take (page_limit l) (drop p rows))"
    using list_servers_page [OF assms(2-4), of p u after ax l] Suc.prems unfolding rows_def by blast
  show ?case
  proof (cases "page_limit l < length rows - p")
    case True
    then have len: "length rs = page_limit l" using arg_cong [OF rs(2), of length] by simp
    then have ne: "rs \<noteq> []" using assms(5) by auto
    have "sr_id (last rs) = last (map sr_id rs)" using ne by (simp add: last_map)
    also have "\<dots> = sv_id (rows ! (p + page_limit l - 1))"
      unfolding rs(2) using True assms(5) by (subst last_conv_nth) auto
    finally have "map sr_id (walk_pages ax xs u l n (Some (sr_id (last rs))) db) = map sv_id (drop (p + page_limit l) rows)"
      using True assms(5) Suc.prems(3) by (intro Suc.IH) auto
    then have "map sr_id (walk_pages ax xs u l (Suc n) after db) =
        map sv_id (take (page_limit l) (drop p rows) @ drop (page_limit l) (drop p rows))"
      using rs True ne by (simp add: add.commute)
    then show ?thesis by (simp only: append_take_drop_id)
  next
    case False
    then show ?thesis using rs by simp
  qed
qed (simp add: rows_def)

text \<open>
  C21: Following the pages of the server list gives every server of the user exactly once, newest first, whatever the page
  size, as long as it is not zero: the pages leave nothing out and repeat nothing, also where servers were created at the same
  instant. It takes as many requests as pages.
\<close>

theorem pages_list_every_server:
  assumes "db_ok db" "configs_readable db" "\<forall>i. sm_error (xs i) = None" "0 < page_limit l"
    and "length (servers_of u db) \<le> n * page_limit l"
  shows "map sr_id (walk_pages ax xs u l n None db) = map sv_id (newest_first (servers_of u db)) \<and>
    distinct (map sr_id (walk_pages ax xs u l n None db)) \<and>
    sr_id ` set (walk_pages ax xs u l n None db) = sv_id ` set (servers_of u db) \<and>
    newest_order (newest_first (servers_of u db))"
proof -
  have w: "map sr_id (walk_pages ax xs u l n None db) = map sv_id (newest_first (servers_of u db))"
    using walk_pages_from [OF assms(1-4), of 0 u None n ax] assms(5) by simp
  have d: "distinct (map sv_id (servers_of u db))"
    using assms(1) by (simp add: db_ok_def servers_ok_def servers_of_def distinct_map_filter_sub)
  have "set (map sr_id (walk_pages ax xs u l n None db)) = set (map sv_id (newest_first (servers_of u db)))" by (simp only: w)
  then have "sr_id ` set (walk_pages ax xs u l n None db) = sv_id ` set (servers_of u db)"
    by (simp only: list.set_map set_newest_first)
  then show ?thesis using w distinct_newest_first [OF d] newest_first_order [OF d] by simp
qed

section \<open>What the service stores\<close>

lemma api_audit_db [simp]: "ap_db (api_audit mp ev st) = ap_db st" "ap_db (emit_server_audit ax a u s st) = ap_db st"
  by (simp_all add: api_audit_def emit_server_audit_def)

lemma with_db_eq: "with_db f st = (r, st') \<longleftrightarrow> r = fst (f (ap_db st)) \<and> st' = st\<lparr>ap_db := snd (f (ap_db st))\<rparr>"
  by (cases "f (ap_db st)") (auto simp: with_db_def)

lemma config_roundtrip [simp]: "server_config_from (config_to_value cf) = Some cf"
  by (cases cf) (simp add: config_to_value_def split: option.split)

lemma failed_statements:
  "fst (insert_server x u n sl d c db) = Inl e \<Longrightarrow> snd (insert_server x u n sl d c db) = db"
  "fst (update_server_stmt x n d c stt sid u db) = Inl e \<Longrightarrow> snd (update_server_stmt x n d c stt sid u db) = db"
  by (auto simp: stmt_defs Let_def split: option.splits if_splits)

lemma create_attempts_db:
  "create_attempts ax n tries l u dn d c st = (r, st') \<Longrightarrow>
     ap_db st' = ap_db st \<or> (\<exists>x sl. ap_db st' = snd (insert_server x u dn sl d c (ap_db st)))"
proof (induction n arbitrary: l st)
  case (Suc n)
  let ?i = "insert_server (snd (tries n)) u dn (generate_slug ax (fst (tries n)) dn) d c"
  obtain ir st1 where i: "with_db (?i) st = (ir, st1)" by (cases "with_db ?i st")
  then have s1: "ap_db st1 = snd (?i (ap_db st))" "ir = fst (?i (ap_db st))" by (auto simp: with_db_eq)
  show ?case
  proof (cases ir)
    case (Inl e)
    then have "ap_db st1 = ap_db st" using s1 failed_statements(1) by metis
    moreover have "create_attempts ax n tries (Some (InternalServerError ''slug collision after max retries'')) u dn d c st1 = (r, st')
        \<or> st' = st1"
      using Suc.prems i Inl by (auto simp: Let_def split: sql_error.splits option.splits if_splits)
    ultimately show ?thesis using Suc.IH [of _ st1] by auto
  next
    case (Inr row)
    then have "ap_db st' = ap_db st1" using Suc.prems i by (auto simp: Let_def split: sum.splits)
    with s1(1) show ?thesis by auto
  qed
qed simp

lemma update_server_db:
  assumes "update_server ax xs u sid dn d c act st = (r, st')"
  shows "ap_db st' = ap_db st \<or> (\<exists>cur new. find (owned_by u sid) (t_servers (ap_db st)) = Some cur \<and>
    new = merge_update dn d c act cur \<and>
    ap_db st' = snd (update_server_stmt (xs 1) (mg_name new) (mg_description new) (mg_config_json new) (mg_status new) sid u (ap_db st)))"
proof (cases "select_server (xs 0) sid u (ap_db st)")
  case (Inr found)
  show ?thesis
  proof (cases found)
    case (Some cur)
    have f: "find (owned_by u sid) (t_servers (ap_db st)) = Some cur"
      using Inr Some by (auto simp: select_server_def run_stmt_def split: option.splits)
    let ?new = "merge_update dn d c act cur"
    obtain ur st1 where w: "with_db (update_server_stmt (xs 1) (mg_name ?new) (mg_description ?new) (mg_config_json ?new)
        (mg_status ?new) sid u) st = (ur, st1)" by (meson surj_pair)
    then have "ap_db st' = ap_db st1" using assms Inr Some by (auto simp: update_server_def Let_def split: sum.splits)
    with w f show ?thesis by (auto simp: with_db_eq)
  qed (use assms Inr in \<open>simp add: update_server_def\<close>)
qed (use assms in \<open>simp add: update_server_def\<close>)

lemma delete_server_db:
  assumes "delete_server ax x u sid st = (r, st')"
  shows "ap_db st' = snd (delete_server_stmt x sid u (ap_db st))"
proof -
  obtain dr st1 where w: "with_db (delete_server_stmt x sid u) st = (dr, st1)" by (meson surj_pair)
  then have "ap_db st' = ap_db st1" using assms by (auto simp: delete_server_def split: sum.splits if_splits)
  with w show ?thesis by (auto simp: with_db_eq)
qed

text \<open>The configurations that \<open>create_server_handler\<close> and \<open>update_server_handler\<close> let through.\<close>

definition configs_ok :: "('u, 'n, 'm, 'c) api_ext \<Rightarrow> api_db \<Rightarrow> bool" where
  "configs_ok ax db \<longleftrightarrow> (\<forall>s \<in> set (t_servers db). \<exists>cf. server_config_from (sv_config_json s) = Some cf \<and> validate_config_ssrf ax cf = Inr ())"

lemma configs_ok_readable: "configs_ok ax db \<Longrightarrow> configs_readable db"
  by (auto simp: configs_ok_def configs_readable_def)

lemma create_handler_db:
  assumes "create_server_handler ax tries u body st = (r, st')"
  shows "ap_db st' = ap_db st \<or> (\<exists>x sl. validate_config_ssrf ax (cq_config body) = Inr () \<and>
    ap_db st' = snd (insert_server x u (cq_display_name body) sl (cq_description body) (config_to_value (cq_config body)) (ap_db st)))"
proof (cases "and_then (validate_display_name (cq_display_name body)) (\<lambda>_. validate_config_ssrf ax (cq_config body))")
  case (Inr v)
  then have "validate_config_ssrf ax (cq_config body) = Inr ()" by (auto simp: and_then_eq_Inr)
  moreover have "create_attempts ax 5 tries None u (cq_display_name body) (cq_description body)
      (config_to_value (cq_config body)) st = (r, st')"
    using assms Inr by (simp add: create_server_handler_def create_server_def)
  ultimately show ?thesis using create_attempts_db by blast
qed (use assms in \<open>simp add: create_server_handler_def\<close>)

lemma insert_server_configs:
  assumes "configs_ok ax db" "validate_config_ssrf ax cf = Inr ()"
  shows "configs_ok ax (snd (insert_server x u n sl d (config_to_value cf) db))"
  using assms by (auto simp: stmt_defs configs_ok_def Let_def split: option.split)

lemma update_handler_db:
  assumes "update_server_handler ax xs u sid body st = (r, st')"
  shows "ap_db st' = ap_db st \<or> (\<exists>cur new. find (owned_by u sid) (t_servers (ap_db st)) = Some cur \<and>
    new = merge_update (uq_display_name body) (map_option Some (uq_description body)) (map_option config_to_value (uq_config body))
      (uq_is_active body) cur \<and>
    (case uq_config body of Some cf \<Rightarrow> validate_config_ssrf ax cf = Inr () | None \<Rightarrow> True) \<and>
    ap_db st' = snd (update_server_stmt (xs 1) (mg_name new) (mg_description new) (mg_config_json new) (mg_status new) sid u (ap_db st)))"
proof (cases "and_then (case uq_display_name body of Some dn \<Rightarrow> validate_display_name dn | None \<Rightarrow> Inr ()) (\<lambda>_.
    case uq_config body of Some cfg \<Rightarrow> validate_config_ssrf ax cfg | None \<Rightarrow> Inr ())")
  case (Inr v)
  then have "case uq_config body of Some cf \<Rightarrow> validate_config_ssrf ax cf = Inr () | None \<Rightarrow> True"
    by (auto simp: and_then_eq_Inr split: option.splits)
  moreover have "update_server ax xs u sid (uq_display_name body) (map_option Some (uq_description body))
      (map_option config_to_value (uq_config body)) (uq_is_active body) st = (r, st')"
    using assms Inr by (simp add: update_server_handler_def)
  ultimately show ?thesis using update_server_db by blast
qed (use assms in \<open>simp add: update_server_handler_def\<close>)

lemma update_server_configs:
  assumes "configs_ok ax db" "\<exists>cf. server_config_from j = Some cf \<and> validate_config_ssrf ax cf = Inr ()"
  shows "configs_ok ax (snd (update_server_stmt x n d j stt sid u db))"
  using assms by (auto simp: stmt_defs configs_ok_def updated_server_def Let_def split: option.split)

lemma update_handler_configs:
  assumes "configs_ok ax (ap_db st)" "update_server_handler ax xs u sid body st = (r, st')"
  shows "configs_ok ax (ap_db st')"
  using update_handler_db [OF assms(2)]
proof (elim disjE exE conjE)
  fix cur new assume cur: "find (owned_by u sid) (t_servers (ap_db st)) = Some cur"
    and new: "new = merge_update (uq_display_name body) (map_option Some (uq_description body))
      (map_option config_to_value (uq_config body)) (uq_is_active body) cur"
    and cf: "case uq_config body of Some cf \<Rightarrow> validate_config_ssrf ax cf = Inr () | None \<Rightarrow> True"
    and db: "ap_db st' = snd (update_server_stmt (xs 1) (mg_name new) (mg_description new) (mg_config_json new) (mg_status new) sid u (ap_db st))"
  have "cur \<in> set (t_servers (ap_db st))" using cur by (auto simp: find_Some_iff)
  then have "\<exists>cf. server_config_from (mg_config_json new) = Some cf \<and> validate_config_ssrf ax cf = Inr ()"
    using assms(1) cf new by (auto simp: merge_update_def configs_ok_def split: option.split)
  then show ?thesis unfolding db by (rule update_server_configs [OF assms(1)])
qed (use assms(1) in simp)

text \<open>An insert that meets no violation.\<close>

definition new_server_row :: "stmt \<Rightarrow> uuid \<Rightarrow> string \<Rightarrow> string \<Rightarrow> string option \<Rightarrow> json \<Rightarrow> server_row" where
  "new_server_row x u name slug description config_json =
     \<lparr>sv_id = sm_uuid x, sv_user_id = u, sv_name = name, sv_slug = slug, sv_description = description,
      sv_config_json = config_json, sv_status = ''active'', sv_created_at = sm_now x, sv_updated_at = sm_now x,
      sv_config_version = 1\<rparr>"

definition added_server :: "server_row \<Rightarrow> api_db \<Rightarrow> api_db" where
  "added_server row db = db\<lparr>t_servers := t_servers db @ [row], t_notices := t_notices db @ [Server_Changed (sv_id row) ''insert'' 1]\<rparr>"

definition slug_taken :: "uuid \<Rightarrow> string \<Rightarrow> api_db \<Rightarrow> bool" where
  "slug_taken u slug db \<longleftrightarrow> (\<exists>s \<in> set (t_servers db). sv_user_id s = u \<and> sv_slug s = slug)"

lemma insert_server_result:
  assumes "sm_error x = None" "sm_uuid x \<notin> sv_id ` set (t_servers db)" "u \<in> us_id ` set (t_users db)"
  shows "insert_server x u n slug d c db =
    (if slug_taken u slug db then (Inl (violation ''mcp_servers_user_id_slug_key''), db)
     else (Inr (new_server_row x u n slug d c), added_server (new_server_row x u n slug d c) db))"
  using assms by (auto simp: insert_server_def run_stmt_def slug_taken_def new_server_row_def added_server_def Let_def image_iff)

definition good_try :: "api_db \<Rightarrow> stmt \<Rightarrow> bool" where
  "good_try db x \<longleftrightarrow> sm_error x = None \<and> sm_uuid x \<notin> sv_id ` set (t_servers db)"

lemma contains_refl: "contains_str p p"
  by (cases p) (auto simp: starts_with_def)

lemma create_attempts_result:
  assumes "u \<in> us_id ` set (t_users (ap_db st))"
  shows "\<forall>i < n. good_try (ap_db st) (snd (tries i)) \<Longrightarrow>
    (if \<exists>i < n. \<not> slug_taken u (generate_slug ax (fst (tries i)) dn) (ap_db st)
     then (\<exists>i < n. \<exists>resp. row_to_server_response ax
            (new_server_row (snd (tries i)) u dn (generate_slug ax (fst (tries i)) dn) d (config_to_value cf)) = Inr resp \<and>
          \<not> slug_taken u (generate_slug ax (fst (tries i)) dn) (ap_db st) \<and>
          create_attempts ax n tries l u dn d (config_to_value cf) st = (Inr resp, emit_server_audit ax ServerCreate u (sr_id resp)
            (st\<lparr>ap_db := added_server (new_server_row (snd (tries i)) u dn (generate_slug ax (fst (tries i)) dn) d (config_to_value cf)) (ap_db st)\<rparr>)))
     else create_attempts ax n tries l u dn d (config_to_value cf) st =
       (Inl (if n = 0 then (case l of Some e \<Rightarrow> e | None \<Rightarrow> InternalServerError ''slug generation exhausted all retries'')
         else InternalServerError ''slug collision after max retries''), st))"
proof (induction n arbitrary: l)
  case (Suc n)
  let ?slug = "\<lambda>i. generate_slug ax (fst (tries i)) dn"
  have g: "sm_error (snd (tries n)) = None" "sm_uuid (snd (tries n)) \<notin> sv_id ` set (t_servers (ap_db st))"
    using Suc.prems by (auto simp: good_try_def)
  note ins = insert_server_result [OF g assms, of dn "?slug n" d "config_to_value cf"]
  show ?case
  proof (cases "slug_taken u (?slug n) (ap_db st)")
    case True
    have step: "create_attempts ax (Suc n) tries l u dn d (config_to_value cf) st =
        create_attempts ax n tries (Some (InternalServerError ''slug collision after max retries'')) u dn d (config_to_value cf) st"
      using True ins by (simp add: with_db_def violation_def contains_refl)
    have ex: "(\<exists>i < Suc n. \<not> slug_taken u (?slug i) (ap_db st)) \<longleftrightarrow> (\<exists>i < n. \<not> slug_taken u (?slug i) (ap_db st))"
      using True less_Suc_eq by auto
    have "\<forall>i < n. good_try (ap_db st) (snd (tries i))" using Suc.prems by simp
    from Suc.IH [OF this, of "Some (InternalServerError ''slug collision after max retries'')"] show ?thesis
      unfolding step ex by (auto split: if_splits intro: less_SucI)
  next
    case False
    let ?row = "new_server_row (snd (tries n)) u dn (?slug n) d (config_to_value cf)"
    obtain resp where r: "row_to_server_response ax ?row = Inr resp"
      by (simp add: row_to_server_response_def new_server_row_def)
    then have "create_attempts ax (Suc n) tries l u dn d (config_to_value cf) st =
        (Inr resp, emit_server_audit ax ServerCreate u (sr_id resp) (st\<lparr>ap_db := added_server ?row (ap_db st)\<rparr>))"
      using False ins by (simp add: with_db_def)
    with False r show ?thesis by auto
  qed
qed simp

text \<open>
  C25: Creating a server. The request is tried with at most five slugs; it succeeds exactly if one of
  them is free among the user's servers, and otherwise reports the collision and changes nothing. The new server has the name,
  description and configuration of the request, is active, and a read by its owner returns exactly the response of the creation;
  one notification with version 1 goes to the gateways.
\<close>

theorem create_server_result:
  assumes "db_ok (ap_db st)" "u \<in> us_id ` set (t_users (ap_db st))"
    and "\<forall>i < 5. good_try (ap_db st) (snd (tries i))" "sm_error x = None"
    and "create_server ax tries u dn d (config_to_value cf) st = (r, st')"
  shows "if \<exists>i < 5. \<not> slug_taken u (generate_slug ax (fst (tries i)) dn) (ap_db st)
    then (\<exists>resp i. r = Inr resp \<and> i < 5 \<and> sr_slug resp = generate_slug ax (fst (tries i)) dn \<and> \<not> slug_taken u (sr_slug resp) (ap_db st) \<and>
      sr_display_name resp = dn \<and> sr_description resp = d \<and> sr_config resp = cf \<and> sr_is_active resp \<and>
      sr_mcp_url resp = ax_gateway_base_url ax @ ''/mcp/'' @ sr_slug resp \<and>
      get_server ax x u (sr_id resp) (ap_db st') = Inr resp \<and>
      t_notices (ap_db st') = t_notices (ap_db st) @ [Server_Changed (sr_id resp) ''insert'' 1])
    else r = Inl (InternalServerError ''slug collision after max retries'') \<and> st' = st"
proof (cases "\<exists>i < 5. \<not> slug_taken u (generate_slug ax (fst (tries i)) dn) (ap_db st)")
  case True
  let ?row = "\<lambda>i. new_server_row (snd (tries i)) u dn (generate_slug ax (fst (tries i)) dn) d (config_to_value cf)"
  obtain i resp where i: "i < 5" "row_to_server_response ax (?row i) = Inr resp"
    "\<not> slug_taken u (generate_slug ax (fst (tries i)) dn) (ap_db st)"
    and c: "r = Inr resp" "st' = emit_server_audit ax ServerCreate u (sr_id resp) (st\<lparr>ap_db := added_server (?row i) (ap_db st)\<rparr>)"
    using create_attempts_result [OF assms(2), of 5 tries ax dn d cf None] assms(3,5) True
    by (auto simp: create_server_def)
  have resp: "sr_id resp = sm_uuid (snd (tries i))" "sr_slug resp = generate_slug ax (fst (tries i)) dn" "sr_display_name resp = dn"
    "sr_description resp = d" "sr_config resp = cf" "sr_is_active resp" "sr_mcp_url resp = ax_gateway_base_url ax @ ''/mcp/'' @ sr_slug resp"
    using i(2) by (auto simp: row_to_server_response_def new_server_row_def)
  have "sm_uuid (snd (tries i)) \<notin> sv_id ` set (t_servers (ap_db st))" using assms(3) i(1) by (simp add: good_try_def)
  then have "find (owned_by u (sr_id resp)) (t_servers (ap_db st')) = Some (?row i)"
    using assms(1) by (intro find_owned)
      (auto simp: c(2) added_server_def new_server_row_def resp(1) owned_by_def db_ok_def servers_ok_def)
  then have "get_server ax x u (sr_id resp) (ap_db st') = Inr resp"
    using i(2) assms(4) by (simp add: get_server_def select_server_def run_stmt_def)
  moreover have "t_notices (ap_db st') = t_notices (ap_db st) @ [Server_Changed (sr_id resp) ''insert'' 1]"
    by (simp add: c(2) added_server_def new_server_row_def resp(1))
  ultimately have "r = Inr resp \<and> i < 5 \<and> sr_slug resp = generate_slug ax (fst (tries i)) dn \<and> \<not> slug_taken u (sr_slug resp) (ap_db st) \<and>
      sr_display_name resp = dn \<and> sr_description resp = d \<and> sr_config resp = cf \<and> sr_is_active resp \<and>
      sr_mcp_url resp = ax_gateway_base_url ax @ ''/mcp/'' @ sr_slug resp \<and>
      get_server ax x u (sr_id resp) (ap_db st') = Inr resp \<and>
      t_notices (ap_db st') = t_notices (ap_db st) @ [Server_Changed (sr_id resp) ''insert'' 1]"
    using c(1) i(1,3) resp by simp
  then show ?thesis using True by (simp only: if_True) blast
next
  case False
  then show ?thesis
    using create_attempts_result [OF assms(2), of 5 tries ax dn d cf None] assms(3,5) by (simp add: create_server_def)
qed

lemma update_handler_success:
  assumes "update_server_handler ax xs u sid body st = (Inr resp, st')"
  obtains cur new where "find (owned_by u sid) (t_servers (ap_db st)) = Some cur"
    and "new = merge_update (uq_display_name body) (map_option Some (uq_description body))
      (map_option config_to_value (uq_config body)) (uq_is_active body) cur"
    and "row_to_server_response ax (updated_server (sm_now (xs 1)) (mg_name new) (mg_description new) (mg_config_json new)
      (mg_status new) cur) = Inr resp"
    and "ap_db st' = (ap_db st)\<lparr>t_servers := map (\<lambda>t. if owned_by u sid t then updated_server (sm_now (xs 1)) (mg_name new)
        (mg_description new) (mg_config_json new) (mg_status new) t else t) (t_servers (ap_db st)),
      t_notices := t_notices (ap_db st) @ [Server_Changed sid ''update'' (sv_config_version cur + 1)]\<rparr>"
proof -
  have h: "update_server ax xs u sid (uq_display_name body) (map_option Some (uq_description body))
      (map_option config_to_value (uq_config body)) (uq_is_active body) st = (Inr resp, st')"
    using assms by (simp add: update_server_handler_def split: sum.splits)
  obtain cur where "find (owned_by u sid) (t_servers (ap_db st)) = Some cur"
    using h by (cases "find (owned_by u sid) (t_servers (ap_db st))")
      (auto simp: update_server_def select_server_def run_stmt_def split: option.splits)
  with h that show thesis
    by (auto simp: update_server_def select_server_def update_server_stmt_def run_stmt_def with_db_def Let_def
        updated_server_def split: option.splits)
qed

text \<open>
  Updating a server. A successful update sets the fields of the request and keeps the others; it never changes the
  id, the slug, the owner or the creation time, leaves every other row alone, and counts the configuration version of the notification up by one.
  What it answers is what a read by the owner returns.
\<close>

theorem update_server_result:
  assumes "db_ok (ap_db st)" "update_server_handler ax xs u sid body st = (Inr resp, st')" "sm_error x = None"
  shows "\<exists>cur. cur \<in> set (t_servers (ap_db st)) \<and> owned_by u sid cur \<and>
    sr_id resp = sid \<and> sr_slug resp = sv_slug cur \<and> sr_created_at resp = sv_created_at cur \<and>
    sr_display_name resp = (case uq_display_name body of Some n \<Rightarrow> n | None \<Rightarrow> sv_name cur) \<and>
    sr_description resp = (case uq_description body of Some d \<Rightarrow> Some d | None \<Rightarrow> sv_description cur) \<and>
    Some (sr_config resp) = (case uq_config body of Some cf \<Rightarrow> Some cf | None \<Rightarrow> server_config_from (sv_config_json cur)) \<and>
    sr_is_active resp = (case uq_is_active body of Some b \<Rightarrow> b | None \<Rightarrow> sv_status cur = ''active'') \<and>
    get_server ax x u sid (ap_db st') = Inr resp \<and>
    filter (\<lambda>s. sv_id s \<noteq> sid) (t_servers (ap_db st')) = filter (\<lambda>s. sv_id s \<noteq> sid) (t_servers (ap_db st)) \<and>
    t_notices (ap_db st') = t_notices (ap_db st) @ [Server_Changed sid ''update'' (sv_config_version cur + 1)]"
proof -
  let ?db = "ap_db st"
  have d: "distinct (map sv_id (t_servers ?db))" using assms(1) by (simp add: db_ok_def servers_ok_def)
  obtain cur new where cur: "find (owned_by u sid) (t_servers ?db) = Some cur"
    and new: "new = merge_update (uq_display_name body) (map_option Some (uq_description body))
      (map_option config_to_value (uq_config body)) (uq_is_active body) cur"
    and r: "row_to_server_response ax (updated_server (sm_now (xs 1)) (mg_name new) (mg_description new) (mg_config_json new)
      (mg_status new) cur) = Inr resp"
    and db: "ap_db st' = ?db\<lparr>t_servers := map (\<lambda>t. if owned_by u sid t then updated_server (sm_now (xs 1)) (mg_name new)
        (mg_description new) (mg_config_json new) (mg_status new) t else t) (t_servers ?db),
      t_notices := t_notices ?db @ [Server_Changed sid ''update'' (sv_config_version cur + 1)]\<rparr>"
    by (rule update_handler_success [OF assms(2)])
  define row where "row = updated_server (sm_now (xs 1)) (mg_name new) (mg_description new) (mg_config_json new) (mg_status new) cur"
  note r = r [folded row_def] and new_def = new
  have c: "cur \<in> set (t_servers ?db)" "owned_by u sid cur" using cur by (auto simp: find_Some_iff)
  have "row \<in> set (t_servers (ap_db st'))" using c unfolding db row_def by auto
  moreover have "distinct (map sv_id (t_servers (ap_db st')))" using d unfolding db by (simp add: map_update_cols del: map_map)
  moreover have "owned_by u sid row" using c(2) by (simp add: row_def owned_by_def)
  ultimately have g: "get_server ax x u sid (ap_db st') = Inr resp"
    using r assms(3) by (simp add: get_server_def select_server_def run_stmt_def find_owned)
  have "filter (\<lambda>s. sv_id s \<noteq> sid) (map (\<lambda>t. if owned_by u sid t then updated_server n a b e f t else t) ss) =
      filter (\<lambda>s. sv_id s \<noteq> sid) ss" for n a b e f ss
    by (induction ss) (auto simp: owned_by_def)
  then have rest: "filter (\<lambda>s. sv_id s \<noteq> sid) (t_servers (ap_db st')) = filter (\<lambda>s. sv_id s \<noteq> sid) (t_servers ?db)" unfolding db by simp
  have "Some (sr_config resp) = server_config_from (mg_config_json new)"
    using r by (auto simp: row_to_server_response_def and_then_eq_Inr ok_or_eq_Inr row_def updated_server_def)
  then have "Some (sr_config resp) = (case uq_config body of Some cf \<Rightarrow> Some cf | None \<Rightarrow> server_config_from (sv_config_json cur))"
    by (auto simp: new_def merge_update_def split: option.splits)
  moreover have "sr_is_active resp = (case uq_is_active body of Some b \<Rightarrow> b | None \<Rightarrow> sv_status cur = ''active'')"
    using r by (auto simp: row_to_server_response_def and_then_eq_Inr row_def updated_server_def new_def merge_update_def split: option.splits bool.splits)
  moreover have "sr_id resp = sid" "sr_slug resp = sv_slug cur" "sr_created_at resp = sv_created_at cur"
    "sr_display_name resp = mg_name new" "sr_description resp = mg_description new"
    using r c(2) by (auto simp: row_to_server_response_def and_then_eq_Inr row_def updated_server_def owned_by_def)
  moreover have "mg_name new = (case uq_display_name body of Some n \<Rightarrow> n | None \<Rightarrow> sv_name cur)"
    "mg_description new = (case uq_description body of Some d \<Rightarrow> Some d | None \<Rightarrow> sv_description cur)"
    by (simp_all add: new_def merge_update_def split: option.split)
  ultimately show ?thesis using c g rest db by (intro exI [of _ cur]) simp
qed

text \<open>
  Two updates at the same time: when the second is written between the read and the write of the first, its name is
  lost, although the first did not ask for another name.
\<close>

theorem concurrent_update_lost:
  assumes "find (owned_by u sid) (t_servers db) = Some cur" "sm_error x1 = None" "sm_error x2 = None"
    and "first = merge_update None (Some d) None None cur" "second = merge_update (Some n) None None None cur"
    and "db1 = snd (update_server_stmt x1 (mg_name second) (mg_description second) (mg_config_json second) (mg_status second) sid u db)"
    and "db2 = snd (update_server_stmt x2 (mg_name first) (mg_description first) (mg_config_json first) (mg_status first) sid u db1)"
  shows "\<exists>s1 s2. find (owned_by u sid) (t_servers db1) = Some s1 \<and> sv_name s1 = n \<and>
    find (owned_by u sid) (t_servers db2) = Some s2 \<and> sv_name s2 = sv_name cur"
proof -
  have f: "find (owned_by u sid) (map (\<lambda>t. if owned_by u sid t then updated_server w a b c e t else t) ss) =
      map_option (updated_server w a b c e) (find (owned_by u sid) ss)" for w a b c e ss
    by (induction ss) (auto simp: owned_by_def)
  show ?thesis
    using assms by (auto simp: update_server_stmt_def run_stmt_def Let_def f updated_server_def merge_update_def simp del: map_map)
qed

section \<open>Examples\<close>

definition sample_ax :: "(unit, u32 \<times> nat, ip6 \<times> nat, nat \<times> audit_event list) api_ext" where
  "sample_ax =
     \<lparr>ax_mpsc = queue_mpsc, ax_lowercase = to_ascii_lowercase, ax_alphanumeric = (\<lambda>_. True), ax_ipnet = prefix_ipnet,
      ax_url = \<lparr>su_scheme = (\<lambda>_. ''https''), su_port = (\<lambda>_. None), su_port_or_known_default = (\<lambda>_. Some 443),
        su_host = (\<lambda>_. Some (Host_Domain ''example.com'')), su_to_string = (\<lambda>_. ''https://example.com''), su_ip_text = (\<lambda>_. [])\<rparr>,
      ax_parse_url = (\<lambda>_. Some ()), ax_serde_error = (\<lambda>_. ''bad''), ax_gateway_base_url = ''https://g''\<rparr>"

definition sample_stmt :: "nat \<Rightarrow> stmt" where
  "sample_stmt k = \<lparr>sm_error = None, sm_uuid = of_nat k, sm_now = int k\<rparr>"

definition sample_db :: api_db where
  "sample_db =
     \<lparr>t_users = [\<lparr>us_id = 1, us_clerk_id = ''c'', us_email = ''e'', us_created_at = 0, us_updated_at = 0\<rparr>],
      t_servers = [\<lparr>sv_id = 7, sv_user_id = 1, sv_name = ''n'', sv_slug = ''n-1'', sv_description = None, sv_config_json = Object [],
        sv_status = ''active'', sv_created_at = 1, sv_updated_at = 1, sv_config_version = 1\<rparr>],
      t_credentials = [], t_tokens = [], t_notices = []\<rparr>"

lemma sample_db_ok: "db_ok sample_db"
  by (simp add: db_ok_def users_ok_def servers_ok_def credentials_ok_def tokens_ok_def sample_db_def)

definition sample_api :: "(nat \<times> audit_event list, audit_row list) api_state" where
  "sample_api = \<lparr>ap_db = sample_db, ap_audit = audit_logger_new queue_mpsc []\<rparr>"

theorem slug_shape_witness: "length (generate_slug sample_ax ''aB3x'' ''My API_1'') \<le> 50"
proof -
  have "to_ascii_lowercase ''My API_1'' = ''my api_1''" by code_simp
  then have a: "ax_lowercase sample_ax ''My API_1'' = ''my api_1''" by (simp add: sample_ax_def)
  then have "list_all char_ok (utf8_chars (ax_lowercase sample_ax ''My API_1''))" by code_simp
  moreover have "is_ascii_str (ax_lowercase sample_ax ''My API_1'')" unfolding a by simp
  moreover have "list_all is_ascii_alphanumeric ''aB3x''" by code_simp
  ultimately show ?thesis using slug_shape [of sample_ax "''My API_1''" "''aB3x''"] by simp
qed

theorem pages_list_every_server_witness:
  "map sr_id (walk_pages sample_ax sample_stmt 1 None 1 None sample_db) = [7]"
proof -
  have "configs_readable sample_db" by (simp add: configs_readable_def sample_db_def)
  from pages_list_every_server [OF sample_db_ok this, of sample_stmt None 1 1 sample_ax] show ?thesis
    by (simp add: sample_stmt_def page_limit_def servers_of_def newest_first_def sample_db_def)
qed

theorem create_server_result_witness:
  "\<exists>resp st'. create_server sample_ax (\<lambda>i. (''aaaa'', sample_stmt (20 + i))) 1 ''n'' None (config_to_value \<lparr>cf_upstream_base_url = None\<rparr>)
      sample_api = (Inr resp, st') \<and> get_server sample_ax (sample_stmt 0) 1 (sr_id resp) (ap_db st') = Inr resp"
proof -
  obtain r st' where c: "create_server sample_ax (\<lambda>i. (''aaaa'', sample_stmt (20 + i))) 1 ''n'' None
      (config_to_value \<lparr>cf_upstream_base_url = None\<rparr>) sample_api = (r, st')" by (meson surj_pair)
  have slug: "generate_slug sample_ax ''aaaa'' ''n'' = ''n-aaaa''" by code_simp
  have db: "ap_db sample_api = sample_db" by (simp add: sample_api_def)
  have free: "\<not> slug_taken 1 (generate_slug sample_ax ''aaaa'' ''n'') sample_db"
    unfolding slug by (simp add: slug_taken_def sample_db_def)
  have good: "good_try sample_db (sample_stmt (20 + i))" if "i < 5" for i
    using that by (auto simp: good_try_def sample_stmt_def sample_db_def word_of_nat_eq_iff less_Suc_eq numeral_eq_Suc take_bit_Suc)
  have ex: "\<exists>i :: nat. i < 5" by (intro exI [of _ 0]) simp
  have err: "sm_error (sample_stmt 0) = None" by (simp add: sample_stmt_def)
  have "1 \<in> us_id ` set (t_users sample_db)" by (simp add: sample_db_def)
  from create_server_result [of sample_api 1 "\<lambda>i. (''aaaa'', sample_stmt (20 + i))" "sample_stmt 0", OF _ _ _ _ c, unfolded db fst_conv snd_conv,
      OF sample_db_ok this] good free ex err
  have "\<exists>resp. r = Inr resp \<and> get_server sample_ax (sample_stmt 0) 1 (sr_id resp) (ap_db st') = Inr resp" by auto
  with c show ?thesis by blast
qed

theorem update_server_result_witness:
  "\<exists>resp st'. update_server_handler sample_ax sample_stmt 1 7
      \<lparr>uq_display_name = None, uq_description = Some ''d'', uq_config = None, uq_is_active = None\<rparr> sample_api = (Inr resp, st') \<and>
      sr_slug resp = ''n-1'' \<and> get_server sample_ax (sample_stmt 0) 1 7 (ap_db st') = Inr resp"
proof -
  let ?body = "\<lparr>uq_display_name = None, uq_description = Some ''d'', uq_config = None, uq_is_active = None\<rparr>"
  obtain resp st' where h: "update_server_handler sample_ax sample_stmt 1 7 ?body sample_api = (Inr resp, st')"
    by (simp add: update_server_handler_def update_server_def select_server_def run_stmt_def sample_stmt_def sample_api_def sample_db_def
        owned_by_def with_db_def update_server_stmt_def row_to_server_response_def updated_server_def merge_update_def Let_def)
  have "db_ok (ap_db sample_api)" by (simp add: sample_api_def sample_db_ok)
  from update_server_result [OF this h, of "sample_stmt 0"] obtain cur where
    "cur \<in> set (t_servers (ap_db sample_api))" "sr_slug resp = sv_slug cur"
    "get_server sample_ax (sample_stmt 0) 1 7 (ap_db st') = Inr resp" by (auto simp: sample_stmt_def)
  with h show ?thesis by (auto simp: sample_api_def sample_db_def)
qed

end
