(* ===== verification/Injector.thy ===== *)
theory Injector
  imports Crypto Ssrf Audit_Log
begin

text \<open>
  The credential injector (\<open>services/credential-injector\<close>): \<open>inject.rs\<close>, whose handler checks the
  caller, looks the credential up, decrypts it, checks the URL and sends the upstream request with the
  credential in it; \<open>cache.rs\<close>, the cache of encrypted credentials; and \<open>notify.rs\<close>, which evicts
  an entry when the platform API announces a rotation. The LRU cache, the URL parser, base64, the HTTP
  client and the database are parameters.
\<close>

section \<open>Data\<close>

definition INJECTOR_CACHE_CAPACITY :: nat where "INJECTOR_CACHE_CAPACITY = 10000"
definition RECONNECT_DELAY_SECS :: nat where "RECONNECT_DELAY_SECS = 5"

record cached_credential =
  cr_encrypted_payload :: bytes
  cr_auth_type :: string
  cr_key_name :: "string option"

record request_skeleton =
  sk_server_id :: uuid
  sk_method :: string
  sk_url :: string
  sk_headers :: "(string \<times> string) list"
  sk_body :: "json option"

record inject_response =
  ir_status :: u16
  ir_body :: json
  ir_headers :: "string \<rightharpoonup> string"

text \<open>
  The upstream request as it leaves: \<open>RequestBuilder::header\<close> adds a header and keeps the ones with the same
  name, \<open>query\<close> adds pairs to the URL's query. The headers of the skeleton are in the order its hash map
  yields them; the client adds a content type for a JSON body itself.
\<close>

record upstream_call =
  uc_method :: string
  uc_url :: string
  uc_headers :: "(string \<times> string) list"
  uc_query :: "(string \<times> string) list"
  uc_body :: "json option"

datatype send_error = Send_Timeout | Send_Failed string

record upstream_reply =
  rp_status :: u16
  rp_headers :: "(string \<times> string option) list"
  rp_json :: "json option"

text \<open>The columns of a row as \<open>try_get\<close> reads them: a value or the text of an error.\<close>

record credential_row =
  cw_encrypted_payload :: "string + bytes"
  cw_auth_type :: "string + string"
  cw_key_name :: "string + string option"

record 'l lru_api =
  lru_new :: "nat \<Rightarrow> 'l"
  lru_get :: "uuid \<Rightarrow> 'l \<Rightarrow> cached_credential option \<times> 'l"
  lru_put :: "uuid \<Rightarrow> cached_credential \<Rightarrow> 'l \<Rightarrow> 'l"
  lru_pop :: "uuid \<Rightarrow> 'l \<Rightarrow> 'l"

text \<open>What the \<open>lru\<close> crate documents; \<open>held c\<close> are the entries of the cache \<open>c\<close>.\<close>

definition lru_ok :: "'l lru_api \<Rightarrow> ('l \<Rightarrow> uuid \<Rightarrow> cached_credential option) \<Rightarrow> bool" where
  "lru_ok lr held \<longleftrightarrow>
     (\<forall>n k. held (lru_new lr n) k = None) \<and>
     (\<forall>k c. fst (lru_get lr k c) = held c k \<and> held (snd (lru_get lr k c)) = held c) \<and>
     (\<forall>k v c. held (lru_put lr k v c) k = Some v \<and>
        (\<forall>j. j \<noteq> k \<longrightarrow> held (lru_put lr k v c) j = held c j \<or> held (lru_put lr k v c) j = None)) \<and>
     (\<forall>k c. held (lru_pop lr k c) = (held c)(k := None))"

definition new_cache :: "'l lru_api \<Rightarrow> 'l" where
  "new_cache lr = lru_new lr (if INJECTOR_CACHE_CAPACITY \<noteq> 0 then INJECTOR_CACHE_CAPACITY else 1)"

record inject_config =
  jc_crypto_key :: crypto_key
  jc_allowed_ips :: "ip_addr list"
  jc_shared_secret :: string
  jc_skip_ssrf :: bool

text \<open>\<open>is_db_reads\<close> and \<open>is_sent\<close> record the queries and the upstream requests.\<close>

record ('l, 'c, 'd) inject_state =
  is_cache :: 'l
  is_audit :: "('c, 'd) audit_state"
  is_db_reads :: "uuid list"
  is_sent :: "upstream_call list"

record ('u, 'n, 'm, 'l, 'c) inject_ext =
  jx_gcm :: gcm_api
  jx_lru :: "'l lru_api"
  jx_ipnet :: "('n, 'm) ipnet_api"
  jx_url :: "'u ssrf_url_api"
  jx_parse_url :: "string \<Rightarrow> 'u option"
  jx_method_ok :: "string \<Rightarrow> bool"
  jx_base64 :: "string \<Rightarrow> string"
  jx_mpsc :: "(audit_event, 'c) mpsc_api"

text \<open>What one request meets outside: the database, the resolver and the upstream.\<close>

record inject_env =
  je_query :: "uuid \<Rightarrow> string + credential_row option"
  je_dns_timeout :: "string option"
  je_dns :: "string \<Rightarrow> u64 \<Rightarrow> dns_answer"
  je_send :: "upstream_call \<Rightarrow> send_error + upstream_reply"

text \<open>\<open>build_app_state\<close>, less the handles of the pool, the cache, the audit log and the HTTP client.\<close>

definition build_app_state :: "crypto_key \<Rightarrow> ip_addr list \<Rightarrow> string \<Rightarrow> inject_config" where
  "build_app_state crypto_key allowed_ips shared_secret =
     \<lparr>jc_crypto_key = crypto_key, jc_allowed_ips = allowed_ips, jc_shared_secret = shared_secret, jc_skip_ssrf = False\<rparr>"

section \<open>The caller\<close>

type_synonym header_values = "(string \<times> string option) list"

definition inject_bearer_token :: "header_values \<Rightarrow> unit + string" where
  "inject_bearer_token hs =
     and_then (ok_or () (map_of hs ''authorization'')) (\<lambda>value.
     and_then (ok_or () value) (\<lambda>auth_value.
     ok_or () (strip_prefix ''Bearer '' auth_value)))"

definition check_caller ::
  "('u, 'n, 'm, 'l, 'c) inject_ext \<Rightarrow> inject_config \<Rightarrow> ip_addr \<Rightarrow> header_values \<Rightarrow> app_error + unit" where
  "check_caller jx config caller_ip hs =
     (if caller_ip \<notin> set (jc_allowed_ips config) then
        Inl (Forbidden (''caller IP '' @ su_ip_text (jx_url jx) caller_ip @ '' is not in the allowed list''))
      else
        and_then (map_err (\<lambda>_. Forbidden ''missing or invalid Authorization header'') (inject_bearer_token hs)) (\<lambda>provided_secret.
        if provided_secret \<noteq> jc_shared_secret config then Inl (Forbidden ''invalid shared secret'') else Inr ()))"

section \<open>The credential\<close>

definition credential_of_row :: "credential_row \<Rightarrow> app_error + cached_credential" where
  "credential_of_row row =
     and_then (map_err (\<lambda>e. InternalServerError (''row decode encrypted_payload: '' @ e)) (cw_encrypted_payload row)) (\<lambda>payload.
     and_then (map_err (\<lambda>e. InternalServerError (''row decode auth_type: '' @ e)) (cw_auth_type row)) (\<lambda>auth_type.
     and_then (map_err (\<lambda>e. InternalServerError (''row decode key_name: '' @ e)) (cw_key_name row)) (\<lambda>key_name.
     Inr \<lparr>cr_encrypted_payload = payload, cr_auth_type = auth_type, cr_key_name = key_name\<rparr>)))"

definition fetch_credential ::
  "(uuid \<Rightarrow> string + credential_row option) \<Rightarrow> uuid \<Rightarrow> app_error + cached_credential" where
  "fetch_credential query server_id =
     and_then (map_err (\<lambda>e. InternalServerError (''credential DB lookup failed: '' @ e)) (query server_id)) (\<lambda>found.
     and_then (ok_or CredentialNotFound found) credential_of_row)"

definition lookup_credential ::
  "('u, 'n, 'm, 'l, 'c) inject_ext \<Rightarrow> inject_env \<Rightarrow> uuid \<Rightarrow> ('l, 'c, 'd) inject_state
   \<Rightarrow> (app_error + cached_credential) \<times> ('l, 'c, 'd) inject_state" where
  "lookup_credential jx env server_id st =
     (let (cached, cache1) = lru_get (jx_lru jx) server_id (is_cache st);
          st1 = st\<lparr>is_cache := cache1\<rparr>
      in case cached of
           Some c \<Rightarrow> (Inr c, st1)
         | None \<Rightarrow>
             let st2 = st1\<lparr>is_db_reads := is_db_reads st1 @ [server_id]\<rparr> in
             (case fetch_credential (je_query env) server_id of
                Inl e \<Rightarrow> (Inl e, st2)
              | Inr cred \<Rightarrow> (Inr cred, st2\<lparr>is_cache := lru_put (jx_lru jx) server_id cred (is_cache st2)\<rparr>)))"

section \<open>The upstream request\<close>

text \<open>\<open>std::str::from_utf8\<close>.\<close>

function utf8_valid :: "nat list \<Rightarrow> bool" where
  "utf8_valid bs = (if bs = [] then True else let (ok, n) = utf8_step bs in ok \<and> utf8_valid (drop n bs))"
  by pat_completeness auto
termination
proof (relation "measure length")
  fix bs :: "nat list" and x ok n
  assume "bs \<noteq> []" "x = utf8_step bs" "(ok, n) = x"
  then show "(drop n bs, bs) \<in> measure length" using utf8_step_pos [of bs] by (cases "utf8_step bs") auto
qed simp

declare utf8_valid.simps [simp del]

definition from_utf8 :: "bytes \<Rightarrow> string option" where
  "from_utf8 bs = (if utf8_valid (map unat bs) then Some (map (\<lambda>b. char_of (unat b)) bs) else None)"

definition inject_auth ::
  "(string \<Rightarrow> string) \<Rightarrow> cached_credential \<Rightarrow> string \<Rightarrow> upstream_call \<Rightarrow> app_error + upstream_call" where
  "inject_auth base64 credential plaintext call =
     (if cr_auth_type credential = ''bearer'' then
        Inr (call\<lparr>uc_headers := uc_headers call @ [(''Authorization'', ''Bearer '' @ plaintext)]\<rparr>)
      else if cr_auth_type credential = ''api_key_header'' then
        let name = (case cr_key_name credential of Some n \<Rightarrow> n | None \<Rightarrow> ''X-Api-Key'') in
        Inr (call\<lparr>uc_headers := uc_headers call @ [(name, plaintext)]\<rparr>)
      else if cr_auth_type credential = ''api_key_query'' then
        let name = (case cr_key_name credential of Some n \<Rightarrow> n | None \<Rightarrow> ''api_key'') in
        Inr (call\<lparr>uc_query := uc_query call @ [(name, plaintext)]\<rparr>)
      else if cr_auth_type credential = ''basic'' then
        Inr (call\<lparr>uc_headers := uc_headers call @ [(''Authorization'', ''Basic '' @ base64 plaintext)]\<rparr>)
      else Inl (InternalServerError (''unknown auth_type in stored credential: '' @ cr_auth_type credential)))"

text \<open>Steps 4 to 6: the request that will be sent, or the error.\<close>

definition build_call ::
  "('u, 'n, 'm, 'l, 'c) inject_ext \<Rightarrow> inject_config \<Rightarrow> inject_env \<Rightarrow> request_skeleton \<Rightarrow> cached_credential
   \<Rightarrow> app_error + upstream_call" where
  "build_call jx config env skeleton credential =
     and_then (map_err (\<lambda>_. InternalServerError ''credential decryption failed'')
       (decrypt (jx_gcm jx) (jc_crypto_key config) (cr_encrypted_payload credential))) (\<lambda>plaintext.
     and_then (ok_or (BadRequest (''invalid upstream URL: '' @ sk_url skeleton)) (jx_parse_url jx (sk_url skeleton))) (\<lambda>parsed_url.
     and_then (if jc_skip_ssrf config then Inr ()
        else validate_url_with_dns (jx_ipnet jx) (jx_url jx) (je_dns_timeout env) (je_dns env) parsed_url) (\<lambda>_.
     and_then (if jx_method_ok jx (sk_method skeleton) then Inr ()
        else Inl (BadRequest (''invalid HTTP method: '' @ sk_method skeleton))) (\<lambda>_.
     and_then (ok_or (InternalServerError ''credential value is not valid UTF-8'') (from_utf8 plaintext)) (\<lambda>plaintext_str.
     and_then (inject_auth (jx_base64 jx) credential plaintext_str
        \<lparr>uc_method = sk_method skeleton, uc_url = sk_url skeleton, uc_headers = sk_headers skeleton, uc_query = [],
         uc_body = None\<rparr>) (\<lambda>call.
     Inr (call\<lparr>uc_body := sk_body skeleton\<rparr>)))))))"

definition access_event :: "uuid \<Rightarrow> u16 \<Rightarrow> audit_event" where
  "access_event server_id upstream_status =
     \<lparr>av_action = CredentialAccess, av_user_id = None, av_server_id = Some server_id, av_success = True,
      av_error_msg = None,
      av_metadata = Some (json_obj [(''upstream_status'', json_int (int (unat upstream_status)))]),
      av_correlation_id = None\<rparr>"

definition access_failure_event :: "uuid \<Rightarrow> app_error \<Rightarrow> audit_event" where
  "access_failure_event server_id app_err =
     \<lparr>av_action = CredentialAccessFailure, av_user_id = None, av_server_id = Some server_id, av_success = False,
      av_error_msg = Some (error_code app_err), av_metadata = None, av_correlation_id = None\<rparr>"

definition audit_inject ::
  "('u, 'n, 'm, 'l, 'c) inject_ext \<Rightarrow> audit_event \<Rightarrow> ('l, 'c, 'd) inject_state \<Rightarrow> ('l, 'c, 'd) inject_state" where
  "audit_inject jx ev st = st\<lparr>is_audit := snd (audit_log (jx_mpsc jx) ev (is_audit st))\<rparr>"

text \<open>Steps 7 and 8.\<close>

definition execute_call ::
  "('u, 'n, 'm, 'l, 'c) inject_ext \<Rightarrow> inject_env \<Rightarrow> uuid \<Rightarrow> upstream_call \<Rightarrow> ('l, 'c, 'd) inject_state
   \<Rightarrow> (app_error + inject_response) \<times> ('l, 'c, 'd) inject_state" where
  "execute_call jx env server_id call st =
     (let st1 = st\<lparr>is_sent := is_sent st @ [call]\<rparr> in
      case je_send env call of
        Inl e \<Rightarrow>
          let app_err = (case e of Send_Timeout \<Rightarrow> UpstreamTimeout | Send_Failed r \<Rightarrow> UpstreamUnreachable r) in
          (Inl app_err, audit_inject jx (access_failure_event server_id app_err) st1)
      | Inr response \<Rightarrow>
          let resp_headers = List.map_filter (\<lambda>(k, v). map_option (\<lambda>t. (k, t)) v) (rp_headers response);
              resp_body = (case rp_json response of Some j \<Rightarrow> j | None \<Rightarrow> Null)
          in (Inr \<lparr>ir_status = rp_status response, ir_body = resp_body, ir_headers = map_of (rev resp_headers)\<rparr>,
              audit_inject jx (access_event server_id (rp_status response)) st1))"

definition inject_handler ::
  "('u, 'n, 'm, 'l, 'c) inject_ext \<Rightarrow> inject_config \<Rightarrow> inject_env \<Rightarrow> ip_addr \<Rightarrow> header_values \<Rightarrow> request_skeleton
   \<Rightarrow> ('l, 'c, 'd) inject_state \<Rightarrow> (app_error + inject_response) \<times> ('l, 'c, 'd) inject_state" where
  "inject_handler jx config env caller_ip hs skeleton st =
     (case check_caller jx config caller_ip hs of
        Inl e \<Rightarrow> (Inl e, st)
      | Inr _ \<Rightarrow>
          let server_id = sk_server_id skeleton;
              (credential, st1) = lookup_credential jx env server_id st
          in case credential of
               Inl e \<Rightarrow> (Inl e, st1)
             | Inr cred \<Rightarrow>
                 (case build_call jx config env skeleton cred of
                    Inl e \<Rightarrow> (Inl e, st1)
                  | Inr call \<Rightarrow> execute_call jx env server_id call st1))"

section \<open>Notifications\<close>

text \<open>One notification: \<open>parse_uuid\<close> is \<open>str::parse::<Uuid>\<close>.\<close>

definition on_notification :: "'l lru_api \<Rightarrow> (string \<Rightarrow> uuid option) \<Rightarrow> string \<Rightarrow> 'l \<Rightarrow> 'l" where
  "on_notification lr parse_uuid payload cache =
     (case parse_uuid payload of Some server_id \<Rightarrow> lru_pop lr server_id cache | None \<Rightarrow> cache)"

text \<open>The notifications of one connection, until it drops.\<close>

definition run_listener :: "'l lru_api \<Rightarrow> (string \<Rightarrow> uuid option) \<Rightarrow> string list \<Rightarrow> 'l \<Rightarrow> 'l" where
  "run_listener lr parse_uuid payloads cache = fold (on_notification lr parse_uuid) payloads cache"


section \<open>What leaves the injector\<close>

lemma bearer_iff: "inject_bearer_token hs = Inr t \<longleftrightarrow> map_of hs ''authorization'' = Some (Some (''Bearer '' @ t))"
  unfolding inject_bearer_token_def and_then_eq_Inr ok_or_eq_Inr strip_prefix_eq_Some by auto

lemma check_caller_iff:
  "check_caller jx config ip hs = Inr u \<longleftrightarrow>
     ip \<in> set (jc_allowed_ips config) \<and> map_of hs ''authorization'' = Some (Some (''Bearer '' @ jc_shared_secret config))"
  unfolding bearer_iff [symmetric]
  by (cases "inject_bearer_token hs") (auto simp: check_caller_def)

lemma check_caller_error: "check_caller jx config ip hs = Inl e \<Longrightarrow> \<exists>m. e = Forbidden m"
  by (auto simp: check_caller_def and_then_eq_Inl map_err_def split: sum.splits if_splits)

lemma lookup_effect:
  assumes "lru_ok (jx_lru jx) held" "lookup_credential jx env sid st = (r, st')"
  shows "is_audit st' = is_audit st \<and> is_sent st' = is_sent st \<and>
    r = (case held (is_cache st) sid of Some c \<Rightarrow> Inr c | None \<Rightarrow> fetch_credential (je_query env) sid)"
proof (cases "lru_get (jx_lru jx) sid (is_cache st)")
  case (Pair a b)
  then have "a = held (is_cache st) sid" using assms(1) unfolding lru_ok_def by (metis fst_conv)
  with assms(2) Pair show ?thesis
    by (auto simp: lookup_credential_def Let_def split: option.splits sum.splits)
qed

lemma inject_auth_effect:
  assumes "inject_auth b64 cred p call = Inr call'"
  shows "uc_method call' = uc_method call \<and> uc_url call' = uc_url call \<and>
    (\<exists>hs qs. uc_headers call' = uc_headers call @ hs \<and> uc_query call' = uc_query call @ qs \<and> length hs + length qs = 1)"
  using assms by (auto simp: inject_auth_def Let_def split: if_splits)

lemma build_call_effect:
  assumes "build_call jx config env sk cred = Inr call"
  shows "\<exists>plain secret url. decrypt (jx_gcm jx) (jc_crypto_key config) (cr_encrypted_payload cred) = Inr plain \<and>
    from_utf8 plain = Some secret \<and> jx_parse_url jx (sk_url sk) = Some url \<and>
    (jc_skip_ssrf config \<or> validate_url_with_dns (jx_ipnet jx) (jx_url jx) (je_dns_timeout env) (je_dns env) url = Inr ()) \<and>
    uc_url call = sk_url sk \<and> uc_method call = sk_method sk \<and> uc_body call = sk_body sk \<and>
    (\<exists>hs. uc_headers call = sk_headers sk @ hs \<and> length hs + length (uc_query call) = 1)"
  using assms
  by (auto simp: build_call_def and_then_eq_Inr ok_or_eq_Inr map_err_def dest!: inject_auth_effect
      split: sum.splits if_splits)


text \<open>
  A header \<open>Authorization\<close> of the caller is sent as well, and before the injected one: \<open>header\<close> adds, it
  does not replace.
\<close>

theorem authorization_not_overridden:
  assumes "build_call jx config env sk cred = Inr call" "map_of (sk_headers sk) ''Authorization'' = Some v"
  shows "map_of (uc_headers call) ''Authorization'' = Some v"
  using build_call_effect [OF assms(1)] assms(2) by auto

section \<open>Rotation\<close>

text \<open>
  The newest credential of each server, the cache, the notifications on their way, and the requests that have
  read the database after a miss and not yet filled the cache. \<open>cs_tainted\<close> are the servers whose
  credential was rotated while such a request was under way, or whose notification was lost.
\<close>

record 'l cred_sys =
  cs_db :: "uuid \<Rightarrow> cached_credential option"
  cs_cache :: 'l
  cs_notes :: "string list"
  cs_reads :: "(uuid \<times> cached_credential) list"
  cs_tainted :: "uuid set"

inductive cred_step :: "'l lru_api \<Rightarrow> (string \<Rightarrow> uuid option) \<Rightarrow> 'l cred_sys \<Rightarrow> 'l cred_sys \<Rightarrow> bool" for lr parse_uuid where
  rotate: "parse_uuid payload = Some sid \<Longrightarrow> cred_step lr parse_uuid s (s\<lparr>cs_db := (cs_db s)(sid \<mapsto> c), cs_notes := cs_notes s @ [payload],
      cs_tainted := cs_tainted s \<union> (if sid \<in> fst ` set (cs_reads s) then {sid} else {})\<rparr>)"
| notified: "cs_notes s = payload # ns \<Longrightarrow>
    cred_step lr parse_uuid s (s\<lparr>cs_notes := ns, cs_cache := run_listener lr parse_uuid [payload] (cs_cache s)\<rparr>)"
| reconnected: "cred_step lr parse_uuid s (s\<lparr>cs_notes := [], cs_tainted := cs_tainted s \<union> {sid. Some sid \<in> parse_uuid ` set (cs_notes s)}\<rparr>)"
| hit: "cred_step lr parse_uuid s (s\<lparr>cs_cache := snd (lru_get lr sid (cs_cache s))\<rparr>)"
| miss_read: "cs_db s sid = Some c \<Longrightarrow> cred_step lr parse_uuid s (s\<lparr>cs_reads := (sid, c) # cs_reads s\<rparr>)"
| miss_fill: "cs_reads s = xs @ (sid, c) # ys \<Longrightarrow>
    cred_step lr parse_uuid s (s\<lparr>cs_reads := xs @ ys, cs_cache := lru_put lr sid c (cs_cache s)\<rparr>)"

definition cred_start :: "'l lru_api \<Rightarrow> 'l cred_sys \<Rightarrow> bool" where
  "cred_start lr s \<longleftrightarrow> cs_cache s = new_cache lr \<and> cs_notes s = [] \<and> cs_reads s = [] \<and> cs_tainted s = {}"

definition cred_inv :: "(string \<Rightarrow> uuid option) \<Rightarrow> ('l \<Rightarrow> uuid \<Rightarrow> cached_credential option) \<Rightarrow> 'l cred_sys \<Rightarrow> bool" where
  "cred_inv parse_uuid held s \<longleftrightarrow>
     (\<forall>sid c. held (cs_cache s) sid = Some c \<longrightarrow> cs_db s sid = Some c \<or> Some sid \<in> parse_uuid ` set (cs_notes s) \<or> sid \<in> cs_tainted s) \<and>
     (\<forall>(sid, c) \<in> set (cs_reads s). cs_db s sid = Some c \<or> sid \<in> cs_tainted s)"

lemma lru_put_held: "lru_ok lr held \<Longrightarrow> held (lru_put lr k v c) j = Some d \<Longrightarrow> if j = k then d = v else held c j = Some d"
  unfolding lru_ok_def by (metis option.distinct(1) option.inject)

lemma cred_step_inv:
  assumes "lru_ok lr held" "cred_step lr parse_uuid s t" "cred_inv parse_uuid held s"
  shows "cred_inv parse_uuid held t"
  using assms(2,3)
proof (induction rule: cred_step.induct)
  case (rotate payload sid s c)
  then have cache: "held (cs_cache s) k = Some d \<Longrightarrow> cs_db s k = Some d \<or> Some k \<in> parse_uuid ` set (cs_notes s) \<or> k \<in> cs_tainted s"
    and reads: "(k, d) \<in> set (cs_reads s) \<Longrightarrow> cs_db s k = Some d \<or> k \<in> cs_tainted s" for k d
    by (auto simp: cred_inv_def)
  have touched: "(sid, d) \<in> set (cs_reads s) \<Longrightarrow> sid \<in> fst ` set (cs_reads s)" for d by force
  have "\<forall>k d. held (cs_cache s) k = Some d \<longrightarrow>
      ((cs_db s)(sid \<mapsto> c)) k = Some d \<or> Some k \<in> parse_uuid ` set (cs_notes s @ [payload]) \<or>
      k \<in> cs_tainted s \<union> (if sid \<in> fst ` set (cs_reads s) then {sid} else {})"
    using cache rotate(1) by auto
  moreover have "\<forall>(k, d) \<in> set (cs_reads s). ((cs_db s)(sid \<mapsto> c)) k = Some d \<or>
      k \<in> cs_tainted s \<union> (if sid \<in> fst ` set (cs_reads s) then {sid} else {})"
    by (auto dest: reads touched)
  ultimately show ?case unfolding cred_inv_def by simp
next
  case (notified s payload ns)
  have pop: "held (lru_pop lr k d) = (held d)(k := None)" for k d using assms(1) by (simp add: lru_ok_def)
  show ?case
    using notified by (cases "parse_uuid payload") (fastforce simp: cred_inv_def run_listener_def on_notification_def pop)+
next
  case (reconnected s)
  then show ?case by (auto simp: cred_inv_def)
next
  case (hit s sid)
  then show ?case using assms(1) by (simp add: cred_inv_def lru_ok_def)
next
  case (miss_read s sid c)
  then show ?case by (auto simp: cred_inv_def)
next
  case (miss_fill s xs sid c ys)
  then have cache: "held (cs_cache s) k = Some d \<Longrightarrow> cs_db s k = Some d \<or> Some k \<in> parse_uuid ` set (cs_notes s) \<or> k \<in> cs_tainted s"
    and reads: "(k, d) \<in> set (xs @ (sid, c) # ys) \<Longrightarrow> cs_db s k = Some d \<or> k \<in> cs_tainted s" for k d
    by (auto simp: cred_inv_def)
  have "cs_db s k = Some d \<or> Some k \<in> parse_uuid ` set (cs_notes s) \<or> k \<in> cs_tainted s"
    if "held (lru_put lr sid c (cs_cache s)) k = Some d" for k d
    using lru_put_held [OF assms(1) that] cache [of k d] reads [of sid c] by (cases "k = sid") auto
  moreover have "\<forall>(k, d) \<in> set (xs @ ys). cs_db s k = Some d \<or> k \<in> cs_tainted s"
    using reads by (intro ballI) (auto split: prod.split)
  ultimately show ?case unfolding cred_inv_def by simp
qed

text \<open>
  A credential in the cache is the newest one, or the eviction of its server is on its way, or its server was
  rotated while a request was between its database read and its cache fill, or a notification was lost
  in a reconnect: there is no other way to a stale credential.
\<close>

theorem cached_credential_fresh:
  assumes "lru_ok lr held" "reach (cred_start lr) (cred_step lr parse_uuid) s" "held (cs_cache s) sid = Some c"
    and "Some sid \<notin> parse_uuid ` set (cs_notes s)" "sid \<notin> cs_tainted s"
  shows "cs_db s sid = Some c"
proof -
  have "cred_inv parse_uuid held s"
    using assms(2)
  proof (rule reach_invariant)
    show "cred_inv parse_uuid held s" if "cred_start lr s" for s
      using that assms(1) by (auto simp: cred_start_def cred_inv_def new_cache_def lru_ok_def)
  qed (rule cred_step_inv [OF assms(1)])
  with assms(3-5) show ?thesis by (auto simp: cred_inv_def)
qed

text \<open>
  The race does happen: a rotation whose notification is handled between the database read and the cache fill
  of a request leaves the old credential in the cache, with nothing under way that would evict it.
\<close>

theorem rotation_race_keeps_old_credential:
  assumes "lru_ok lr held" "cred_start lr s" "cs_db s sid = Some old" "parse_uuid payload = Some sid"
  shows "\<exists>t. (cred_step lr parse_uuid)\<^sup>*\<^sup>* s t \<and> cs_db t sid = Some new \<and> held (cs_cache t) sid = Some old \<and> cs_notes t = [] \<and> cs_reads t = []"
proof -
  let ?s1 = "s\<lparr>cs_reads := (sid, old) # cs_reads s\<rparr>"
  let ?s2 = "?s1\<lparr>cs_db := (cs_db ?s1)(sid \<mapsto> new), cs_notes := cs_notes ?s1 @ [payload],
      cs_tainted := cs_tainted ?s1 \<union> (if sid \<in> fst ` set (cs_reads ?s1) then {sid} else {})\<rparr>"
  let ?s3 = "?s2\<lparr>cs_notes := [], cs_cache := run_listener lr parse_uuid [payload] (cs_cache ?s2)\<rparr>"
  let ?s4 = "?s3\<lparr>cs_reads := [] @ [], cs_cache := lru_put lr sid old (cs_cache ?s3)\<rparr>"
  have "cred_step lr parse_uuid s ?s1" by (rule miss_read [OF assms(3)])
  moreover have "cred_step lr parse_uuid ?s1 ?s2" by (rule rotate) (rule assms(4))
  moreover have "cred_step lr parse_uuid ?s2 ?s3" by (rule notified) (use assms(2) in \<open>simp add: cred_start_def\<close>)
  moreover have "cred_step lr parse_uuid ?s3 ?s4" by (rule miss_fill) (use assms(2) in \<open>simp add: cred_start_def\<close>)
  ultimately have "(cred_step lr parse_uuid)\<^sup>*\<^sup>* s ?s4"
    by (meson rtranclp.rtrancl_refl rtranclp.rtrancl_into_rtrancl)
  moreover have "held (cs_cache ?s4) sid = Some old" using assms(1) by (simp add: lru_ok_def)
  ultimately show ?thesis by (intro exI [of _ ?s4]) simp
qed

section \<open>Examples\<close>

text \<open>A cache that drops the entry used longest ago, with the required laws.\<close>

definition list_lru :: "(nat \<times> (uuid \<times> cached_credential) list) lru_api" where
  "list_lru =
     \<lparr>lru_new = (\<lambda>n. (n, [])),
      lru_get = (\<lambda>k (n, es). case map_of es k of
        Some v \<Rightarrow> (Some v, (n, (k, v) # filter (\<lambda>e. fst e \<noteq> k) es)) | None \<Rightarrow> (None, (n, es))),
      lru_put = (\<lambda>k v (n, es). (n, (k, v) # take (n - 1) (filter (\<lambda>e. fst e \<noteq> k) es))),
      lru_pop = (\<lambda>k (n, es). (n, filter (\<lambda>e. fst e \<noteq> k) es))\<rparr>"

lemma map_of_take: "map_of (take n xs) k = map_of xs k \<or> map_of (take n xs) k = None"
  by (induction xs arbitrary: n) (auto simp: take_Cons split: nat.splits)

lemma map_of_without: "map_of (filter (\<lambda>e. fst e \<noteq> k) xs) = (map_of xs)(k := None)"
  by (induction xs) (auto simp: fun_eq_iff)

lemma list_lru_ok: "lru_ok list_lru (\<lambda>c. map_of (snd c))"
proof -
  have "map_of (take n (filter (\<lambda>e. fst e \<noteq> k) es)) j = map_of es j \<or> map_of (take n (filter (\<lambda>e. fst e \<noteq> k) es)) j = None"
    if "j \<noteq> k" for n j k and es :: "(uuid \<times> cached_credential) list"
    using map_of_take [of n "filter (\<lambda>e. fst e \<noteq> k) es" j] that by (simp add: map_of_without)
  then show ?thesis by (auto simp: lru_ok_def list_lru_def map_of_without fun_eq_iff split: option.split)
qed

definition sample_credential :: cached_credential where
  "sample_credential =
     \<lparr>cr_encrypted_payload = replicate 12 1 @ replicate 32 7 @ replicate 12 1 @ [107], cr_auth_type = ''bearer'',
      cr_key_name = None\<rparr>"

definition sample_jx :: "(unit, u32 \<times> nat, ip6 \<times> nat, nat \<times> (uuid \<times> cached_credential) list, nat \<times> audit_event list) inject_ext" where
  "sample_jx =
     \<lparr>jx_gcm = tag_gcm, jx_lru = list_lru, jx_ipnet = prefix_ipnet,
      jx_url = \<lparr>su_scheme = (\<lambda>_. ''https''), su_port = (\<lambda>_. None), su_port_or_known_default = (\<lambda>_. Some 443),
        su_host = (\<lambda>_. Some (Host_Ipv4 (of_nat (ip4 8 8 8 8)))), su_to_string = (\<lambda>_. ''https://8.8.8.8''), su_ip_text = (\<lambda>_. [])\<rparr>,
      jx_parse_url = (\<lambda>_. Some ()), jx_method_ok = (\<lambda>_. True), jx_base64 = id, jx_mpsc = queue_mpsc\<rparr>"

definition sample_jc :: inject_config where
  "sample_jc = build_app_state sample_key [V4 1] ''s''"

definition sample_je :: inject_env where
  "sample_je =
     \<lparr>je_query = (\<lambda>_. Inr (Some \<lparr>cw_encrypted_payload = Inr (cr_encrypted_payload sample_credential),
        cw_auth_type = Inr ''bearer'', cw_key_name = Inr None\<rparr>)),
      je_dns_timeout = None, je_dns = (\<lambda>_ _. Dns_Elapsed),
      je_send = (\<lambda>_. Inr \<lparr>rp_status = 200, rp_headers = [], rp_json = None\<rparr>)\<rparr>"

definition sample_skeleton :: request_skeleton where
  "sample_skeleton =
     \<lparr>sk_server_id = 3, sk_method = ''GET'', sk_url = ''https://8.8.8.8'', sk_headers = [(''Accept'', ''x'')], sk_body = None\<rparr>"

definition sample_inject_state ::
  "(nat \<times> (uuid \<times> cached_credential) list, nat \<times> audit_event list, audit_row list) inject_state" where
  "sample_inject_state =
     \<lparr>is_cache = new_cache list_lru, is_audit = audit_logger_new queue_mpsc [], is_db_reads = [], is_sent = []\<rparr>"

lemma sample_inject_call:
  "build_call sample_jx sample_jc sample_je sample_skeleton sample_credential =
     Inr \<lparr>uc_method = ''GET'', uc_url = ''https://8.8.8.8'', uc_headers = [(''Accept'', ''x''), (''Authorization'', ''Bearer k'')],
       uc_query = [], uc_body = None\<rparr>"
proof -
  have "\<not> is_blocked_ip prefix_ipnet (V4 (of_nat (ip4 8 8 8 8)))"
    by (simp add: blocked_in_ranges [OF prefix_ipnet_ok, THEN conjunct1] in_ranges_def blocked4_ranges_def ip4_def)
  then have "validate_url_with_dns prefix_ipnet (jx_url sample_jx) None (\<lambda>_ _. Dns_Elapsed) () = Inr ()"
    by (simp add: validate_url_with_dns_def validate_url_def sample_jx_def)
  moreover have "decrypt tag_gcm sample_key (cr_encrypted_payload sample_credential) = Inr [107]"
    by (simp add: decrypt_def tag_gcm_def sample_key_def sample_credential_def)
  moreover have "from_utf8 [107] = Some ''k''" by code_simp
  ultimately show ?thesis
    by (simp add: build_call_def sample_jx_def sample_jc_def build_app_state_def sample_je_def sample_skeleton_def inject_auth_def
        sample_credential_def)
qed


theorem cached_credential_fresh_witness:
  "\<exists>s. reach (cred_start list_lru) (cred_step list_lru (\<lambda>_. Some 3)) s \<and> map_of (snd (cs_cache s)) 3 = Some sample_credential \<and>
     cs_db s 3 = Some sample_credential"
proof -
  let ?s0 = "\<lparr>cs_db = [3 \<mapsto> sample_credential], cs_cache = new_cache list_lru, cs_notes = [], cs_reads = [], cs_tainted = {}\<rparr>"
  let ?s1 = "?s0\<lparr>cs_reads := (3, sample_credential) # cs_reads ?s0\<rparr>"
  let ?s2 = "?s1\<lparr>cs_reads := [] @ [], cs_cache := lru_put list_lru 3 sample_credential (cs_cache ?s1)\<rparr>"
  have "reach (cred_start list_lru) (cred_step list_lru (\<lambda>_. Some 3)) ?s0" by (rule reach_init) (simp add: cred_start_def)
  moreover have "cred_step list_lru (\<lambda>_. Some 3) ?s0 ?s1" by (rule miss_read) simp
  ultimately have "reach (cred_start list_lru) (cred_step list_lru (\<lambda>_. Some 3)) ?s1" by (rule reach_step)
  moreover have "cred_step list_lru (\<lambda>_. Some 3) ?s1 ?s2" by (rule miss_fill) simp
  ultimately have r: "reach (cred_start list_lru) (cred_step list_lru (\<lambda>_. Some 3)) ?s2" by (rule reach_step)
  have h: "map_of (snd (cs_cache ?s2)) 3 = Some sample_credential" by (simp add: list_lru_def new_cache_def)
  have "cs_db ?s2 3 = Some sample_credential"
    by (rule cached_credential_fresh [OF list_lru_ok r h]) simp_all
  with r h show ?thesis by blast
qed

end
