(* ===== verification/Api_Credentials.thy ===== *)
theory Api_Credentials
  imports Api_Servers Injector
begin

text \<open>
  Credentials and server tokens in the platform API: \<open>services/api/src/credentials.rs\<close>, the service that
  encrypts, rotates, deletes and lists credentials, \<open>handlers/credentials.rs\<close> and \<open>handlers/tokens.rs\<close>.
  SHA-256, the cipher, the random generator and the text of a UUID are parameters.
\<close>

section \<open>Credentials\<close>

record credential_meta =
  cm_id :: uuid
  cm_server_id :: uuid
  cm_auth_type :: string
  cm_key_name :: "string option"
  cm_hint :: "string option"
  cm_created_at :: int

record 'c cred_ext =
  cx_mpsc :: "(audit_event, 'c) mpsc_api"
  cx_gcm :: gcm_api
  cx_key :: crypto_key
  cx_uuid_text :: "uuid \<Rightarrow> string"
  cx_sha256 :: "string \<Rightarrow> bytes"

definition compute_hint :: "string \<Rightarrow> string" where
  "compute_hint value = take_chars 4 value @ ''****''"

text \<open>\<open>str::as_bytes\<close>, and the \<open>Display\<close> texts of \<open>CryptoError\<close>.\<close>

definition as_bytes :: "string \<Rightarrow> bytes" where
  "as_bytes s = map (\<lambda>c. of_nat (of_char c)) s"

fun crypto_error_text :: "crypto_error \<Rightarrow> string" where
  "crypto_error_text DecryptionFailed = ''decryption failed''"
| "crypto_error_text InvalidKeyLength = ''invalid key length''"
| "crypto_error_text EncryptionFailed = ''encryption failed''"
| "crypto_error_text InvalidHex = ''invalid hex encoding''"

definition row_to_meta :: "credential_entry \<Rightarrow> credential_meta" where
  "row_to_meta row =
     \<lparr>cm_id = ce_id row, cm_server_id = ce_server_id row, cm_auth_type = ce_auth_type row, cm_key_name = ce_key_name row,
      cm_hint = ce_hint row, cm_created_at = ce_created_at row\<rparr>"

definition credential_event :: "audit_action \<Rightarrow> uuid option \<Rightarrow> uuid \<Rightarrow> string \<Rightarrow> string \<Rightarrow> audit_event" where
  "credential_event action user_id server_id field value =
     \<lparr>av_action = action, av_user_id = user_id, av_server_id = Some server_id, av_success = True, av_error_msg = None,
      av_metadata = Some (json_obj [(field, String value)]), av_correlation_id = None\<rparr>"

definition store ::
  "'c cred_ext \<Rightarrow> bytes \<Rightarrow> stmt \<Rightarrow> uuid \<Rightarrow> string \<Rightarrow> string option \<Rightarrow> string \<Rightarrow> uuid option
   \<Rightarrow> ('c, 'd) api_state \<Rightarrow> (app_error + credential_meta) \<times> ('c, 'd) api_state" where
  "store cx nonce x server_id credential_type key_name plaintext user_id st =
     (let hint = compute_hint plaintext in
      case encrypt (cx_gcm cx) nonce (cx_key cx) (as_bytes plaintext) of
        Inl e \<Rightarrow> (Inl (InternalServerError (''encryption failed: '' @ crypto_error_text e)), st)
      | Inr encrypted \<Rightarrow>
          let iv_bytes = take 12 encrypted in
          (case with_db (insert_credential x server_id credential_type key_name encrypted iv_bytes hint) st of
             (Inl e, st1) \<Rightarrow> (Inl (InternalServerError (''credential insert failed: '' @ sql_text e)), st1)
           | (Inr row, st1) \<Rightarrow>
               (Inr (row_to_meta row),
                api_audit (cx_mpsc cx) (credential_event CredentialCreate user_id server_id ''auth_type'' credential_type) st1)))"

text \<open>The check that \<open>rotate\<close> and \<open>delete\<close> start with.\<close>

definition credential_of_server :: "stmt \<Rightarrow> uuid \<Rightarrow> uuid \<Rightarrow> api_db \<Rightarrow> app_error + unit" where
  "credential_of_server x credential_id server_id db =
     and_then (map_err (\<lambda>e. InternalServerError (''db lookup failed: '' @ sql_text e)) (select_credential_server x credential_id db)) (\<lambda>found.
     and_then (ok_or (NotFound ''credential not found'') found) (\<lambda>existing_server_id.
     if existing_server_id \<noteq> server_id then Inl (Forbidden ''credential does not belong to this server'') else Inr ()))"

definition rotate ::
  "'c cred_ext \<Rightarrow> bytes \<Rightarrow> (nat \<Rightarrow> stmt) \<Rightarrow> uuid \<Rightarrow> uuid \<Rightarrow> string \<Rightarrow> uuid option
   \<Rightarrow> ('c, 'd) api_state \<Rightarrow> (app_error + credential_meta) \<times> ('c, 'd) api_state" where
  "rotate cx nonce xs credential_id server_id new_plaintext user_id st =
     (case credential_of_server (xs 0) credential_id server_id (ap_db st) of
        Inl e \<Rightarrow> (Inl e, st)
      | Inr _ \<Rightarrow>
        (case encrypt (cx_gcm cx) nonce (cx_key cx) (as_bytes new_plaintext) of
           Inl e \<Rightarrow> (Inl (InternalServerError (''encryption failed: '' @ crypto_error_text e)), st)
         | Inr encrypted \<Rightarrow>
             let iv_bytes = take 12 encrypted in
             (case with_db (update_credential (xs 1) credential_id encrypted iv_bytes) st of
                (Inl e, st1) \<Rightarrow> (Inl (InternalServerError (''credential update failed: '' @ sql_text e)), st1)
              | (Inr row, st1) \<Rightarrow>
                  let (_, st2) = with_db (notify_credential (xs 2) (cx_uuid_text cx server_id)) st1 in
                  (Inr (row_to_meta row),
                   api_audit (cx_mpsc cx)
                     (credential_event CredentialRotate user_id server_id ''credential_id'' (cx_uuid_text cx credential_id)) st2))))"

definition delete ::
  "'c cred_ext \<Rightarrow> (nat \<Rightarrow> stmt) \<Rightarrow> uuid \<Rightarrow> uuid \<Rightarrow> uuid option
   \<Rightarrow> ('c, 'd) api_state \<Rightarrow> (app_error + unit) \<times> ('c, 'd) api_state" where
  "delete cx xs credential_id server_id user_id st =
     (case credential_of_server (xs 0) credential_id server_id (ap_db st) of
        Inl e \<Rightarrow> (Inl e, st)
      | Inr _ \<Rightarrow>
        (case with_db (delete_credential (xs 1) credential_id) st of
           (Inl e, st1) \<Rightarrow> (Inl (InternalServerError (''credential delete failed: '' @ sql_text e)), st1)
         | (Inr _, st1) \<Rightarrow>
             (Inr (),
              api_audit (cx_mpsc cx)
                (credential_event CredentialDelete user_id server_id ''credential_id'' (cx_uuid_text cx credential_id)) st1)))"

definition list_for_server :: "stmt \<Rightarrow> uuid \<Rightarrow> api_db \<Rightarrow> app_error + credential_meta list" where
  "list_for_server x server_id db =
     and_then (map_err (\<lambda>e. InternalServerError (''list credentials failed: '' @ sql_text e)) (select_credentials x server_id db)) (\<lambda>rows.
     Inr (map row_to_meta rows))"

subsection \<open>The handlers\<close>

definition verify_server_ownership :: "stmt \<Rightarrow> uuid \<Rightarrow> uuid \<Rightarrow> api_db \<Rightarrow> app_error + unit" where
  "verify_server_ownership x server_id user_id db =
     and_then (map_err (\<lambda>e. InternalServerError (''ownership check failed: '' @ sql_text e)) (select_server x server_id user_id db)) (\<lambda>found.
     if found = None then Inl (NotFound ''server not found or access denied'') else Inr ())"

record create_credential_request =
  rq_auth_type :: string
  rq_key_name :: "string option"
  rq_value :: string

definition create_credential_handler ::
  "'c cred_ext \<Rightarrow> bytes \<Rightarrow> (nat \<Rightarrow> stmt) \<Rightarrow> uuid \<Rightarrow> uuid \<Rightarrow> create_credential_request
   \<Rightarrow> ('c, 'd) api_state \<Rightarrow> (app_error + credential_meta) \<times> ('c, 'd) api_state" where
  "create_credential_handler cx nonce xs user server_id body st =
     (case verify_server_ownership (xs 0) server_id user (ap_db st) of
        Inl e \<Rightarrow> (Inl e, st)
      | Inr _ \<Rightarrow> store cx nonce (xs 1) server_id (rq_auth_type body) (rq_key_name body) (rq_value body) (Some user) st)"

definition list_credentials_handler :: "(nat \<Rightarrow> stmt) \<Rightarrow> uuid \<Rightarrow> uuid \<Rightarrow> api_db \<Rightarrow> app_error + credential_meta list" where
  "list_credentials_handler xs user server_id db =
     and_then (verify_server_ownership (xs 0) server_id user db) (\<lambda>_. list_for_server (xs 1) server_id db)"

definition rotate_credential_handler ::
  "'c cred_ext \<Rightarrow> bytes \<Rightarrow> (nat \<Rightarrow> stmt) \<Rightarrow> uuid \<Rightarrow> uuid \<Rightarrow> uuid \<Rightarrow> string
   \<Rightarrow> ('c, 'd) api_state \<Rightarrow> (app_error + credential_meta) \<times> ('c, 'd) api_state" where
  "rotate_credential_handler cx nonce xs user server_id credential_id value st =
     (case verify_server_ownership (xs 0) server_id user (ap_db st) of
        Inl e \<Rightarrow> (Inl e, st)
      | Inr _ \<Rightarrow> rotate cx nonce (\<lambda>i. xs (Suc i)) credential_id server_id value (Some user) st)"

definition delete_credential_handler ::
  "'c cred_ext \<Rightarrow> (nat \<Rightarrow> stmt) \<Rightarrow> uuid \<Rightarrow> uuid \<Rightarrow> uuid \<Rightarrow> ('c, 'd) api_state \<Rightarrow> (app_error + unit) \<times> ('c, 'd) api_state" where
  "delete_credential_handler cx xs user server_id credential_id st =
     (case verify_server_ownership (xs 0) server_id user (ap_db st) of
        Inl e \<Rightarrow> (Inl e, st)
      | Inr _ \<Rightarrow> delete cx (\<lambda>i. xs (Suc i)) credential_id server_id (Some user) st)"

section \<open>Server tokens\<close>

definition TOKEN_PREFIX :: string where "TOKEN_PREFIX = ''mcp_live_''"

definition lower_hex_digit :: "nat \<Rightarrow> char" where
  "lower_hex_digit n = (if n < 10 then char_of (48 + n) else char_of (87 + n))"

text \<open>\<open>format!("{b:02x}")\<close> for every byte.\<close>

definition to_hex :: "bytes \<Rightarrow> string" where
  "to_hex bs = concat (map (\<lambda>b. [lower_hex_digit (unat b div 16), lower_hex_digit (unat b mod 16)]) bs)"

text \<open>The token, its hash and its hint; \<open>random\<close> are the 32 bytes of the generator.\<close>

definition generate_server_token :: "(string \<Rightarrow> bytes) \<Rightarrow> bytes \<Rightarrow> string \<times> string \<times> string" where
  "generate_server_token sha256 random =
     (let hex_body = to_hex random;
          raw_token = TOKEN_PREFIX @ hex_body;
          token_hash = to_hex (sha256 raw_token);
          hint = take_chars 12 raw_token @ ''****''
      in (raw_token, token_hash, hint))"

record token_created_response =
  tc_id :: uuid
  tc_server_id :: uuid
  tc_description :: "string option"
  tc_token :: string
  tc_hint :: string
  tc_is_active :: bool
  tc_created_at :: int

record token_meta =
  tm_id :: uuid
  tm_server_id :: uuid
  tm_description :: "string option"
  tm_hint :: "string option"
  tm_is_active :: bool
  tm_created_at :: int
  tm_revoked_at :: "int option"

definition emit_token_audit ::
  "'c cred_ext \<Rightarrow> audit_action \<Rightarrow> uuid \<Rightarrow> uuid \<Rightarrow> uuid option \<Rightarrow> ('c, 'd) api_state \<Rightarrow> ('c, 'd) api_state" where
  "emit_token_audit cx action user_id server_id token_id =
     api_audit (cx_mpsc cx) \<lparr>av_action = action, av_user_id = Some user_id, av_server_id = Some server_id, av_success = True,
       av_error_msg = None, av_metadata = map_option (\<lambda>id. json_obj [(''token_id'', String (cx_uuid_text cx id))]) token_id,
       av_correlation_id = None\<rparr>"

definition create_token_handler ::
  "'c cred_ext \<Rightarrow> bytes \<Rightarrow> (nat \<Rightarrow> stmt) \<Rightarrow> uuid \<Rightarrow> uuid \<Rightarrow> string option
   \<Rightarrow> ('c, 'd) api_state \<Rightarrow> (app_error + token_created_response) \<times> ('c, 'd) api_state" where
  "create_token_handler cx random xs user server_id description st =
     (case verify_server_ownership (xs 0) server_id user (ap_db st) of
        Inl e \<Rightarrow> (Inl e, st)
      | Inr _ \<Rightarrow>
          let (raw_token, token_hash, hint) = generate_server_token (cx_sha256 cx) random in
          (case with_db (insert_token (xs 1) server_id token_hash description hint) st of
             (Inl e, st1) \<Rightarrow> (Inl (InternalServerError (''token insert failed: '' @ sql_text e)), st1)
           | (Inr row, st1) \<Rightarrow>
               (Inr \<lparr>tc_id = tk_id row, tc_server_id = server_id, tc_description = tk_description row, tc_token = raw_token,
                  tc_hint = hint, tc_is_active = tk_is_active row, tc_created_at = tk_created_at row\<rparr>,
                emit_token_audit cx ServerTokenGenerate user server_id (Some (tk_id row)) st1)))"

definition token_meta_of :: "token_entry \<Rightarrow> token_meta" where
  "token_meta_of row =
     \<lparr>tm_id = tk_id row, tm_server_id = tk_server_id row, tm_description = tk_description row, tm_hint = tk_hint row,
      tm_is_active = tk_is_active row, tm_created_at = tk_created_at row, tm_revoked_at = tk_revoked_at row\<rparr>"

definition list_tokens_handler :: "(nat \<Rightarrow> stmt) \<Rightarrow> uuid \<Rightarrow> uuid \<Rightarrow> api_db \<Rightarrow> app_error + token_meta list" where
  "list_tokens_handler xs user server_id db =
     and_then (verify_server_ownership (xs 0) server_id user db) (\<lambda>_.
     and_then (map_err (\<lambda>e. InternalServerError (''list tokens failed: '' @ sql_text e)) (select_tokens (xs 1) server_id db)) (\<lambda>rows.
     Inr (map token_meta_of rows)))"

definition revoke_token_handler ::
  "'c cred_ext \<Rightarrow> (nat \<Rightarrow> stmt) \<Rightarrow> uuid \<Rightarrow> uuid \<Rightarrow> uuid \<Rightarrow> ('c, 'd) api_state \<Rightarrow> (app_error + unit) \<times> ('c, 'd) api_state" where
  "revoke_token_handler cx xs user server_id token_id st =
     (case and_then (verify_server_ownership (xs 0) server_id user (ap_db st)) (\<lambda>_.
          and_then (map_err (\<lambda>e. InternalServerError (''token lookup failed: '' @ sql_text e)) (select_token_server (xs 1) token_id (ap_db st))) (\<lambda>found.
          and_then (ok_or (NotFound ''token not found'') found) (\<lambda>existing_server_id.
          if existing_server_id \<noteq> server_id then Inl (NotFound ''token not found'') else Inr ()))) of
        Inl e \<Rightarrow> (Inl e, st)
      | Inr _ \<Rightarrow>
          (case with_db (revoke_token_stmt (xs 2) token_id) st of
             (Inl e, st1) \<Rightarrow> (Inl (InternalServerError (''token revoke failed: '' @ sql_text e)), st1)
           | (Inr _, st1) \<Rightarrow> (Inr (), emit_token_audit cx ServerTokenRevoke user server_id (Some token_id) st1)))"

section \<open>The secret\<close>

lemma as_bytes_back: "map (\<lambda>b. char_of (unat b)) (as_bytes s) = s"
proof -
  have "char_of (unat (of_nat (of_char c) :: u8)) = c" for c :: char
  proof -
    have "(of_char c :: nat) < 256" using of_char_mod_256 [of c] by (metis mod_less_divisor zero_less_numeral)
    then show ?thesis by (simp add: unat_of_nat)
  qed
  then show ?thesis by (simp add: as_bytes_def comp_def)
qed

text \<open>The newest credential of a server, as the query of \<open>inject.rs\<close> selects it.\<close>

definition newest_credential :: "stmt \<Rightarrow> api_db \<Rightarrow> uuid \<Rightarrow> string + credential_row option" where
  "newest_credential x db server_id =
     map_err sql_text (and_then (select_credentials x server_id db) (\<lambda>rows.
       Inr (case rows of [] \<Rightarrow> None
          | c # _ \<Rightarrow> Some \<lparr>cw_encrypted_payload = Inr (ce_encrypted_payload c), cw_auth_type = Inr (ce_auth_type c),
              cw_key_name = Inr (ce_key_name c)\<rparr>)))"

lemma newest_is_first:
  assumes "c \<in> set cs" "\<And>d. d \<in> set cs \<Longrightarrow> d \<noteq> c \<Longrightarrow> ce_created_at d < ce_created_at c"
  shows "\<exists>rest. by_created ce_created_at cs = c # rest"
proof (cases "by_created ce_created_at cs")
  case Nil
  then have "set (by_created ce_created_at cs) = {}" by simp
  with assms(1) show ?thesis by (simp add: by_created_def)
next
  case (Cons d rest)
  have s: "set (by_created ce_created_at cs) = set cs" by (simp add: by_created_def)
  have "sorted (map (\<lambda>r. - ce_created_at r) (by_created ce_created_at cs))" by (simp add: by_created_def)
  then have le: "ce_created_at e \<le> ce_created_at d" if "e \<in> set rest" for e using that unfolding Cons by auto
  have "c \<in> set (d # rest)" "d \<in> set cs" using assms(1) s unfolding Cons by auto
  then have "d = c \<or> ce_created_at c \<le> ce_created_at d \<and> d \<in> set cs" using le [of c] by auto
  then have "d = c" using assms(2) [of d] by (cases "d = c") auto
  with Cons show ?thesis by blast
qed

lemma newest_credential_of:
  assumes "sm_error x = None" "c \<in> set (t_credentials db)"
    and "\<And>d. d \<in> set (t_credentials db) \<Longrightarrow> ce_server_id d = ce_server_id c \<Longrightarrow> d \<noteq> c \<Longrightarrow> ce_created_at d < ce_created_at c"
  shows "fetch_credential (newest_credential x db) (ce_server_id c) =
    Inr \<lparr>cr_encrypted_payload = ce_encrypted_payload c, cr_auth_type = ce_auth_type c, cr_key_name = ce_key_name c\<rparr>"
proof -
  obtain rest where "by_created ce_created_at (filter (\<lambda>d. ce_server_id d = ce_server_id c) (t_credentials db)) = c # rest"
    using newest_is_first [of c "filter (\<lambda>d. ce_server_id d = ce_server_id c) (t_credentials db)"] assms(2,3) by auto
  then show ?thesis
    using assms(1) by (simp add: newest_credential_def select_credentials_def run_stmt_def fetch_credential_def credential_of_row_def)
qed

lemma store_success:
  assumes "store cx nonce x sid ty kn p uid st = (Inr meta, st')"
  obtains enc row where "encrypt (cx_gcm cx) nonce (cx_key cx) (as_bytes p) = Inr enc"
    and "row = \<lparr>ce_id = sm_uuid x, ce_server_id = sid, ce_auth_type = ty, ce_key_name = kn, ce_encrypted_payload = enc,
      ce_iv = take 12 enc, ce_hint = Some (compute_hint p), ce_created_at = sm_now x\<rparr>"
    and "meta = row_to_meta row" "\<forall>d \<in> set (t_credentials (ap_db st)). ce_id d \<noteq> sm_uuid x"
    and "ap_db st' = (ap_db st)\<lparr>t_credentials := t_credentials (ap_db st) @ [row]\<rparr>"
proof -
  obtain enc where e: "encrypt (cx_gcm cx) nonce (cx_key cx) (as_bytes p) = Inr enc"
    using assms by (cases "encrypt (cx_gcm cx) nonce (cx_key cx) (as_bytes p)") (auto simp: store_def)
  show thesis
    by (rule that [OF e refl]) (use assms e in \<open>auto simp: store_def Let_def with_db_def insert_credential_def run_stmt_def
      image_iff split: option.splits if_splits\<close>)
qed

lemma rotate_success:
  assumes "rotate cx nonce xs cid sid p uid st = (Inr meta, st')"
  obtains enc c where "encrypt (cx_gcm cx) nonce (cx_key cx) (as_bytes p) = Inr enc"
    and "find (\<lambda>c. ce_id c = cid) (t_credentials (ap_db st)) = Some c" "ce_server_id c = sid"
    and "meta = row_to_meta (c\<lparr>ce_encrypted_payload := enc, ce_iv := take 12 enc\<rparr>)"
    and "ap_db st' = (ap_db st)\<lparr>t_credentials := map (\<lambda>d. if ce_id d = cid
        then d\<lparr>ce_encrypted_payload := enc, ce_iv := take 12 enc\<rparr> else d) (t_credentials (ap_db st)),
      t_notices := t_notices (ap_db st) @ (if sm_error (xs 2) = None then [Credential_Updated (cx_uuid_text cx sid)] else [])\<rparr>"
proof -
  obtain u where own: "credential_of_server (xs 0) cid sid (ap_db st) = Inr u"
    using assms by (cases "credential_of_server (xs 0) cid sid (ap_db st)") (auto simp: rotate_def)
  then obtain c where c: "find (\<lambda>c. ce_id c = cid) (t_credentials (ap_db st)) = Some c" "ce_server_id c = sid"
    by (auto simp: credential_of_server_def select_credential_server_def run_stmt_def and_then_eq_Inr ok_or_eq_Inr
        split: option.splits if_splits)
  obtain enc where e: "encrypt (cx_gcm cx) nonce (cx_key cx) (as_bytes p) = Inr enc"
    using assms own by (cases "encrypt (cx_gcm cx) nonce (cx_key cx) (as_bytes p)") (auto simp: rotate_def)
  show thesis
    using assms own e by (intro that [OF e c])
      (auto simp: rotate_def Let_def with_db_def update_credential_def notify_credential_def run_stmt_def c split: option.splits)
qed


text \<open>The row that a successful \<open>store\<close> or \<open>rotate\<close> leaves, and that the others are as before.\<close>

definition stored_row :: "'c cred_ext \<Rightarrow> bytes \<Rightarrow> uuid \<Rightarrow> string \<Rightarrow> credential_meta \<Rightarrow> api_db \<Rightarrow> api_db \<Rightarrow> credential_entry \<Rightarrow> bool" where
  "stored_row cx nonce sid p meta db db' row \<longleftrightarrow> row \<in> set (t_credentials db') \<and> ce_server_id row = sid \<and> meta = row_to_meta row \<and>
     encrypt (cx_gcm cx) nonce (cx_key cx) (as_bytes p) = Inr (ce_encrypted_payload row) \<and>
     (\<forall>d \<in> set (t_credentials db'). d \<noteq> row \<longrightarrow> d \<in> set (t_credentials db) \<and> ce_id d \<noteq> ce_id row)"

lemma store_row:
  assumes "store cx nonce x sid ty kn p uid st = (Inr meta, st')"
  shows "\<exists>row. stored_row cx nonce sid p meta (ap_db st) (ap_db st') row"
  using assms
proof (rule store_success)
  fix enc row assume e: "encrypt (cx_gcm cx) nonce (cx_key cx) (as_bytes p) = Inr enc"
    and row: "row = \<lparr>ce_id = sm_uuid x, ce_server_id = sid, ce_auth_type = ty, ce_key_name = kn, ce_encrypted_payload = enc,
      ce_iv = take 12 enc, ce_hint = Some (compute_hint p), ce_created_at = sm_now x\<rparr>" "meta = row_to_meta row"
    and db: "\<forall>d \<in> set (t_credentials (ap_db st)). ce_id d \<noteq> sm_uuid x"
      "ap_db st' = (ap_db st)\<lparr>t_credentials := t_credentials (ap_db st) @ [row]\<rparr>"
  have "ce_id row = sm_uuid x" "ce_server_id row = sid" "ce_encrypted_payload row = enc" by (simp_all add: row(1))
  with e row(2) db show ?thesis by (intro exI [of _ row]) (simp add: stored_row_def)
qed

lemma rotate_row:
  assumes "db_ok (ap_db st)" "rotate cx nonce xs cid sid p uid st = (Inr meta, st')"
  shows "\<exists>row. stored_row cx nonce sid p meta (ap_db st) (ap_db st') row"
  using assms(2)
proof (rule rotate_success)
  fix enc c assume e: "encrypt (cx_gcm cx) nonce (cx_key cx) (as_bytes p) = Inr enc"
    and c: "find (\<lambda>c. ce_id c = cid) (t_credentials (ap_db st)) = Some c" "ce_server_id c = sid"
      "meta = row_to_meta (c\<lparr>ce_encrypted_payload := enc, ce_iv := take 12 enc\<rparr>)"
    and db: "ap_db st' = (ap_db st)\<lparr>t_credentials := map (\<lambda>d. if ce_id d = cid
        then d\<lparr>ce_encrypted_payload := enc, ce_iv := take 12 enc\<rparr> else d) (t_credentials (ap_db st)),
      t_notices := t_notices (ap_db st) @ (if sm_error (xs 2) = None then [Credential_Updated (cx_uuid_text cx sid)] else [])\<rparr>"
  let ?row = "c\<lparr>ce_encrypted_payload := enc, ce_iv := take 12 enc\<rparr>"
  let ?f = "\<lambda>d. if ce_id d = cid then d\<lparr>ce_encrypted_payload := enc, ce_iv := take 12 enc\<rparr> else d"
  have m: "c \<in> set (t_credentials (ap_db st))" "ce_id c = cid" using c(1) by (auto simp: find_Some_iff)
  have "inj_on ce_id (set (t_credentials (ap_db st)))" using assms(1) by (simp add: db_ok_def credentials_ok_def distinct_map)
  then have one: "d = c" if "d \<in> set (t_credentials (ap_db st))" "ce_id d = cid" for d using that m by (auto dest: inj_onD)
  have creds: "t_credentials (ap_db st') = map ?f (t_credentials (ap_db st))" by (simp add: db)
  have "?f c \<in> set (t_credentials (ap_db st'))" unfolding creds list.set_map using m(1) by (rule imageI)
  then have "?row \<in> set (t_credentials (ap_db st'))" using m(2) by simp
  moreover have "d \<in> set (t_credentials (ap_db st)) \<and> ce_id d \<noteq> ce_id ?row"
    if d: "d \<in> set (t_credentials (ap_db st'))" "d \<noteq> ?row" for d
  proof -
    obtain g where g: "g \<in> set (t_credentials (ap_db st))" "d = ?f g" using d(1) unfolding creds list.set_map by blast
    then have "ce_id g \<noteq> cid" using one [of g] d(2) by auto
    with g m(2) show ?thesis by simp
  qed
  ultimately show ?thesis using c(2,3) e by (intro exI [of _ ?row]) (simp add: stored_row_def)
qed

text \<open>
  C20: A stored credential reaches the upstream as it was entered: after \<open>store\<close> or \<open>rotate\<close>, the injector's query
  finds the credential, and decryption under the same key gives back exactly the bytes of the secret, with the stored type and name. The
  condition is that the credential is the newest of its server.
\<close>

theorem stored_credential_injectable:
  assumes "gcm_ok (cx_gcm cx)" "length nonce = 12" "sm_error y = None" "db_ok (ap_db st)"
    and "if rotated then rotate cx nonce xs cid sid p uid st = (Inr meta, st')
      else store cx nonce (xs 0) sid ty kn p uid st = (Inr meta, st')"
    and "\<And>d. d \<in> set (t_credentials (ap_db st)) \<Longrightarrow> ce_server_id d = sid \<Longrightarrow> ce_id d \<noteq> cm_id meta \<Longrightarrow>
      ce_created_at d < cm_created_at meta"
  shows "\<exists>cred. fetch_credential (newest_credential y (ap_db st')) sid = Inr cred \<and>
    decrypt (cx_gcm cx) (cx_key cx) (cr_encrypted_payload cred) = Inr (as_bytes p) \<and>
    map (\<lambda>b. char_of (unat b)) (as_bytes p) = p \<and>
    cr_auth_type cred = cm_auth_type meta \<and> cr_key_name cred = cm_key_name meta"
proof -
  obtain row where row: "stored_row cx nonce sid p meta (ap_db st) (ap_db st') row"
    using assms(5) store_row rotate_row [OF assms(4)] by (metis (full_types))
  have newest: "ce_created_at d < ce_created_at row"
    if "d \<in> set (t_credentials (ap_db st'))" "ce_server_id d = ce_server_id row" "d \<noteq> row" for d
    using assms(6) [of d] row that by (auto simp: stored_row_def row_to_meta_def)
  have mem: "row \<in> set (t_credentials (ap_db st'))" using row by (simp add: stored_row_def)
  show ?thesis
    using newest_credential_of [OF assms(3) mem newest] row decrypt_encrypt [OF assms(1,2), of "cx_key cx" "as_bytes p"]
    by (auto simp: stored_row_def as_bytes_back row_to_meta_def)
qed

text \<open>
  The secret stays in: whatever the secret is, a rotation answers the same, and so does the creation of a credential for all secrets
  with the same first four characters; the list of credentials afterwards is the same as well.
\<close>

theorem credential_secret_hidden:
  assumes "rotated \<or> take_chars 4 p = take_chars 4 q"
    and "if rotated then rotate cx nonce xs cid sid p uid st = (Inr meta, st1) \<and> rotate cx nonce' xs cid sid q uid st = (Inr meta', st2)
      else store cx nonce (xs 0) sid ty kn p uid st = (Inr meta, st1) \<and> store cx nonce' (xs 0) sid ty kn q uid st = (Inr meta', st2)"
  shows "meta = meta' \<and> list_for_server y s (ap_db st1) = list_for_server y s (ap_db st2)"
proof -
  have lists: "list_for_server y s db = list_for_server y s db'"
    if "map row_to_meta (t_credentials db) = map row_to_meta (t_credentials db')" for db db'
  proof -
    have f: "map row_to_meta (filter (\<lambda>c. ce_server_id c = s) cs) = filter (\<lambda>m. cm_server_id m = s) (map row_to_meta cs)" for cs
      by (induction cs) (auto simp: row_to_meta_def)
    have "map row_to_meta (by_created ce_created_at cs) = by_created cm_created_at (map row_to_meta cs)" for cs
    proof -
      have "map row_to_meta (insort_key (\<lambda>r. - ce_created_at r) c ds) = insort_key (\<lambda>r. - cm_created_at r) (row_to_meta c) (map row_to_meta ds)" for c ds
        by (induction ds) (auto simp: row_to_meta_def)
      then show ?thesis by (induction cs) (auto simp: by_created_def sort_key_def)
    qed
    with that show ?thesis by (simp add: list_for_server_def select_credentials_def run_stmt_def f split: option.split)
  qed
  show ?thesis
  proof (cases rotated)
    case True
    then have "rotate cx nonce xs cid sid p uid st = (Inr meta, st1)" "rotate cx nonce' xs cid sid q uid st = (Inr meta', st2)"
      using assms(2) by auto
    then show ?thesis
      by (elim rotate_success) (auto intro!: lists simp: row_to_meta_def)
  next
    case False
    then have "compute_hint p = compute_hint q" using assms(1) by (simp add: compute_hint_def)
    moreover have "store cx nonce (xs 0) sid ty kn p uid st = (Inr meta, st1)" "store cx nonce' (xs 0) sid ty kn q uid st = (Inr meta', st2)"
      using assms(2) False by auto
    ultimately show ?thesis by (elim store_success) (auto intro!: lists simp: row_to_meta_def)
  qed
qed

section \<open>Examples\<close>

definition sample_cx :: "(nat \<times> audit_event list) cred_ext" where
  "sample_cx = \<lparr>cx_mpsc = queue_mpsc, cx_gcm = tag_gcm, cx_key = sample_key, cx_uuid_text = (\<lambda>_. ''7''), cx_sha256 = as_bytes\<rparr>"

definition sample_meta :: credential_meta where
  "sample_meta =
     \<lparr>cm_id = 20, cm_server_id = 7, cm_auth_type = ''bearer'', cm_key_name = None, cm_hint = Some ''abcd****'', cm_created_at = 20\<rparr>"

lemma sample_store:
  assumes "take_chars 4 p = ''abcd''"
  shows "\<exists>st'. store sample_cx (replicate 12 1) (sample_stmt 20) 7 ''bearer'' None p (Some 1) sample_api = (Inr sample_meta, st')"
  using assms by (simp add: store_def sample_cx_def encrypt_def tag_gcm_def sample_key_def with_db_def insert_credential_def run_stmt_def
      sample_stmt_def sample_api_def sample_db_def AUTH_TYPES_def Let_def compute_hint_def row_to_meta_def sample_meta_def)

theorem stored_credential_injectable_witness:
  "\<exists>st'. store sample_cx (replicate 12 1) (sample_stmt 20) 7 ''bearer'' None ''abcde'' (Some 1) sample_api = (Inr sample_meta, st') \<and>
    (\<exists>cred. fetch_credential (newest_credential (sample_stmt 0) (ap_db st')) 7 = Inr cred \<and>
      decrypt tag_gcm sample_key (cr_encrypted_payload cred) = Inr (as_bytes ''abcde''))"
proof -
  have "take_chars 4 ''abcde'' = ''abcd''" by code_simp
  from sample_store [OF this] obtain st'
    where s: "store sample_cx (replicate 12 1) (sample_stmt 20) 7 ''bearer'' None ''abcde'' (Some 1) sample_api = (Inr sample_meta, st')" by blast
  have cx: "cx_gcm sample_cx = tag_gcm" "cx_key sample_cx = sample_key" by (simp_all add: sample_cx_def)
  have "sm_error (sample_stmt 0) = None" "db_ok (ap_db sample_api)" "t_credentials (ap_db sample_api) = []"
    by (simp_all add: sample_stmt_def sample_api_def sample_db_ok) (simp add: sample_db_def)
  with stored_credential_injectable [where rotated = False and cx = sample_cx and xs = "\<lambda>_. sample_stmt 20" and st = sample_api
      and y = "sample_stmt 0" and nonce = "replicate 12 1" and sid = 7 and meta = sample_meta and st' = st' and p = "''abcde''"
      and ty = "''bearer''" and kn = None and uid = "Some 1", unfolded cx, OF tag_gcm_ok] s
  show ?thesis by auto
qed

theorem credential_secret_hidden_witness:
  "\<exists>st1 st2. store sample_cx (replicate 12 1) (sample_stmt 20) 7 ''bearer'' None ''abcde'' (Some 1) sample_api = (Inr sample_meta, st1) \<and>
    store sample_cx (replicate 12 1) (sample_stmt 20) 7 ''bearer'' None ''abcdf'' (Some 1) sample_api = (Inr sample_meta, st2) \<and>
    list_for_server (sample_stmt 0) 7 (ap_db st1) = list_for_server (sample_stmt 0) 7 (ap_db st2)"
proof -
  have t: "take_chars 4 ''abcde'' = ''abcd''" "take_chars 4 ''abcdf'' = ''abcd''" by code_simp+
  obtain st1 st2 where
    "store sample_cx (replicate 12 1) (sample_stmt 20) 7 ''bearer'' None ''abcde'' (Some 1) sample_api = (Inr sample_meta, st1)"
    "store sample_cx (replicate 12 1) (sample_stmt 20) 7 ''bearer'' None ''abcdf'' (Some 1) sample_api = (Inr sample_meta, st2)"
    using sample_store [OF t(1)] sample_store [OF t(2)] by blast
  with credential_secret_hidden [where rotated = False and xs = "\<lambda>_. sample_stmt 20" and p = "''abcde''" and q = "''abcdf''"
      and y = "sample_stmt 0" and s = 7] t show ?thesis by fastforce
qed

end
