(* ===== verification/Api_Routes.thy ===== *)
theory Api_Routes
  imports Api_Credentials
begin

text \<open>
  The way into the platform API: \<open>services/api/src/auth.rs\<close>, the JWKS cache and the JWT middleware,
  \<open>handlers/webhooks.rs\<close> and \<open>handlers/users.rs\<close>, and the protected routes of \<open>router.rs\<close>. The
  JWT library, the HTTP client and the Svix library are parameters.
\<close>

section \<open>The protected routes\<close>

record authenticated_user =
  ru_id :: uuid
  ru_clerk_id :: string
  ru_email :: string

record user_response =
  ur_id :: uuid
  ur_email :: string
  ur_created_at :: int

definition me_handler :: "stmt \<Rightarrow> authenticated_user \<Rightarrow> api_db \<Rightarrow> app_error + user_response" where
  "me_handler x user db =
     and_then (map_err (\<lambda>_. InternalServerError ''Failed to fetch user record.'') (select_user_created x (ru_id user) db)) (\<lambda>created_at.
     Inr \<lparr>ur_id = ru_id user, ur_email = ru_email user, ur_created_at = created_at\<rparr>)"

datatype api_op =
    Get_Me
  | List_Servers list_servers_query
  | Create_Server create_server_request
  | Get_Server uuid
  | Update_Server uuid update_server_request
  | Delete_Server uuid
  | Validate_Url uuid string
  | List_Credentials uuid
  | Create_Credential uuid create_credential_request
  | Rotate_Credential uuid uuid string
  | Delete_Credential uuid uuid
  | List_Tokens uuid
  | Create_Token uuid "string option"
  | Revoke_Token uuid uuid

datatype api_reply =
    User_Reply user_response
  | Server_Reply server_response
  | Servers_Reply "server_response list" nat bool
  | Url_Reply validate_url_response
  | Credential_Reply credential_meta
  | Credentials_Reply "credential_meta list"
  | Token_Reply token_created_response
  | Tokens_Reply "token_meta list"
  | No_Content

text \<open>What one request gets from outside: the answers of PostgreSQL and the random bytes and characters.\<close>

record op_env =
  oe_stmts :: "nat \<Rightarrow> stmt"
  oe_tries :: "nat \<Rightarrow> string \<times> stmt"
  oe_random :: bytes

text \<open>A handler that reads, and one that changes the state.\<close>

definition reading :: "('a \<Rightarrow> api_reply) \<Rightarrow> app_error + 'a \<Rightarrow> ('c, 'd) api_state \<Rightarrow> (app_error + api_reply) \<times> ('c, 'd) api_state" where
  "reading f r st = (and_then r (\<lambda>a. Inr (f a)), st)"

definition writing :: "('a \<Rightarrow> api_reply) \<Rightarrow> (app_error + 'a) \<times> ('c, 'd) api_state \<Rightarrow> (app_error + api_reply) \<times> ('c, 'd) api_state" where
  "writing f p = (and_then (fst p) (\<lambda>a. Inr (f a)), snd p)"

fun v1_protected ::
  "('u, 'n, 'm, 'c) api_ext \<Rightarrow> 'c cred_ext \<Rightarrow> op_env \<Rightarrow> api_op \<Rightarrow> authenticated_user
   \<Rightarrow> ('c, 'd) api_state \<Rightarrow> (app_error + api_reply) \<times> ('c, 'd) api_state" where
  "v1_protected ax cx env Get_Me user st = reading User_Reply (me_handler (oe_stmts env 0) user (ap_db st)) st"
| "v1_protected ax cx env (List_Servers params) user st =
     reading (\<lambda>(servers, n, has_next). Servers_Reply servers n has_next)
       (list_servers ax (oe_stmts env) (ru_id user) params (ap_db st)) st"
| "v1_protected ax cx env (Create_Server body) user st =
     writing Server_Reply (create_server_handler ax (oe_tries env) (ru_id user) body st)"
| "v1_protected ax cx env (Get_Server sid) user st =
     reading Server_Reply (get_server ax (oe_stmts env 0) (ru_id user) sid (ap_db st)) st"
| "v1_protected ax cx env (Update_Server sid body) user st =
     writing Server_Reply (update_server_handler ax (oe_stmts env) (ru_id user) sid body st)"
| "v1_protected ax cx env (Delete_Server sid) user st =
     writing (\<lambda>_. No_Content) (delete_server ax (oe_stmts env 0) (ru_id user) sid st)"
| "v1_protected ax cx env (Validate_Url sid url) user st =
     reading Url_Reply (validate_url_handler ax (oe_stmts env 0) (ru_id user) sid url (ap_db st)) st"
| "v1_protected ax cx env (List_Credentials sid) user st =
     reading Credentials_Reply (list_credentials_handler (oe_stmts env) (ru_id user) sid (ap_db st)) st"
| "v1_protected ax cx env (Create_Credential sid body) user st =
     writing Credential_Reply (create_credential_handler cx (oe_random env) (oe_stmts env) (ru_id user) sid body st)"
| "v1_protected ax cx env (Rotate_Credential sid cid v) user st =
     writing Credential_Reply (rotate_credential_handler cx (oe_random env) (oe_stmts env) (ru_id user) sid cid v st)"
| "v1_protected ax cx env (Delete_Credential sid cid) user st =
     writing (\<lambda>_. No_Content) (delete_credential_handler cx (oe_stmts env) (ru_id user) sid cid st)"
| "v1_protected ax cx env (List_Tokens sid) user st =
     reading Tokens_Reply (list_tokens_handler (oe_stmts env) (ru_id user) sid (ap_db st)) st"
| "v1_protected ax cx env (Create_Token sid d) user st =
     writing Token_Reply (create_token_handler cx (oe_random env) (oe_stmts env) (ru_id user) sid d st)"
| "v1_protected ax cx env (Revoke_Token sid tid) user st =
     writing (\<lambda>_. No_Content) (revoke_token_handler cx (oe_stmts env) (ru_id user) sid tid st)"

section \<open>Isolation of users\<close>

definition kept_for :: "('u, 'n, 'm, 'c) api_ext \<Rightarrow> uuid \<Rightarrow> api_db \<Rightarrow> api_db \<Rightarrow> bool" where
  "kept_for ax u db db' \<longleftrightarrow> (db_ok db \<longrightarrow> db_ok db' \<and> others_kept u db db') \<and> (configs_ok ax db \<longrightarrow> configs_ok ax db')"

lemma kept_for_refl [simp]: "kept_for ax u db db"
  by (simp add: kept_for_def)

lemma kept_for_trans: "kept_for ax u a b \<Longrightarrow> kept_for ax u b c \<Longrightarrow> kept_for ax u a c"
  by (auto simp: kept_for_def intro: others_kept_trans)

lemma configs_ok_same: "t_servers db' = t_servers db \<Longrightarrow> configs_ok ax db' = configs_ok ax db"
  by (simp add: configs_ok_def)

lemma verified_owner:
  "verify_server_ownership x sid u db = Inr v \<Longrightarrow> \<exists>s \<in> set (t_servers db). owned_by u sid s"
  by (auto simp: verify_server_ownership_def select_server_def run_stmt_def find_Some_iff and_then_eq_Inr
      split: option.splits if_splits)

lemma servers_unchanged:
  "t_servers (snd (insert_credential x sid a k p iv h db)) = t_servers db"
  "t_servers (snd (update_credential x cid p iv db)) = t_servers db"
  "t_servers (snd (delete_credential x cid db)) = t_servers db"
  "t_servers (snd (notify_credential x t db)) = t_servers db"
  "t_servers (snd (insert_token x sid hash d h db)) = t_servers db"
  "t_servers (snd (revoke_token_stmt x tid db)) = t_servers db"
  by (auto simp: stmt_defs Let_def split: option.split)

lemma server_handlers_keep:
  "create_server_handler ax tries u body st = (r, st') \<Longrightarrow> kept_for ax u (ap_db st) (ap_db st')"
  "update_server_handler ax xs u sid ubody st = (r, st') \<Longrightarrow> kept_for ax u (ap_db st) (ap_db st')"
  "delete_server ax x u sid st = (dr, st') \<Longrightarrow> kept_for ax u (ap_db st) (ap_db st')"
proof -
  show "kept_for ax u (ap_db st) (ap_db st')" if "create_server_handler ax tries u body st = (r, st')"
    using create_handler_db [OF that]
  proof (elim disjE exE conjE)
    fix x sl assume v: "validate_config_ssrf ax (cq_config body) = Inr ()"
      and db: "ap_db st' = snd (insert_server x u (cq_display_name body) sl (cq_description body) (config_to_value (cq_config body)) (ap_db st))"
    show ?thesis unfolding kept_for_def db using insert_server_ok insert_server_others insert_server_configs [OF _ v] by blast
  qed simp
  show "kept_for ax u (ap_db st) (ap_db st')" if u: "update_server_handler ax xs u sid ubody st = (r, st')"
  proof -
    have "others_kept u (ap_db st) (ap_db st') \<and> (db_ok (ap_db st) \<longrightarrow> db_ok (ap_db st'))"
      using update_handler_db [OF u]
    proof (elim disjE exE conjE)
      fix cur new assume db: "ap_db st' = snd (update_server_stmt (xs 1) (mg_name new) (mg_description new) (mg_config_json new)
          (mg_status new) sid u (ap_db st))"
      show ?thesis unfolding db using update_server_stmt_ok update_server_others by blast
    qed simp
    with update_handler_configs [OF _ u] show ?thesis unfolding kept_for_def by blast
  qed
  show "kept_for ax u (ap_db st) (ap_db st')" if d: "delete_server ax x u sid st = (dr, st')"
  proof -
    have "configs_ok ax (snd (delete_server_stmt x sid u (ap_db st)))" if "configs_ok ax (ap_db st)"
      using that by (auto simp: configs_ok_def stmt_defs drop_servers_def Let_def split: option.split)
    then show ?thesis
      unfolding delete_server_db [OF d] kept_for_def using delete_server_stmt_ok delete_server_others by blast
  qed
qed

lemma kept_forI:
  assumes "db_ok db \<Longrightarrow> db_ok db'" "db_ok db \<Longrightarrow> others_kept u db db'" "t_servers db' = t_servers db"
  shows "kept_for ax u db db'"
  using assms(1,2) configs_ok_same [OF assms(3)] unfolding kept_for_def by blast

lemma credential_statements_keep:
  assumes "s \<in> set (t_servers db)" "owned_by u sid s"
  shows "kept_for ax u db (snd (insert_credential x sid a k p iv h db))"
    and "kept_for ax u db (snd (insert_token x sid hash d h db))"
proof -
  show "kept_for ax u db (snd (insert_credential x sid a k p iv h db))"
    by (rule kept_forI [OF credential_stmts_ok(1) insert_credential_others [OF _ assms] servers_unchanged(1)])
  show "kept_for ax u db (snd (insert_token x sid hash d h db))"
    by (rule kept_forI [OF token_stmts_ok(1) insert_token_others [OF _ assms] servers_unchanged(5)])
qed

lemma credential_changes_keep:
  assumes "s \<in> set (t_servers db)" "owned_by u sid s"
    and "\<And>c. db_ok db \<Longrightarrow> c \<in> set (t_credentials db) \<Longrightarrow> ce_id c = cid \<Longrightarrow> ce_server_id c = sid"
  shows "kept_for ax u db (snd (update_credential x cid p iv db))" "kept_for ax u db (snd (delete_credential x cid db))"
proof -
  show "kept_for ax u db (snd (update_credential x cid p iv db))"
    by (rule kept_forI [OF credential_stmts_ok(2) update_credential_others(1) [OF _ assms(1,2)] servers_unchanged(2)]) (assumption | rule assms(3))+
  show "kept_for ax u db (snd (delete_credential x cid db))"
    by (rule kept_forI [OF credential_stmts_ok(3) update_credential_others(2) [OF _ assms(1,2)] servers_unchanged(3)]) (assumption | rule assms(3))+
qed

lemma notify_keeps: "kept_for ax u db (snd (notify_credential x t db))"
  by (rule kept_forI [OF credential_stmts_ok(4) notify_others servers_unchanged(4)])

lemma credential_found_once:
  assumes "credential_of_server x cid sid db = Inr v" "db_ok db" "c \<in> set (t_credentials db)" "ce_id c = cid"
  shows "ce_server_id c = sid"
proof -
  obtain d where d: "find (\<lambda>c. ce_id c = cid) (t_credentials db) = Some d" "ce_server_id d = sid"
    using assms(1) by (auto simp: credential_of_server_def select_credential_server_def run_stmt_def and_then_eq_Inr ok_or_eq_Inr
        split: option.splits if_splits)
  then have "d \<in> set (t_credentials db)" "ce_id d = cid" by (auto simp: find_Some_iff)
  moreover have "inj_on ce_id (set (t_credentials db))" using assms(2) by (simp add: db_ok_def credentials_ok_def distinct_map)
  ultimately have "d = c" using assms(3,4) by (auto dest: inj_onD)
  with d(2) show ?thesis by simp
qed

lemma store_keeps:
  assumes "s \<in> set (t_servers (ap_db st))" "owned_by u sid s" "store cx nonce x sid ty kn p uid st = (r, st')"
  shows "kept_for ax u (ap_db st) (ap_db st')"
proof (cases "encrypt (cx_gcm cx) nonce (cx_key cx) (as_bytes p)")
  case (Inr enc)
  obtain ir st1 where i: "with_db (insert_credential x sid ty kn enc (take 12 enc) (compute_hint p)) st = (ir, st1)"
    by (meson surj_pair)
  then have "ap_db st' = ap_db st1" using assms(3) Inr by (auto simp: store_def Let_def split: sum.splits)
  with i show ?thesis using credential_statements_keep(1) [OF assms(1,2)] by (auto simp: with_db_eq)
qed (use assms(3) in \<open>simp add: store_def\<close>)

lemma rotate_keeps:
  assumes "s \<in> set (t_servers (ap_db st))" "owned_by u sid s" "rotate cx nonce xs cid sid p uid st = (r, st')"
  shows "kept_for ax u (ap_db st) (ap_db st')"
proof (cases "credential_of_server (xs 0) cid sid (ap_db st)")
  case own: (Inr v)
  have keep: "kept_for ax u (ap_db st) (snd (update_credential x cid q iv (ap_db st)))" for x q iv
    by (rule credential_changes_keep(1) [OF assms(1,2)]) (rule credential_found_once [OF own])
  show ?thesis
  proof (cases "encrypt (cx_gcm cx) nonce (cx_key cx) (as_bytes p)")
    case (Inr enc)
    obtain ur st1 where i: "with_db (update_credential (xs 1) cid enc (take 12 enc)) st = (ur, st1)" by (meson surj_pair)
    then have k: "kept_for ax u (ap_db st) (ap_db st1)" using keep by (auto simp: with_db_eq)
    have "ap_db st' = ap_db st1 \<or> ap_db st' = snd (notify_credential (xs 2) (cx_uuid_text cx sid) (ap_db st1))"
      using assms(3) own Inr i by (auto simp: rotate_def Let_def with_db_def split: sum.splits prod.splits)
    then show ?thesis
    proof
      assume n: "ap_db st' = snd (notify_credential (xs 2) (cx_uuid_text cx sid) (ap_db st1))"
      show ?thesis unfolding n by (rule kept_for_trans [OF k notify_keeps])
    qed (use k in simp)
  qed (use assms(3) own in \<open>simp add: rotate_def\<close>)
qed (use assms(3) in \<open>simp add: rotate_def\<close>)

lemma delete_keeps:
  assumes "s \<in> set (t_servers (ap_db st))" "owned_by u sid s" "delete cx xs cid sid uid st = (r, st')"
  shows "kept_for ax u (ap_db st) (ap_db st')"
proof (cases "credential_of_server (xs 0) cid sid (ap_db st)")
  case own: (Inr v)
  have keep: "kept_for ax u (ap_db st) (snd (delete_credential x cid (ap_db st)))" for x
    by (rule credential_changes_keep(2) [OF assms(1,2)]) (rule credential_found_once [OF own])
  obtain dr st1 where i: "with_db (delete_credential (xs 1) cid) st = (dr, st1)" by (meson surj_pair)
  then have "ap_db st' = ap_db st1" using assms(3) own by (auto simp: delete_def split: sum.splits)
  with i keep show ?thesis by (auto simp: with_db_eq)
qed (use assms(3) in \<open>simp add: delete_def\<close>)

lemma create_token_keeps:
  assumes "create_token_handler cx random xs u sid d st = (r, st')"
  shows "kept_for ax u (ap_db st) (ap_db st')"
proof (cases "verify_server_ownership (xs 0) sid u (ap_db st)")
  case (Inr v)
  obtain s where s: "s \<in> set (t_servers (ap_db st))" "owned_by u sid s" using verified_owner [OF Inr] by blast
  obtain raw hash hint where g: "generate_server_token (cx_sha256 cx) random = (raw, hash, hint)" using prod_cases3 by blast
  obtain ir st1 where i: "with_db (insert_token (xs 1) sid hash d hint) st = (ir, st1)" by (meson surj_pair)
  then have "ap_db st' = ap_db st1"
    using assms Inr g by (auto simp: create_token_handler_def emit_token_audit_def split: sum.splits)
  with i show ?thesis using credential_statements_keep(2) [OF s] by (auto simp: with_db_eq)
qed (use assms in \<open>simp add: create_token_handler_def\<close>)

lemma revoke_token_keeps:
  assumes "revoke_token_handler cx xs u sid tid st = (r, st')"
  shows "kept_for ax u (ap_db st) (ap_db st')"
proof (cases "and_then (verify_server_ownership (xs 0) sid u (ap_db st)) (\<lambda>_.
    and_then (map_err (\<lambda>e. InternalServerError (''token lookup failed: '' @ sql_text e)) (select_token_server (xs 1) tid (ap_db st))) (\<lambda>found.
    and_then (ok_or (NotFound ''token not found'') found) (\<lambda>existing_server_id.
    if existing_server_id \<noteq> sid then Inl (NotFound ''token not found'') else Inr ())))")
  case (Inr v)
  let ?db = "ap_db st"
  obtain w t where v: "verify_server_ownership (xs 0) sid u ?db = Inr w"
    and t: "find (\<lambda>t. tk_id t = tid) (t_tokens ?db) = Some t" "tk_server_id t = sid"
    using Inr by (auto simp: and_then_eq_Inr ok_or_eq_Inr select_token_server_def run_stmt_def split: option.splits if_splits)
  obtain s where s: "s \<in> set (t_servers ?db)" "owned_by u sid s" using verified_owner [OF v] by blast
  have one: "tk_server_id t' = sid" if "db_ok ?db" "t' \<in> set (t_tokens ?db)" "tk_id t' = tid" for t'
  proof -
    have "inj_on tk_id (set (t_tokens ?db))" using that(1) by (simp add: db_ok_def tokens_ok_def distinct_map)
    moreover have "t \<in> set (t_tokens ?db)" "tk_id t = tid" using t(1) by (auto simp: find_Some_iff)
    ultimately have "t' = t" using that(2,3) by (auto dest: inj_onD)
    with t(2) show ?thesis by simp
  qed
  have "kept_for ax u ?db (snd (revoke_token_stmt (xs 2) tid ?db))"
    by (rule kept_forI [OF token_stmts_ok(2) revoke_token_others [OF _ s] servers_unchanged(6)]) (assumption | rule one)+
  moreover obtain rr st1 where i: "with_db (revoke_token_stmt (xs 2) tid) st = (rr, st1)" by (meson surj_pair)
  moreover have "ap_db st' = ap_db st1"
    using assms Inr i by (auto simp: revoke_token_handler_def emit_token_audit_def split: sum.splits)
  ultimately show ?thesis by (auto simp: with_db_eq)
qed (use assms in \<open>simp add: revoke_token_handler_def\<close>)

lemma credential_handlers_keep:
  "create_credential_handler cx nonce xs u sid body st = (r, st') \<Longrightarrow> kept_for ax u (ap_db st) (ap_db st')"
  "rotate_credential_handler cx nonce xs u sid cid v st = (r, st') \<Longrightarrow> kept_for ax u (ap_db st) (ap_db st')"
  "delete_credential_handler cx xs u sid cid st = (dr, st') \<Longrightarrow> kept_for ax u (ap_db st) (ap_db st')"
proof -
  let ?v = "verify_server_ownership (xs 0) sid u (ap_db st)"
  show "kept_for ax u (ap_db st) (ap_db st')" if h: "create_credential_handler cx nonce xs u sid body st = (r, st')"
  proof (cases ?v)
    case (Inr w)
    then show ?thesis using verified_owner [OF Inr] h store_keeps by (auto simp: create_credential_handler_def)
  qed (use h in \<open>simp add: create_credential_handler_def\<close>)
  show "kept_for ax u (ap_db st) (ap_db st')" if h: "rotate_credential_handler cx nonce xs u sid cid v st = (r, st')"
  proof (cases ?v)
    case (Inr w)
    then show ?thesis using verified_owner [OF Inr] h rotate_keeps by (auto simp: rotate_credential_handler_def)
  qed (use h in \<open>simp add: rotate_credential_handler_def\<close>)
  show "kept_for ax u (ap_db st) (ap_db st')" if h: "delete_credential_handler cx xs u sid cid st = (dr, st')"
  proof (cases ?v)
    case (Inr w)
    then show ?thesis using verified_owner [OF Inr] h delete_keeps by (auto simp: delete_credential_handler_def)
  qed (use h in \<open>simp add: delete_credential_handler_def\<close>)
qed

lemma v1_protected_keeps:
  assumes "v1_protected ax cx env oper user st = (r, st')"
  shows "kept_for ax (ru_id user) (ap_db st) (ap_db st')"
proof -
  have w: "\<exists>q. p = (q, st')" if "writing f p = (r, st')" for p and f :: "'x \<Rightarrow> api_reply"
    using that by (cases p) (simp add: writing_def)
  show ?thesis
  proof (cases oper)
    case (Create_Server b)
    then show ?thesis using assms w server_handlers_keep(1) by fastforce
  next
    case (Update_Server sid b)
    then show ?thesis using assms w server_handlers_keep(2) by fastforce
  next
    case (Delete_Server sid)
    then show ?thesis using assms w server_handlers_keep(3) by fastforce
  next
    case (Create_Credential sid b)
    then show ?thesis using assms w credential_handlers_keep(1) by fastforce
  next
    case (Rotate_Credential sid cid v)
    then show ?thesis using assms w credential_handlers_keep(2) by fastforce
  next
    case (Delete_Credential sid cid)
    then show ?thesis using assms w credential_handlers_keep(3) by fastforce
  next
    case (Create_Token sid d)
    then show ?thesis using assms w create_token_keeps by fastforce
  next
    case (Revoke_Token sid tid)
    then show ?thesis using assms w revoke_token_keeps by fastforce
  qed (use assms in \<open>auto simp: reading_def\<close>)
qed

text \<open>What a reply shows belongs to the user.\<close>

definition own_server :: "uuid \<Rightarrow> api_db \<Rightarrow> uuid \<Rightarrow> bool" where
  "own_server u db sid \<longleftrightarrow> (\<exists>s \<in> set (t_servers db). owned_by u sid s)"

fun reply_own :: "uuid \<Rightarrow> api_db \<Rightarrow> api_reply \<Rightarrow> bool" where
  "reply_own u db (User_Reply r) = (ur_id r = u)"
| "reply_own u db (Server_Reply r) = own_server u db (sr_id r)"
| "reply_own u db (Servers_Reply rs n b) = (list_all (\<lambda>r. own_server u db (sr_id r)) rs \<and> n = length (servers_of u db))"
| "reply_own u db (Credential_Reply m) = own_server u db (cm_server_id m)"
| "reply_own u db (Credentials_Reply ms) = list_all (\<lambda>m. own_server u db (cm_server_id m)) ms"
| "reply_own u db (Token_Reply t) = own_server u db (tc_server_id t)"
| "reply_own u db (Tokens_Reply ts) = list_all (\<lambda>t. own_server u db (tm_server_id t)) ts"
| "reply_own u db (Url_Reply v) = True"
| "reply_own u db No_Content = True"

lemma map_err_eq_Inr: "map_err f r = Inr a \<longleftrightarrow> r = Inr a"
  by (cases r) auto

lemma row_response_id: "row_to_server_response ax row = Inr r \<Longrightarrow> sr_id r = sv_id row"
  by (auto simp: row_to_server_response_def and_then_eq_Inr)

lemma collect_response_ids: "collect_results (row_to_server_response ax) rows = Inr rs \<Longrightarrow> map sr_id rs = map sv_id rows"
  by (induction rows arbitrary: rs) (auto simp: and_then_eq_Inr row_response_id)

lemma list_servers_rows:
  assumes "list_servers ax xs u params db = Inr (rs, n, b)"
  obtains rows k where "set rows \<subseteq> set (servers_of u db)" "n = length (servers_of u db)"
    and "collect_results (row_to_server_response ax) (take k rows) = Inr rs"
proof (cases "lq_after params")
  case None
  then obtain rows where r: "select_page (xs 2) u (Suc (page_limit (lq_limit params))) db = Inr rows" "count_servers (xs 0) u db = Inr n"
    "collect_results (row_to_server_response ax) (take (min (length rows) (page_limit (lq_limit params))) rows) = Inr rs"
    using assms unfolding list_servers_def Let_def page_limit_def [symmetric] None option.case and_then_eq_Inr map_err_eq_Inr
      sum.inject prod.inject Suc_eq_plus1 by blast
  show thesis
    by (rule that [OF _ _ r(3)]) (use r(1,2) in \<open>auto simp: select_page_def count_servers_def run_stmt_def
      split: option.splits dest!: in_set_takeD\<close>)
next
  case (Some after_id)
  then obtain rows and c :: server_row where r: "select_page_after (xs 2) u (sv_created_at c) after_id (Suc (page_limit (lq_limit params))) db = Inr rows"
    "count_servers (xs 0) u db = Inr n"
    "collect_results (row_to_server_response ax) (take (min (length rows) (page_limit (lq_limit params))) rows) = Inr rs"
    using assms unfolding list_servers_def Let_def page_limit_def [symmetric] Some option.case and_then_eq_Inr map_err_eq_Inr
      sum.inject prod.inject Suc_eq_plus1 by blast
  show thesis
    by (rule that [OF _ _ r(3)]) (use r(1,2) in \<open>auto simp: select_page_after_def count_servers_def run_stmt_def
      split: option.splits dest!: in_set_takeD\<close>)
qed

lemma list_servers_own:
  assumes "list_servers ax xs u params db = Inr (rs, n, b)"
  shows "list_all (\<lambda>r. own_server u db (sr_id r)) rs \<and> n = length (servers_of u db)"
  using assms
proof (rule list_servers_rows)
  fix rows k assume rows: "set rows \<subseteq> set (servers_of u db)" and n: "n = length (servers_of u db)"
    and c: "collect_results (row_to_server_response ax) (take k rows) = Inr rs"
  have "own_server u db (sr_id r)" if "r \<in> set rs" for r
  proof -
    have "sr_id r \<in> set (map sr_id rs)" using that by simp
    then have "sr_id r \<in> sv_id ` set (take k rows)" unfolding collect_response_ids [OF c] by simp
    then show ?thesis using rows by (auto simp: own_server_def servers_of_def owned_by_def dest!: in_set_takeD)
  qed
  with n show ?thesis by (simp add: list_all_iff)
qed

lemma get_server_own: "get_server ax x u sid db = Inr r \<Longrightarrow> own_server u db (sr_id r)"
  by (auto simp: get_server_def and_then_eq_Inr ok_or_eq_Inr map_err_eq_Inr select_server_def run_stmt_def find_Some_iff own_server_def
      owned_by_def split: option.splits dest!: row_response_id intro!: bexI [OF _ nth_mem])

lemma create_attempts_own:
  "create_attempts ax n tries l u dn d c st = (Inr resp, st') \<Longrightarrow> own_server u (ap_db st') (sr_id resp)"
proof (induction n arbitrary: l st)
  case (Suc n)
  let ?i = "insert_server (snd (tries n)) u dn (generate_slug ax (fst (tries n)) dn) d c"
  obtain ir st1 where i: "with_db (?i) st = (ir, st1)" by (cases "with_db ?i st")
  show ?case
  proof (cases ir)
    case (Inl e)
    have "create_attempts ax n tries (Some (InternalServerError ''slug collision after max retries'')) u dn d c st1 = (Inr resp, st')"
      using Suc.prems i Inl by (auto simp: Let_def split: sql_error.splits option.splits if_splits)
    then show ?thesis by (rule Suc.IH)
  next
    case (Inr row)
    then have ins: "row \<in> set (t_servers (ap_db st1))" "sv_user_id row = u"
      using i by (auto simp: with_db_eq insert_server_def run_stmt_def Let_def split: option.splits if_splits)
    moreover have "row_to_server_response ax row = Inr resp" "ap_db st' = ap_db st1"
      using Suc.prems i Inr by (auto simp: Let_def split: sum.splits)
    moreover from this(1) have "sr_id resp = sv_id row" by (rule row_response_id)
    ultimately show ?thesis by (auto simp: own_server_def owned_by_def)
  qed
qed simp

lemma server_writes_own:
  "create_server_handler ax tries u body st = (Inr resp, st') \<Longrightarrow> own_server u (ap_db st') (sr_id resp)"
  "update_server_handler ax xs u sid ubody st = (Inr resp, st') \<Longrightarrow> own_server u (ap_db st') (sr_id resp)"
proof -
  show "own_server u (ap_db st') (sr_id resp)" if "create_server_handler ax tries u body st = (Inr resp, st')"
    using that create_attempts_own [of ax 5 tries None u]
    by (auto simp: create_server_handler_def create_server_def split: sum.splits)
  assume "update_server_handler ax xs u sid ubody st = (Inr resp, st')"
  then show "own_server u (ap_db st') (sr_id resp)"
  proof (rule update_handler_success)
    fix cur new assume cur: "find (owned_by u sid) (t_servers (ap_db st)) = Some cur"
      and r: "row_to_server_response ax (updated_server (sm_now (xs 1)) (mg_name new) (mg_description new) (mg_config_json new)
        (mg_status new) cur) = Inr resp"
      and db: "ap_db st' = (ap_db st)\<lparr>t_servers := map (\<lambda>t. if owned_by u sid t then updated_server (sm_now (xs 1)) (mg_name new)
          (mg_description new) (mg_config_json new) (mg_status new) t else t) (t_servers (ap_db st)),
        t_notices := t_notices (ap_db st) @ [Server_Changed sid ''update'' (sv_config_version cur + 1)]\<rparr>"
    let ?row = "updated_server (sm_now (xs 1)) (mg_name new) (mg_description new) (mg_config_json new) (mg_status new) cur"
    have c: "cur \<in> set (t_servers (ap_db st))" "owned_by u sid cur" using cur by (auto simp: find_Some_iff)
    then have "?row \<in> set (t_servers (ap_db st'))" unfolding db by auto
    moreover have "owned_by u sid ?row" using c(2) by (simp add: owned_by_def updated_server_def)
    moreover have "sv_id ?row = sr_id resp" using row_response_id [OF r] by simp
    ultimately show ?thesis unfolding own_server_def owned_by_def by blast
  qed
qed

lemma own_server_same: "t_servers db' = t_servers db \<Longrightarrow> own_server u db' sid = own_server u db sid"
  by (simp add: own_server_def)

lemma verified_own: "verify_server_ownership x sid u db = Inr v \<Longrightarrow> own_server u db sid"
  using verified_owner by (auto simp: own_server_def)

lemma credential_writes_own:
  "create_credential_handler cx nonce xs u sid body st = (Inr meta, st') \<Longrightarrow> own_server u (ap_db st') (cm_server_id meta)"
  "rotate_credential_handler cx nonce xs u sid cid p st = (Inr meta, st') \<Longrightarrow> own_server u (ap_db st') (cm_server_id meta)"
  "create_token_handler cx random xs u sid d st = (Inr tok, st') \<Longrightarrow> own_server u (ap_db st') (tc_server_id tok)"
proof -
  show "own_server u (ap_db st') (cm_server_id meta)" if h: "create_credential_handler cx nonce xs u sid body st = (Inr meta, st')"
  proof (cases "verify_server_ownership (xs 0) sid u (ap_db st)")
    case (Inr v)
    with h have "store cx nonce (xs 1) sid (rq_auth_type body) (rq_key_name body) (rq_value body) (Some u) st = (Inr meta, st')"
      by (simp add: create_credential_handler_def)
    then show ?thesis
      by (rule store_success) (use verified_own [OF Inr] in \<open>simp add: row_to_meta_def own_server_def\<close>)
  qed (use h in \<open>simp add: create_credential_handler_def\<close>)
  show "own_server u (ap_db st') (cm_server_id meta)" if h: "rotate_credential_handler cx nonce xs u sid cid p st = (Inr meta, st')"
  proof (cases "verify_server_ownership (xs 0) sid u (ap_db st)")
    case (Inr v)
    with h have "rotate cx nonce (\<lambda>i. xs (Suc i)) cid sid p (Some u) st = (Inr meta, st')"
      by (simp add: rotate_credential_handler_def)
    then show ?thesis
      by (rule rotate_success) (use verified_own [OF Inr] in \<open>simp add: row_to_meta_def own_server_def\<close>)
  qed (use h in \<open>simp add: rotate_credential_handler_def\<close>)
  show "own_server u (ap_db st') (tc_server_id tok)" if h: "create_token_handler cx random xs u sid d st = (Inr tok, st')"
  proof (cases "verify_server_ownership (xs 0) sid u (ap_db st)")
    case (Inr v)
    obtain raw hash hint where g: "generate_server_token (cx_sha256 cx) random = (raw, hash, hint)" using prod_cases3 by blast
    obtain ir st1 where i: "with_db (insert_token (xs 1) sid hash d hint) st = (ir, st1)" by (meson surj_pair)
    then have "ap_db st' = ap_db st1" "tc_server_id tok = sid"
      using h Inr g by (auto simp: create_token_handler_def emit_token_audit_def split: sum.splits)
    moreover have "t_servers (ap_db st1) = t_servers (ap_db st)" using i by (auto simp: with_db_eq servers_unchanged)
    ultimately show ?thesis using verified_own [OF Inr] by (simp add: own_server_def)
  qed (use h in \<open>simp add: create_token_handler_def\<close>)
qed

lemma credential_lists_own:
  "list_credentials_handler xs u sid db = Inr ms \<Longrightarrow> list_all (\<lambda>m. own_server u db (cm_server_id m)) ms"
  "list_tokens_handler xs u sid db = Inr ts \<Longrightarrow> list_all (\<lambda>t. own_server u db (tm_server_id t)) ts"
  by (auto simp: list_credentials_handler_def list_for_server_def select_credentials_def list_tokens_handler_def select_tokens_def
      run_stmt_def and_then_eq_Inr map_err_eq_Inr list_all_iff row_to_meta_def token_meta_of_def by_created_def
      split: option.splits dest!: verified_own)

lemma v1_protected_reply_own:
  assumes "v1_protected ax cx env oper user st = (Inr reply, st')"
  shows "reply_own (ru_id user) (ap_db st') reply"
proof -
  have w: "\<exists>q. p = (Inr q, st') \<and> reply = f q" if "writing f p = (Inr reply, st')" for p and f :: "'x \<Rightarrow> api_reply"
    using that by (cases p) (auto simp: writing_def and_then_eq_Inr)
  have r: "\<exists>q. x = Inr q \<and> reply = f q \<and> st' = st" if "reading f x st = (Inr reply, st')" for x and f :: "'x \<Rightarrow> api_reply"
    using that by (auto simp: reading_def and_then_eq_Inr)
  show ?thesis
  proof (cases oper)
    case Get_Me
    with assms show ?thesis by (auto simp: reading_def and_then_eq_Inr me_handler_def)
  next
    case (List_Servers q)
    with assms show ?thesis by (auto dest!: r simp: list_servers_own)
  next
    case (Create_Server b)
    with assms show ?thesis by (auto dest!: w simp: server_writes_own(1))
  next
    case (Get_Server sid)
    with assms show ?thesis by (auto dest!: r simp: get_server_own)
  next
    case (Update_Server sid b)
    with assms show ?thesis by (auto dest!: w simp: server_writes_own(2))
  next
    case (List_Credentials sid)
    with assms show ?thesis by (auto dest!: r simp: credential_lists_own(1))
  next
    case (Create_Credential sid b)
    with assms show ?thesis by (auto dest!: w simp: credential_writes_own(1))
  next
    case (Rotate_Credential sid cid v)
    with assms show ?thesis by (auto dest!: w simp: credential_writes_own(2))
  next
    case (List_Tokens sid)
    with assms show ?thesis by (auto dest!: r simp: credential_lists_own(2))
  next
    case (Create_Token sid d)
    with assms show ?thesis by (auto dest!: w simp: credential_writes_own(3))
  qed (use assms in \<open>auto dest!: w r\<close>)
qed

text \<open>
  C4: A user gets at the own servers only. Whatever request an authenticated user sends, the constraints of the schema and
  the check of every stored upstream address are kept, the users and the servers, credentials and tokens of all other users are
  as before, and what a successful answer shows belongs to a server of the user.
\<close>

theorem tenant_isolation:
  assumes "db_ok (ap_db st)" "configs_ok ax (ap_db st)" "v1_protected ax cx env oper user st = (r, st')"
  shows "db_ok (ap_db st') \<and> configs_ok ax (ap_db st') \<and> others_kept (ru_id user) (ap_db st) (ap_db st') \<and>
    (\<forall>reply. r = Inr reply \<longrightarrow> reply_own (ru_id user) (ap_db st') reply)"
  using v1_protected_keeps [OF assms(3)] v1_protected_reply_own [of ax cx env oper user st _ st'] assms by (simp add: kept_for_def)

subsection \<open>Many users\<close>

text \<open>
  A service with tenants: a request keeps the invariant and what every other tenant sees, and a read is answered from what
  its tenant sees.
\<close>

locale tenants =
  fixes run :: "'env \<Rightarrow> 'op \<Rightarrow> 'user \<Rightarrow> 's \<Rightarrow> 'r \<times> 's"
    and tenant :: "'user \<Rightarrow> 'k"
    and view :: "'k \<Rightarrow> 's \<Rightarrow> 'v"
    and inv :: "'s \<Rightarrow> bool"
    and reads :: "'op \<Rightarrow> bool"
  assumes run_inv: "inv s \<Longrightarrow> inv (snd (run e oper u s))"
    and run_view: "inv s \<Longrightarrow> k \<noteq> tenant u \<Longrightarrow> view k (snd (run e oper u s)) = view k s"
    and read_view: "reads oper \<Longrightarrow> view (tenant u) s = view (tenant u) s' \<Longrightarrow> fst (run e oper u s) = fst (run e oper u s')"
begin

lemma run_all_inv: "inv s \<Longrightarrow> inv (fold (\<lambda>(e, oper, u) s. snd (run e oper u s)) rs s)"
  by (induction rs arbitrary: s) (auto simp: run_inv)

lemma run_all_view:
  "inv s \<Longrightarrow> list_all (\<lambda>(e, oper, u). k \<noteq> tenant u) rs \<Longrightarrow>
    view k (fold (\<lambda>(e, oper, u) s. snd (run e oper u s)) rs s) = view k s"
  by (induction rs arbitrary: s) (auto simp: run_inv run_view)

lemma reads_undisturbed:
  assumes "inv s" "list_all (\<lambda>(e, oper, u). tenant v \<noteq> tenant u) rs" "reads oper"
  shows "fst (run e oper v (fold (\<lambda>(e, oper, u) s. snd (run e oper u s)) rs s)) = fst (run e oper v s)"
  by (rule read_view [OF assms(3)]) (rule run_all_view [OF assms(1,2)])

end

definition tenant_view :: "uuid \<Rightarrow> ('c, 'd) api_state \<Rightarrow> user_row list \<times> server_row list \<times> credential_entry list \<times> token_entry list" where
  "tenant_view u st =
     (let db = ap_db st; own = sv_id ` set (servers_of u db) in
      (filter (\<lambda>r. us_id r = u) (t_users db), servers_of u db, filter (\<lambda>c. ce_server_id c \<in> own) (t_credentials db),
       filter (\<lambda>t. tk_server_id t \<in> own) (t_tokens db)))"

fun is_read :: "api_op \<Rightarrow> bool" where
  "is_read Get_Me = True"
| "is_read (List_Servers q) = True"
| "is_read (Get_Server sid) = True"
| "is_read (Validate_Url sid url) = True"
| "is_read (List_Credentials sid) = True"
| "is_read (List_Tokens sid) = True"
| "is_read _ = False"

lemma filter_sub: "(\<And>x. x \<in> set xs \<Longrightarrow> Q x \<Longrightarrow> P x) \<Longrightarrow> filter Q (filter P xs) = filter Q xs"
  by (induction xs) auto

lemma find_filter_sub: "(\<And>x. P x \<Longrightarrow> Q x) \<Longrightarrow> find P (filter Q xs) = find P xs"
  by (induction xs) auto

lemma others_kept_view:
  assumes "others_kept u (ap_db st) (ap_db st')" "k \<noteq> u"
  shows "tenant_view k st' = tenant_view k st"
proof -
  have s: "servers_of k db = filter (\<lambda>s. sv_user_id s = k) (foreign_servers u db)" for db
    unfolding servers_of_def foreign_servers_def by (rule filter_sub [symmetric]) (use assms(2) in auto)
  then have "servers_of k (ap_db st') = servers_of k (ap_db st)" using assms(1) by (simp add: others_kept_def)
  moreover have "filter (\<lambda>c. ce_server_id c \<in> sv_id ` set (servers_of k db)) (t_credentials db) =
      filter (\<lambda>c. ce_server_id c \<in> sv_id ` set (servers_of k db)) (foreign_credentials u db)" for db
    unfolding foreign_credentials_def s by (rule filter_sub [symmetric]) auto
  moreover have "filter (\<lambda>c. tk_server_id c \<in> sv_id ` set (servers_of k db)) (t_tokens db) =
      filter (\<lambda>c. tk_server_id c \<in> sv_id ` set (servers_of k db)) (foreign_tokens u db)" for db
    unfolding foreign_tokens_def s by (rule filter_sub [symmetric]) auto
  ultimately show ?thesis using assms(1) by (simp add: tenant_view_def Let_def others_kept_def)
qed

text \<open>What the reading statements find depends on the view.\<close>

lemma select_server_view: "select_server x sid u db = fst (run_stmt x (\<lambda>db. (Inr (find (owned_by u sid) (servers_of u db)), db)) db)"
  unfolding servers_of_def by (subst find_filter_sub) (auto simp: select_server_def owned_by_def)

lemma select_user_view:
  "select_user_created x u db = fst (run_stmt x (\<lambda>db. (case find (\<lambda>r. us_id r = u) (filter (\<lambda>r. us_id r = u) (t_users db)) of
      Some u \<Rightarrow> Inr (us_created_at u)
    | None \<Rightarrow> Inl (Sql_Other ''no rows returned by a query that expected to return at least one row''), db)) db)"
  by (subst find_filter_sub) (auto simp: select_user_created_def)

lemma own_rows:
  assumes "verify_server_ownership x sid u db = Inr v"
  shows "filter (\<lambda>c. ce_server_id c = sid) (t_credentials db) =
      filter (\<lambda>c. ce_server_id c = sid) (filter (\<lambda>c. ce_server_id c \<in> sv_id ` set (servers_of u db)) (t_credentials db))"
    and "filter (\<lambda>c. tk_server_id c = sid) (t_tokens db) =
      filter (\<lambda>c. tk_server_id c = sid) (filter (\<lambda>c. tk_server_id c \<in> sv_id ` set (servers_of u db)) (t_tokens db))"
proof -
  have own: "sid \<in> sv_id ` set (servers_of u db)" using verified_owner [OF assms] by (auto simp: servers_of_def owned_by_def)
  show "filter (\<lambda>c. ce_server_id c = sid) (t_credentials db) =
      filter (\<lambda>c. ce_server_id c = sid) (filter (\<lambda>c. ce_server_id c \<in> sv_id ` set (servers_of u db)) (t_credentials db))"
    and "filter (\<lambda>c. tk_server_id c = sid) (t_tokens db) =
      filter (\<lambda>c. tk_server_id c = sid) (filter (\<lambda>c. tk_server_id c \<in> sv_id ` set (servers_of u db)) (t_tokens db))"
    by (rule filter_sub [symmetric], use own in simp)+
qed

lemma read_from_view:
  assumes "is_read oper" "tenant_view (ru_id user) st = tenant_view (ru_id user) st'"
  shows "fst (v1_protected ax cx env oper user st) = fst (v1_protected ax cx env oper user st')"
proof -
  let ?u = "ru_id user" and ?db = "ap_db st" and ?db' = "ap_db st'"
  have s: "servers_of ?u ?db = servers_of ?u ?db'"
    and us: "filter (\<lambda>r. us_id r = ?u) (t_users ?db) = filter (\<lambda>r. us_id r = ?u) (t_users ?db')"
    using assms(2) by (auto simp: tenant_view_def Let_def)
  have c: "filter (\<lambda>c. ce_server_id c \<in> sv_id ` set (servers_of ?u ?db)) (t_credentials ?db) =
      filter (\<lambda>c. ce_server_id c \<in> sv_id ` set (servers_of ?u ?db')) (t_credentials ?db')"
    and t: "filter (\<lambda>c. tk_server_id c \<in> sv_id ` set (servers_of ?u ?db)) (t_tokens ?db) =
      filter (\<lambda>c. tk_server_id c \<in> sv_id ` set (servers_of ?u ?db')) (t_tokens ?db')"
    using assms(2) unfolding tenant_view_def Let_def prod.inject by blast+
  have sel: "select_server x sid ?u ?db = select_server x sid ?u ?db'" for x sid
    by (simp add: select_server_view run_stmt_def s split: option.split)
  have ver: "verify_server_ownership x sid ?u ?db = verify_server_ownership x sid ?u ?db'" for x sid
    by (simp add: verify_server_ownership_def sel)
  show ?thesis
  proof (cases oper)
    case Get_Me
    then show ?thesis by (simp add: reading_def me_handler_def select_user_view run_stmt_def us split: option.split)
  next
    case (List_Servers q)
    have "list_servers ax xs ?u q ?db = list_servers ax xs ?u q ?db'" for xs
      by (simp add: list_servers_def count_servers_def select_page_def select_page_after_def run_stmt_def sel s Let_def
          cong: option.case_cong split: option.split)
    with List_Servers show ?thesis by (simp add: reading_def)
  next
    case (List_Credentials sid)
    have "list_credentials_handler xs ?u sid ?db = list_credentials_handler xs ?u sid ?db'" for xs
    proof (cases "verify_server_ownership (xs 0) sid ?u ?db")
      case (Inr v)
      from own_rows(1) [OF this] own_rows(1) [OF this [unfolded ver]] c
      have "filter (\<lambda>c. ce_server_id c = sid) (t_credentials ?db) = filter (\<lambda>c. ce_server_id c = sid) (t_credentials ?db')" by simp
      then show ?thesis
        by (simp add: list_credentials_handler_def ver list_for_server_def select_credentials_def run_stmt_def split: option.split)
    qed (simp add: list_credentials_handler_def flip: ver)
    with List_Credentials show ?thesis by (simp add: reading_def)
  next
    case (List_Tokens sid)
    have "list_tokens_handler xs ?u sid ?db = list_tokens_handler xs ?u sid ?db'" for xs
    proof (cases "verify_server_ownership (xs 0) sid ?u ?db")
      case (Inr v)
      from own_rows(2) [OF this] own_rows(2) [OF this [unfolded ver]] t
      have "filter (\<lambda>c. tk_server_id c = sid) (t_tokens ?db) = filter (\<lambda>c. tk_server_id c = sid) (t_tokens ?db')" by simp
      then show ?thesis
        by (simp add: list_tokens_handler_def ver select_tokens_def run_stmt_def split: option.split)
    qed (simp add: list_tokens_handler_def flip: ver)
    with List_Tokens show ?thesis by (simp add: reading_def)
  qed (use assms(1) in \<open>simp_all add: reading_def get_server_def validate_url_handler_def check_ownership_def sel\<close>)
qed

interpretation api: tenants "v1_protected (ax :: ('u, 'n, 'm, 'c) api_ext) cx" ru_id "tenant_view :: uuid \<Rightarrow> ('c, 'd) api_state \<Rightarrow> _"
  "\<lambda>st. db_ok (ap_db st)" is_read
proof
  fix st :: "('c, 'd) api_state" and e oper u k assume ok: "db_ok (ap_db st)"
  obtain r st' where v: "v1_protected ax cx e oper u st = (r, st')" by (meson surj_pair)
  from v1_protected_keeps [OF v] ok have k: "db_ok (ap_db st')" "others_kept (ru_id u) (ap_db st) (ap_db st')"
    by (simp_all add: kept_for_def)
  with v show "db_ok (ap_db (snd (v1_protected ax cx e oper u st)))" by simp
  show "tenant_view k (snd (v1_protected ax cx e oper u st)) = tenant_view k st" if "k \<noteq> ru_id u"
    using v k(2) others_kept_view [OF _ that] by simp
qed (rule read_from_view)

text \<open>
  C18: Other users cannot be noticed: whatever requests other users have sent in between, in whatever order and with whatever outcome, a
  request of a user that reads (the profile, a page of servers, a server, the check of an address, credentials, tokens) gets
  exactly the answer it would have got before them.
\<close>

theorem tenant_noninterference:
  assumes "db_ok (ap_db st)" "list_all (\<lambda>(e, oper, u). ru_id user \<noteq> ru_id u) requests" "is_read oper"
  shows "fst (v1_protected ax cx env oper user (fold (\<lambda>(e, oper, u) st. snd (v1_protected ax cx e oper u st)) requests st)) =
    fst (v1_protected ax cx env oper user st)"
  using assms by (rule api.reads_undisturbed)

subsection \<open>Examples\<close>

definition sample_oenv :: op_env where
  "sample_oenv = \<lparr>oe_stmts = (\<lambda>i. sample_stmt (i + 20)), oe_tries = (\<lambda>i. (''aaaa'', sample_stmt (20 + i))), oe_random = replicate 12 1\<rparr>"

definition sample_user :: authenticated_user where
  "sample_user = \<lparr>ru_id = 1, ru_clerk_id = ''c'', ru_email = ''e''\<rparr>"

lemma sample_configs_ok: "configs_ok sample_ax sample_db"
  by (simp add: configs_ok_def sample_db_def validate_config_ssrf_def)

theorem tenant_isolation_witness:
  "\<exists>m st'. v1_protected sample_ax sample_cx sample_oenv
      (Create_Credential 7 \<lparr>rq_auth_type = ''bearer'', rq_key_name = None, rq_value = ''abcde''\<rparr>) sample_user sample_api = (Inr (Credential_Reply m), st') \<and>
    db_ok (ap_db st') \<and> own_server 1 (ap_db st') (cm_server_id m)"
proof -
  let ?op = "Create_Credential 7 \<lparr>rq_auth_type = ''bearer'', rq_key_name = None, rq_value = ''abcde''\<rparr>"
  obtain m st' where h: "v1_protected sample_ax sample_cx sample_oenv ?op sample_user sample_api = (Inr (Credential_Reply m), st')"
    by (simp add: writing_def sample_oenv_def sample_user_def create_credential_handler_def verify_server_ownership_def select_server_def
        run_stmt_def sample_stmt_def sample_api_def sample_db_def owned_by_def store_def sample_cx_def encrypt_def tag_gcm_def sample_key_def
        with_db_def insert_credential_def AUTH_TYPES_def Let_def)
  have "ap_db sample_api = sample_db" "ru_id sample_user = 1" by (simp_all add: sample_api_def sample_user_def)
  with h tenant_isolation [OF _ _ h] sample_db_ok sample_configs_ok show ?thesis by auto
qed

theorem tenant_noninterference_witness:
  "fst (v1_protected sample_ax sample_cx sample_oenv (Get_Server 7) sample_user
     (fold (\<lambda>(e, oper, u) st. snd (v1_protected sample_ax sample_cx e oper u st))
       [(sample_oenv, Delete_Server 7, sample_user\<lparr>ru_id := 2\<rparr>)] sample_api)) =
   fst (v1_protected sample_ax sample_cx sample_oenv (Get_Server 7) sample_user sample_api)"
  by (rule tenant_noninterference) (simp_all add: sample_api_def sample_db_ok sample_user_def)

end
