(* ===== verification/Api_Auth.thy ===== *)
theory Api_Auth
  imports Api_Routes
begin

text \<open>
  Who may use the platform API: the JWKS cache and the JWT middleware of \<open>services/api/src/auth.rs\<close> in front of the
  protected routes, the Clerk webhook of \<open>handlers/webhooks.rs\<close>, and the API as a state machine of both. The JWT library, the
  HTTP client, the Svix library and the parser of JSON texts are parameters. Instants are nanoseconds.
\<close>

section \<open>The key set\<close>

definition JWKS_TTL :: nat where "JWKS_TTL = 300 * 10 ^ 9"

record jwk =
  jk_kid :: string
  jk_kty :: string
  jk_n :: string
  jk_e :: string

record cached_jwks =
  cj_keys :: "jwk list"
  cj_fetched_at :: nat

text \<open>\<open>serde_json::from_value\<close> for \<open>Jwk\<close> and \<open>JwkSet\<close>: unknown fields are ignored, a struct may also be given as an array.\<close>

definition str_field :: "string \<Rightarrow> (string \<times> json) list \<Rightarrow> string option" where
  "str_field k kvs = Option.bind (obj_get k kvs) as_str"

definition jwk_of :: "string option \<Rightarrow> string option \<Rightarrow> string option \<Rightarrow> string option \<Rightarrow> jwk option" where
  "jwk_of kid kty n e =
     (case (kid, kty, n, e) of
        (Some kid, Some kty, Some n, Some e) \<Rightarrow> Some \<lparr>jk_kid = kid, jk_kty = kty, jk_n = n, jk_e = e\<rparr>
      | _ \<Rightarrow> None)"

fun jwk_from :: "json \<Rightarrow> jwk option" where
  "jwk_from (Object kvs) = jwk_of (str_field ''kid'' kvs) (str_field ''kty'' kvs) (str_field ''n'' kvs) (str_field ''e'' kvs)"
| "jwk_from (Array [kid, kty, n, e]) = jwk_of (as_str kid) (as_str kty) (as_str n) (as_str e)"
| "jwk_from _ = None"

fun jwk_set_from :: "json \<Rightarrow> jwk list option" where
  "jwk_set_from (Object kvs) = Option.bind (Option.bind (obj_get ''keys'' kvs) as_array) (\<lambda>ks. those (map jwk_from ks))"
| "jwk_set_from (Array [ks]) = Option.bind (as_array ks) (\<lambda>ks. those (map jwk_from ks))"
| "jwk_set_from _ = None"

text \<open>
  The JWT library: \<open>decode_header\<close> (an error, or the key id), \<open>DecodingKey::from_rsa_components\<close> and \<open>decode\<close>, which
  depends on the wall clock.
\<close>

datatype jwt_error = ExpiredSignature | OtherJwtError

record clerk_claims =
  cc_sub :: string
  cc_email :: string

datatype jwt_algorithm = RS256

record jwt_validation =
  jv_algorithm :: jwt_algorithm
  jv_validate_nbf :: bool
  jv_issuer :: "string list option"

record 'k jwt_api =
  jw_decode_header :: "string \<Rightarrow> string option option"
  jw_from_rsa_components :: "string \<Rightarrow> string \<Rightarrow> 'k option"
  jw_decode :: "int \<Rightarrow> string \<Rightarrow> 'k \<Rightarrow> jwt_validation \<Rightarrow> jwt_error + clerk_claims"

definition find_decoding_key :: "'k jwt_api \<Rightarrow> jwk list \<Rightarrow> string \<Rightarrow> 'k option" where
  "find_decoding_key jw keys kid =
     Option.bind (find (\<lambda>k. jk_kty k = ''RSA'' \<and> jk_kid k = kid) keys) (\<lambda>k. jw_from_rsa_components jw (jk_n k) (jk_e k))"

text \<open>What the HTTP client gets: no response, a body that is not JSON, or a value.\<close>

datatype jwks_fetch = Send_Failed | Not_Json | Fetched json

definition refresh :: "jwks_fetch \<Rightarrow> nat \<Rightarrow> cached_jwks option \<Rightarrow> (app_error + unit) \<times> cached_jwks option" where
  "refresh resp now cache =
     (case resp of
        Send_Failed \<Rightarrow> (Inl (InternalServerError ''Failed to fetch JWKS.''), cache)
      | Not_Json \<Rightarrow> (Inl (InternalServerError ''Failed to parse JWKS response.''), cache)
      | Fetched body \<Rightarrow>
          (case jwk_set_from body of
             None \<Rightarrow> (Inl (InternalServerError ''Invalid JWKS format.''), cache)
           | Some keys \<Rightarrow> (Inr (), Some \<lparr>cj_keys = keys, cj_fetched_at = now\<rparr>)))"

text \<open>The fast path: a key of a set that is young enough.\<close>

definition cached_key :: "'k jwt_api \<Rightarrow> string \<Rightarrow> nat \<Rightarrow> cached_jwks option \<Rightarrow> 'k option" where
  "cached_key jw kid now cache =
     (case cache of
        Some cached \<Rightarrow> if now - cj_fetched_at cached < JWKS_TTL then find_decoding_key jw (cj_keys cached) kid else None
      | None \<Rightarrow> None)"

text \<open>\<open>now\<close> is the instant of the look-up, \<open>later\<close> the one after a fetch.\<close>

definition get_key ::
  "'k jwt_api \<Rightarrow> string \<Rightarrow> nat \<Rightarrow> jwks_fetch \<Rightarrow> nat \<Rightarrow> cached_jwks option \<Rightarrow> (app_error + 'k) \<times> cached_jwks option" where
  "get_key jw kid now resp later cache =
     (case cached_key jw kid now cache of
        Some key \<Rightarrow> (Inr key, cache)
      | None \<Rightarrow>
          (case refresh resp later cache of
             (Inl e, cache1) \<Rightarrow> (Inl e, cache1)
           | (Inr _, cache1) \<Rightarrow>
               (ok_or (Unauthorized (''No matching RSA key found for kid '' @ [CHR 0x27] @ kid @ [CHR 0x27] @ ''.''))
                  (Option.bind cache1 (\<lambda>c. find_decoding_key jw (cj_keys c) kid)), cache1)))"

section \<open>The middleware\<close>

record ('c, 'd) gate_state =
  gs_api :: "('c, 'd) api_state"
  gs_jwks :: "cached_jwks option"

record ('k, 'c) gate_ext =
  gx_mpsc :: "(audit_event, 'c) mpsc_api"
  gx_jwt :: "'k jwt_api"
  gx_clerk_issuer :: string

text \<open>What one request gets from outside: the clocks, the key server and the database.\<close>

record gate_env =
  ge_now :: nat
  ge_fetch :: jwks_fetch
  ge_later :: nat
  ge_wall :: int
  ge_upsert :: stmt

text \<open>The header \<open>Authorization\<close>: absent, not visible ASCII, or a text.\<close>

definition api_bearer_token :: "string option option \<Rightarrow> string option" where
  "api_bearer_token header = Option.bind (Option.bind header (\<lambda>v. v)) (strip_prefix ''Bearer '')"

definition auth_event :: "audit_action \<Rightarrow> uuid option \<Rightarrow> bool \<Rightarrow> string option \<Rightarrow> audit_event" where
  "auth_event action user_id success reason =
     \<lparr>av_action = action, av_user_id = user_id, av_server_id = None, av_success = success, av_error_msg = reason,
      av_metadata = None, av_correlation_id = None\<rparr>"

definition emit_auth_failure ::
  "('k, 'c) gate_ext \<Rightarrow> uuid option \<Rightarrow> string \<Rightarrow> ('c, 'd) gate_state \<Rightarrow> ('c, 'd) gate_state" where
  "emit_auth_failure gx user_id reason st =
     st\<lparr>gs_api := api_audit (gx_mpsc gx) (auth_event AuthFailure user_id False (Some reason)) (gs_api st)\<rparr>"

definition upsert_user :: "stmt \<Rightarrow> string \<Rightarrow> string \<Rightarrow> ('c, 'd) gate_state \<Rightarrow> (sql_error + uuid \<times> string) \<times> ('c, 'd) gate_state" where
  "upsert_user x clerk_id email st =
     (let (r, api) = with_db (upsert_user_stmt x clerk_id email) (gs_api st) in (r, st\<lparr>gs_api := api\<rparr>))"

definition clerk_validation :: "string \<Rightarrow> jwt_validation" where
  "clerk_validation issuer =
     (let validation = \<lparr>jv_algorithm = RS256, jv_validate_nbf = True, jv_issuer = None\<rparr>
      in if issuer \<noteq> [] then validation\<lparr>jv_issuer := Some [issuer]\<rparr> else validation)"

definition clerk_jwt_middleware ::
  "('k, 'c) gate_ext \<Rightarrow> gate_env \<Rightarrow> string option option
   \<Rightarrow> (authenticated_user \<Rightarrow> ('c, 'd) api_state \<Rightarrow> (app_error + 'r) \<times> ('c, 'd) api_state)
   \<Rightarrow> ('c, 'd) gate_state \<Rightarrow> (app_error + 'r) \<times> ('c, 'd) gate_state" where
  "clerk_jwt_middleware gx env header run_next st =
     (case api_bearer_token header of
        None \<Rightarrow>
          (Inl (Unauthorized ''Missing or invalid Authorization header.''), emit_auth_failure gx None ''missing Authorization header'' st)
      | Some token \<Rightarrow>
     (case jw_decode_header (gx_jwt gx) token of
        None \<Rightarrow> (Inl (Unauthorized ''Invalid token.''), emit_auth_failure gx None ''malformed JWT header'' st)
      | Some None \<Rightarrow> (Inl (Unauthorized ''Invalid token.''), emit_auth_failure gx None ''JWT missing kid header'' st)
      | Some (Some kid) \<Rightarrow>
     (let (fetched, cache) = get_key (gx_jwt gx) kid (ge_now env) (ge_fetch env) (ge_later env) (gs_jwks st);
          st1 = st\<lparr>gs_jwks := cache\<rparr> in
      case fetched of
        Inl _ \<Rightarrow> (Inl (Unauthorized ''Invalid token.''), emit_auth_failure gx None ''JWKS key fetch failed'' st1)
      | Inr decoding_key \<Rightarrow>
     (case jw_decode (gx_jwt gx) (ge_wall env) token decoding_key (clerk_validation (gx_clerk_issuer gx)) of
        Inl ExpiredSignature \<Rightarrow> (Inl TokenExpired, emit_auth_failure gx None ''expired JWT'' st1)
      | Inl _ \<Rightarrow> (Inl (Unauthorized ''Invalid token.''), emit_auth_failure gx None ''invalid JWT signature or claims'' st1)
      | Inr claims \<Rightarrow>
     (case upsert_user (ge_upsert env) (cc_sub claims) (cc_email claims) st1 of
        (Inl _, st2) \<Rightarrow> (Inl (InternalServerError ''Failed to update user record.''), st2)
      | (Inr (user_id, user_email), st2) \<Rightarrow>
          let api = api_audit (gx_mpsc gx) (auth_event AuthSuccess (Some user_id) True None) (gs_api st2);
              (r, api') = run_next \<lparr>ru_id = user_id, ru_clerk_id = cc_sub claims, ru_email = user_email\<rparr> api
          in (r, st2\<lparr>gs_api := api'\<rparr>))))))"

section \<open>The webhook\<close>

record clerk_webhook_payload =
  wp_event_type :: string
  wp_data :: json

record clerk_email_address =
  ca_id :: string
  ca_email_address :: string

record clerk_user_data =
  cu_id :: "string option"
  cu_email_addresses :: "clerk_email_address list"
  cu_primary_email_address_id :: "string option"

fun email_address_from :: "json \<Rightarrow> clerk_email_address option" where
  "email_address_from (Object kvs) =
     (case (str_field ''id'' kvs, str_field ''email_address'' kvs) of
        (Some i, Some e) \<Rightarrow> Some \<lparr>ca_id = i, ca_email_address = e\<rparr> | _ \<Rightarrow> None)"
| "email_address_from (Array [i, e]) =
     (case (as_str i, as_str e) of (Some i, Some e) \<Rightarrow> Some \<lparr>ca_id = i, ca_email_address = e\<rparr> | _ \<Rightarrow> None)"
| "email_address_from _ = None"

definition user_data_of :: "json \<Rightarrow> json \<Rightarrow> json \<Rightarrow> clerk_user_data option" where
  "user_data_of i es p =
     (case (optional_string i, Option.bind (as_array es) (\<lambda>es. those (map email_address_from es)), optional_string p) of
        (Some i, Some es, Some p) \<Rightarrow> Some \<lparr>cu_id = i, cu_email_addresses = es, cu_primary_email_address_id = p\<rparr>
      | _ \<Rightarrow> None)"

text \<open>A missing \<open>Option\<close> field reads like \<open>null\<close>; the addresses have \<open>#[serde(default)]\<close>.\<close>

fun user_data_from :: "json \<Rightarrow> clerk_user_data option" where
  "user_data_from (Object kvs) =
     user_data_of (case obj_get ''id'' kvs of Some i \<Rightarrow> i | None \<Rightarrow> Null)
       (case obj_get ''email_addresses'' kvs of Some es \<Rightarrow> es | None \<Rightarrow> Array [])
       (case obj_get ''primary_email_address_id'' kvs of Some p \<Rightarrow> p | None \<Rightarrow> Null)"
| "user_data_from (Array [i, es, p]) = user_data_of i es p"
| "user_data_from _ = None"

definition extract_primary_email :: "clerk_user_data \<Rightarrow> string option" where
  "extract_primary_email user =
     Option.bind (cu_primary_email_address_id user) (\<lambda>primary_id.
     map_option ca_email_address (find (\<lambda>e. ca_id e = primary_id) (cu_email_addresses user)))"

definition handle_user_upsert :: "stmt \<Rightarrow> json \<Rightarrow> ('c, 'd) api_state \<Rightarrow> (app_error + unit) \<times> ('c, 'd) api_state" where
  "handle_user_upsert x data st =
     (case user_data_from data of
        None \<Rightarrow> (Inl (BadRequest ''Invalid user payload.''), st)
      | Some user \<Rightarrow>
        (case cu_id user of
           None \<Rightarrow> (Inl (BadRequest ''Missing user id in webhook payload.''), st)
         | Some clerk_id \<Rightarrow>
             let email = (case extract_primary_email user of Some e \<Rightarrow> e | None \<Rightarrow> []) in
             (case with_db (upsert_user_stmt x clerk_id email) st of
                (Inl _, st1) \<Rightarrow> (Inl (InternalServerError ''Failed to upsert user record.''), st1)
              | (Inr _, st1) \<Rightarrow> (Inr (), st1))))"

definition handle_user_delete :: "stmt \<Rightarrow> json \<Rightarrow> ('c, 'd) api_state \<Rightarrow> (app_error + unit) \<times> ('c, 'd) api_state" where
  "handle_user_delete x data st =
     (case user_data_from data of
        None \<Rightarrow> (Inl (BadRequest ''Invalid user payload.''), st)
      | Some user \<Rightarrow>
        (case cu_id user of
           None \<Rightarrow> (Inr (), st)
         | Some clerk_id \<Rightarrow>
             (case with_db (delete_user_stmt x clerk_id) st of
                (Inl _, st1) \<Rightarrow> (Inl (InternalServerError ''Failed to delete user record.''), st1)
              | (Inr _, st1) \<Rightarrow> (Inr (), st1))))"

text \<open>The Svix library: \<open>Webhook::new\<close> and \<open>verify\<close>; the parser of the payload; the configured secret.\<close>

record ('w, 'h, 'c) webhook_ext =
  wx_mpsc :: "(audit_event, 'c) mpsc_api"
  wx_new :: "string \<Rightarrow> 'w option"
  wx_verify :: "'w \<Rightarrow> bytes \<Rightarrow> 'h \<Rightarrow> bool"
  wx_from_slice :: "bytes \<Rightarrow> clerk_webhook_payload option"
  wx_secret :: string

definition clerk_webhook_handler ::
  "('w, 'h, 'c) webhook_ext \<Rightarrow> stmt \<Rightarrow> 'h \<Rightarrow> bytes \<Rightarrow> ('c, 'd) api_state \<Rightarrow> (app_error + unit) \<times> ('c, 'd) api_state" where
  "clerk_webhook_handler wx x headers body st =
     (case wx_new wx (wx_secret wx) of
        None \<Rightarrow> (Inl (InternalServerError ''Webhook configuration error.''), st)
      | Some wh \<Rightarrow>
        if \<not> wx_verify wx wh body headers then
          (Inl (BadRequest ''Invalid webhook signature.''),
           api_audit (wx_mpsc wx) (auth_event WebhookAuthFailure None False (Some ''invalid Svix webhook signature'')) st)
        else
          (case wx_from_slice wx body of
             None \<Rightarrow> (Inl (BadRequest ''Invalid webhook payload.''), st)
           | Some payload \<Rightarrow>
               if wp_event_type payload \<in> {''user.created'', ''user.updated''} then handle_user_upsert x (wp_data payload) st
               else if wp_event_type payload = ''user.deleted'' then handle_user_delete x (wp_data payload) st
               else (Inr (), st)))"

section \<open>Only verified tokens pass\<close>

text \<open>A key of the id \<open>kid\<close> from a key set that is younger than the limit.\<close>

definition fresh_key :: "'k jwt_api \<Rightarrow> string \<Rightarrow> nat \<Rightarrow> cached_jwks option \<Rightarrow> 'k \<Rightarrow> bool" where
  "fresh_key jw kid now cache key \<longleftrightarrow> (\<exists>c k. cache = Some c \<and> now - cj_fetched_at c < JWKS_TTL \<and> k \<in> set (cj_keys c) \<and>
     jk_kty k = ''RSA'' \<and> jk_kid k = kid \<and> jw_from_rsa_components jw (jk_n k) (jk_e k) = Some key)"

lemma found_key:
  "find_decoding_key jw keys kid = Some key \<Longrightarrow> \<exists>k \<in> set keys. jk_kty k = ''RSA'' \<and> jk_kid k = kid \<and>
    jw_from_rsa_components jw (jk_n k) (jk_e k) = Some key"
  by (auto simp: find_decoding_key_def find_Some_iff bind_eq_Some_conv intro!: bexI [OF _ nth_mem])

lemma get_key_fresh:
  assumes "get_key jw kid now resp later cache = (Inr key, cache')"
  shows "cache' = cache \<and> fresh_key jw kid now cache key \<or>
    (\<exists>body keys. resp = Fetched body \<and> jwk_set_from body = Some keys \<and> cache' = Some \<lparr>cj_keys = keys, cj_fetched_at = later\<rparr> \<and>
       fresh_key jw kid later cache' key)"
proof (cases "cached_key jw kid now cache")
  case None
  then show ?thesis
    using assms found_key
    by (fastforce simp: get_key_def refresh_def ok_or_eq_Inr fresh_key_def JWKS_TTL_def split: jwks_fetch.splits option.splits)
next
  case (Some k)
  then show ?thesis
    using assms found_key by (fastforce simp: get_key_def cached_key_def fresh_key_def split: option.splits if_splits)
qed

definition cache_from :: "gate_env \<Rightarrow> cached_jwks option \<Rightarrow> cached_jwks option \<Rightarrow> bool" where
  "cache_from env cache cache' \<longleftrightarrow> cache' = cache \<or>
     (\<exists>body keys. ge_fetch env = Fetched body \<and> jwk_set_from body = Some keys \<and>
        cache' = Some \<lparr>cj_keys = keys, cj_fetched_at = ge_later env\<rparr>)"

lemma get_key_cache:
  "cache_from env cache (snd (get_key jw kid (ge_now env) (ge_fetch env) (ge_later env) cache))"
  by (auto simp: cache_from_def get_key_def refresh_def split: jwks_fetch.splits option.splits)

text \<open>The three ends of the middleware.\<close>

definition refused ::
  "('k, 'c) gate_ext \<Rightarrow> (app_error + 'r) \<Rightarrow> ('c, 'd) api_state \<Rightarrow> ('c, 'd) api_state \<Rightarrow> bool" where
  "refused gx r api api' \<longleftrightarrow> (\<exists>e why. r = Inl e \<and> status_code e = 401 \<and>
     api' = api_audit (gx_mpsc gx) (auth_event AuthFailure None False (Some why)) api)"

definition admitted ::
  "('k, 'c) gate_ext \<Rightarrow> gate_env \<Rightarrow> string option option \<Rightarrow> cached_jwks option \<Rightarrow> api_db
   \<Rightarrow> authenticated_user \<Rightarrow> api_db \<Rightarrow> bool" where
  "admitted gx env header cache db user db' \<longleftrightarrow> (\<exists>token kid key claims t.
     header = Some (Some (''Bearer '' @ token)) \<and> jw_decode_header (gx_jwt gx) token = Some (Some kid) \<and>
     t \<in> {ge_now env, ge_later env} \<and> fresh_key (gx_jwt gx) kid t cache key \<and>
     jw_decode (gx_jwt gx) (ge_wall env) token key (clerk_validation (gx_clerk_issuer gx)) = Inr claims \<and>
     ru_clerk_id user = cc_sub claims \<and>
     upsert_user_stmt (ge_upsert env) (cc_sub claims) (cc_email claims) db = (Inr (ru_id user, ru_email user), db'))"

lemma with_db_cases: "with_db f st = (r, st') \<longleftrightarrow> (\<exists>db'. f (ap_db st) = (r, db') \<and> st' = st\<lparr>ap_db := db'\<rparr>)"
  by (auto simp: with_db_def split: prod.splits)

lemma upsert_user_db: "upsert_user_stmt x c e db = (Inl err, db') \<Longrightarrow> db' = db"
  by (auto simp: upsert_user_stmt_def run_stmt_def split: option.splits if_splits)

lemma failure_refused: "status_code e = 401 \<Longrightarrow> refused gx (Inl e) (gs_api st) (gs_api (emit_auth_failure gx None why st))"
  by (auto simp: refused_def emit_auth_failure_def)

lemma failure_jwks [simp]: "gs_jwks (emit_auth_failure gx u why st) = gs_jwks st"
  by (simp add: emit_auth_failure_def)

lemma cache_from_refl [simp]: "cache_from env c c"
  by (simp add: cache_from_def)

definition gate_end ::
  "('k, 'c) gate_ext \<Rightarrow> gate_env \<Rightarrow> string option option
   \<Rightarrow> (authenticated_user \<Rightarrow> ('c, 'd) api_state \<Rightarrow> (app_error + 'r) \<times> ('c, 'd) api_state)
   \<Rightarrow> ('c, 'd) api_state \<Rightarrow> app_error + 'r \<Rightarrow> ('c, 'd) gate_state \<Rightarrow> bool" where
  "gate_end gx env header run_next api r st' \<longleftrightarrow>
     refused gx r api (gs_api st') \<or>
     r = Inl (InternalServerError ''Failed to update user record.'') \<and> gs_api st' = api \<or>
     (\<exists>user db'. admitted gx env header (gs_jwks st') (ap_db api) user db' \<and>
        run_next user (api_audit (gx_mpsc gx) (auth_event AuthSuccess (Some (ru_id user)) True None) (api\<lparr>ap_db := db'\<rparr>)) =
          (r, gs_api st'))"

lemma verified_end:
  assumes run: "clerk_jwt_middleware gx env header run_next st = (r, st')"
    and token: "api_bearer_token header = Some token" "jw_decode_header (gx_jwt gx) token = Some (Some kid)"
    and key: "get_key (gx_jwt gx) kid (ge_now env) (ge_fetch env) (ge_later env) (gs_jwks st) = (Inr dk, cache)"
    and claims: "jw_decode (gx_jwt gx) (ge_wall env) token dk (clerk_validation (gx_clerk_issuer gx)) = Inr claims"
  shows "gs_jwks st' = cache \<and> gate_end gx env header run_next (gs_api st) r st'"
proof -
  obtain ur db' where u: "upsert_user_stmt (ge_upsert env) (cc_sub claims) (cc_email claims) (ap_db (gs_api st)) = (ur, db')"
    by (meson surj_pair)
  have tok: "header = Some (Some (''Bearer '' @ token))"
    using token(1) unfolding api_bearer_token_def bind_eq_Some_conv strip_prefix_eq_Some by auto
  show ?thesis
  proof (cases ur)
    case (Inl e)
    then have "db' = ap_db (gs_api st)" using u upsert_user_db by auto
    then show ?thesis
      using assms u Inl by (auto simp: clerk_jwt_middleware_def upsert_user_def with_db_def gate_end_def)
  next
    case (Inr ue)
    obtain t where t: "t \<in> {ge_now env, ge_later env}" "fresh_key (gx_jwt gx) kid t cache dk"
      using get_key_fresh [OF key] by auto
    let ?user = "\<lparr>ru_id = fst ue, ru_clerk_id = cc_sub claims, ru_email = snd ue\<rparr>"
    have "admitted gx env header cache (ap_db (gs_api st)) ?user db'"
      unfolding admitted_def using tok token(2) t claims u Inr by (intro exI conjI) auto
    moreover have "run_next ?user (api_audit (gx_mpsc gx) (auth_event AuthSuccess (Some (ru_id ?user)) True None)
        ((gs_api st)\<lparr>ap_db := db'\<rparr>)) = (r, gs_api st') \<and> gs_jwks st' = cache"
      using assms u Inr by (auto simp: clerk_jwt_middleware_def upsert_user_def with_db_def Let_def split: prod.splits)
    ultimately show ?thesis unfolding gate_end_def by blast
  qed
qed

lemma middleware_end:
  assumes "clerk_jwt_middleware gx env header run_next st = (r, st')"
  shows "cache_from env (gs_jwks st) (gs_jwks st') \<and> gate_end gx env header run_next (gs_api st) r st'"
proof -
  have no: "cache_from env (gs_jwks st) (gs_jwks st') \<and> gate_end gx env header run_next (gs_api st) r st'"
    if "r = Inl e" "st' = emit_auth_failure gx None why (st\<lparr>gs_jwks := c\<rparr>)" "status_code e = 401" "cache_from env (gs_jwks st) c" for e why c
    using that by (simp add: gate_end_def failure_refused [of e gx "st\<lparr>gs_jwks := c\<rparr>" why, simplified])
  consider (header) "api_bearer_token header = None"
    | (kid) token where "api_bearer_token header = Some token" "\<forall>kid. jw_decode_header (gx_jwt gx) token \<noteq> Some (Some kid)"
    | (key) token kid fetched cache where "api_bearer_token header = Some token" "jw_decode_header (gx_jwt gx) token = Some (Some kid)"
        "get_key (gx_jwt gx) kid (ge_now env) (ge_fetch env) (ge_later env) (gs_jwks st) = (fetched, cache)"
    by (metis not_None_eq surj_pair)
  then show ?thesis
  proof cases
    case header
    then show ?thesis using assms by (intro no [where c = "gs_jwks st"]) (auto simp: clerk_jwt_middleware_def)
  next
    case kid
    then obtain why where "r = Inl (Unauthorized ''Invalid token.'')" "st' = emit_auth_failure gx None why (st\<lparr>gs_jwks := gs_jwks st\<rparr>)"
      using assms by (auto simp: clerk_jwt_middleware_def split: option.splits)
    then show ?thesis by (rule no) auto
  next
    case key
    have c: "cache_from env (gs_jwks st) cache" using get_key_cache [of env "gs_jwks st" "gx_jwt gx" kid] key(3) by simp
    show ?thesis
    proof (cases fetched)
      case (Inl e)
      then show ?thesis using assms key c by (intro no [where c = cache]) (auto simp: clerk_jwt_middleware_def)
    next
      case k: (Inr dk)
      show ?thesis
      proof (cases "jw_decode (gx_jwt gx) (ge_wall env) token dk (clerk_validation (gx_clerk_issuer gx))")
        case (Inl e)
        then obtain e' why where "r = Inl e'" "st' = emit_auth_failure gx None why (st\<lparr>gs_jwks := cache\<rparr>)" "status_code e' = 401"
          using assms key k by (cases e) (auto simp: clerk_jwt_middleware_def)
        then show ?thesis using c by (rule no)
      next
        case (Inr claims)
        then show ?thesis using verified_end [OF assms key(1,2) key(3) [unfolded k]] c by auto
      qed
    qed
  qed
qed


section \<open>Accounts\<close>

definition user_of :: "string \<Rightarrow> api_db \<Rightarrow> uuid option" where
  "user_of clerk db = map_option us_id (find (\<lambda>u. us_clerk_id u = clerk) (t_users db))"

lemma find_append: "find P (xs @ ys) = (case find P xs of Some x \<Rightarrow> Some x | None \<Rightarrow> find P ys)"
  by (induction xs) auto

lemma find_update_cols:
  "(\<And>u. us_clerk_id (g u) = us_clerk_id u) \<Longrightarrow> (\<And>u. us_id (g u) = us_id u) \<Longrightarrow>
    map_option us_id (find (\<lambda>u. us_clerk_id u = c) (map (\<lambda>u. if P u then g u else u) us)) =
    map_option us_id (find (\<lambda>u. us_clerk_id u = c) us)"
  by (induction us) auto

lemma upsert_user_of:
  assumes "upsert_user_stmt x c e db = (Inr (i, e'), db')"
  shows "user_of c db' = Some i" "user_of c db = Some j \<Longrightarrow> i = j" "c' \<noteq> c \<Longrightarrow> user_of c' db' = user_of c' db"
proof -
  consider (old) u where "find (\<lambda>u. us_clerk_id u = c) (t_users db) = Some u" "i = us_id u"
      "t_users db' = map (\<lambda>v. if us_clerk_id v = c then v\<lparr>us_email := e, us_updated_at := sm_now x\<rparr> else v) (t_users db)"
    | (new) "find (\<lambda>u. us_clerk_id u = c) (t_users db) = None"
      "t_users db' = t_users db @ [\<lparr>us_id = i, us_clerk_id = c, us_email = e, us_created_at = sm_now x, us_updated_at = sm_now x\<rparr>]"
    using assms by (auto simp: upsert_user_stmt_def run_stmt_def split: option.splits if_splits)
  then have "user_of c db' = Some i \<and> (user_of c db = Some j \<longrightarrow> i = j) \<and> (c' \<noteq> c \<longrightarrow> user_of c' db' = user_of c' db)"
  proof cases
    case old
    then have "user_of d db' = user_of d db" for d by (simp add: user_of_def find_update_cols)
    with old show ?thesis by (simp add: user_of_def)
  next
    case new
    then show ?thesis by (simp add: user_of_def find_append split: option.split)
  qed
  then show "user_of c db' = Some i" "user_of c db = Some j \<Longrightarrow> i = j" "c' \<noteq> c \<Longrightarrow> user_of c' db' = user_of c' db" by blast+
qed

lemma find_filter_other: "c \<noteq> d \<Longrightarrow> find (\<lambda>u. us_clerk_id u = c) (filter (\<lambda>u. us_clerk_id u \<noteq> d) us) = find (\<lambda>u. us_clerk_id u = c) us"
  by (induction us) auto

lemma delete_user_of: "c \<noteq> d \<Longrightarrow> user_of c (snd (delete_user_stmt x d db)) = user_of c db"
  by (simp add: user_of_def delete_user_stmt_def run_stmt_def drop_servers_def Let_def find_filter_other split: option.split)

section \<open>The API\<close>

text \<open>A request of a user, or a delivery of the webhook.\<close>

datatype 'h api_call =
    User_Call "string option option" gate_env op_env api_op
  | Webhook_Call stmt 'h bytes

fun serve ::
  "('u, 'n, 'm, 'c) api_ext \<Rightarrow> 'c cred_ext \<Rightarrow> ('k, 'c) gate_ext \<Rightarrow> ('w, 'h, 'c) webhook_ext \<Rightarrow> 'h api_call
   \<Rightarrow> ('c, 'd) gate_state \<Rightarrow> (app_error + api_reply) \<times> ('c, 'd) gate_state" where
  "serve ax cx gx wx (User_Call header env oe oper) st = clerk_jwt_middleware gx env header (v1_protected ax cx oe oper) st"
| "serve ax cx gx wx (Webhook_Call x headers body) st =
     (let (r, api) = clerk_webhook_handler wx x headers body (gs_api st)
      in (and_then r (\<lambda>_. Inr No_Content), st\<lparr>gs_api := api\<rparr>))"

inductive api_step ::
  "('u, 'n, 'm, 'c) api_ext \<Rightarrow> 'c cred_ext \<Rightarrow> ('k, 'c) gate_ext \<Rightarrow> ('w, 'h, 'c) webhook_ext
   \<Rightarrow> ('c, 'd) gate_state \<Rightarrow> ('c, 'd) gate_state \<Rightarrow> bool" for ax cx gx wx where
  Served: "serve ax cx gx wx call st = (r, st') \<Longrightarrow> api_step ax cx gx wx st st'"

inductive_cases api_stepE: "api_step ax cx gx wx st st'"

text \<open>A delivery with a valid signature, and its event.\<close>

definition verified_event :: "('w, 'h, 'c) webhook_ext \<Rightarrow> 'h \<Rightarrow> bytes \<Rightarrow> string list \<Rightarrow> clerk_user_data \<Rightarrow> bool" where
  "verified_event wx headers body types user \<longleftrightarrow> (\<exists>wh payload. wx_new wx (wx_secret wx) = Some wh \<and> wx_verify wx wh body headers \<and>
     wx_from_slice wx body = Some payload \<and> wp_event_type payload \<in> set types \<and> user_data_from (wp_data payload) = Some user)"

definition email_of :: "clerk_user_data \<Rightarrow> string" where
  "email_of user = (case extract_primary_email user of Some e \<Rightarrow> e | None \<Rightarrow> [])"

lemma webhook_db:
  assumes "clerk_webhook_handler wx x headers body st = (r, st')"
  shows "ap_db st' = ap_db st \<or>
    (\<exists>user clerk. cu_id user = Some clerk \<and>
      (verified_event wx headers body [''user.created'', ''user.updated''] user \<and>
         (\<exists>i. upsert_user_stmt x clerk (email_of user) (ap_db st) = (Inr i, ap_db st')) \<or>
       verified_event wx headers body [''user.deleted''] user \<and> ap_db st' = snd (delete_user_stmt x clerk (ap_db st))))"
proof (cases "ap_db st' = ap_db st")
  case False
  obtain wh payload where p: "wx_new wx (wx_secret wx) = Some wh" "wx_verify wx wh body headers" "wx_from_slice wx body = Some payload"
    using assms False by (auto simp: clerk_webhook_handler_def split: option.splits if_splits)
  then have h: "(r, st') = (if wp_event_type payload \<in> {''user.created'', ''user.updated''} then handle_user_upsert x (wp_data payload) st
      else if wp_event_type payload = ''user.deleted'' then handle_user_delete x (wp_data payload) st else (Inr (), st))"
    using assms by (simp add: clerk_webhook_handler_def)
  obtain user clerk where u: "user_data_from (wp_data payload) = Some user" "cu_id user = Some clerk"
    using h False by (auto simp: handle_user_upsert_def handle_user_delete_def split: if_splits option.splits)
  have e: "verified_event wx headers body types user" if "wp_event_type payload \<in> set types" for types
    using p u that by (auto simp: verified_event_def)
  show ?thesis
  proof (cases "wp_event_type payload \<in> {''user.created'', ''user.updated''}")
    case True
    then have "verified_event wx headers body [''user.created'', ''user.updated''] user" by (intro e) simp
    moreover have "\<exists>i. upsert_user_stmt x clerk (email_of user) (ap_db st) = (Inr i, ap_db st')"
      using h u True False upsert_user_db
      by (fastforce simp: handle_user_upsert_def with_db_def email_of_def Let_def split: prod.splits sum.splits)
    ultimately show ?thesis using u(2) by blast
  next
    case no: False
    then have d: "wp_event_type payload = ''user.deleted''" using h False by (auto split: if_splits)
    then have "verified_event wx headers body [''user.deleted''] user" by (intro e) simp
    moreover have "ap_db st' = snd (delete_user_stmt x clerk (ap_db st))"
      using h u d by (auto simp: handle_user_delete_def with_db_def split: prod.splits sum.splits)
    ultimately show ?thesis using u(2) by blast
  qed
qed simp

lemma configs_ok_upsert: "configs_ok ax (snd (upsert_user_stmt x c e db)) = configs_ok ax db"
  by (rule configs_ok_same) (auto simp: upsert_user_stmt_def run_stmt_def split: option.split)

lemma configs_ok_delete: "configs_ok ax db \<Longrightarrow> configs_ok ax (snd (delete_user_stmt x c db))"
  by (auto simp: configs_ok_def delete_user_stmt_def run_stmt_def drop_servers_def Let_def split: option.split)

lemma webhook_keeps:
  assumes "clerk_webhook_handler wx x headers body st = (r, st')"
  shows "db_ok (ap_db st) \<Longrightarrow> db_ok (ap_db st')" "configs_ok ax (ap_db st) \<Longrightarrow> configs_ok ax (ap_db st')"
proof -
  have snd_eq: "q = snd p" if "p = (i, q)" for p and i :: "sql_error + uuid \<times> string" and q :: api_db using that by simp
  show "db_ok (ap_db st')" if "db_ok (ap_db st)"
    using webhook_db [OF assms] that upsert_user_ok delete_user_stmt_ok by (metis snd_eq)
  show "configs_ok ax (ap_db st')" if "configs_ok ax (ap_db st)"
    using webhook_db [OF assms] that configs_ok_upsert configs_ok_delete by (metis snd_eq)
qed

lemma serve_keeps:
  assumes "serve ax cx gx wx call st = (r, st')" "db_ok (ap_db (gs_api st))" "configs_ok ax (ap_db (gs_api st))"
  shows "db_ok (ap_db (gs_api st')) \<and> configs_ok ax (ap_db (gs_api st'))"
proof (cases call)
  case (User_Call header env oe oper)
  from middleware_end [OF assms(1) [unfolded User_Call serve.simps]]
  have "gate_end gx env header (v1_protected ax cx oe oper) (gs_api st) r st'" by simp
  then show ?thesis unfolding gate_end_def
  proof (elim disjE exE conjE)
    fix user db' assume a: "admitted gx env header (gs_jwks st') (ap_db (gs_api st)) user db'"
      and n: "v1_protected ax cx oe oper user (api_audit (gx_mpsc gx) (auth_event AuthSuccess (Some (ru_id user)) True None)
        ((gs_api st)\<lparr>ap_db := db'\<rparr>)) = (r, gs_api st')"
    have "db_ok db' \<and> configs_ok ax db'"
      using a assms(2,3) upsert_user_ok configs_ok_upsert unfolding admitted_def by (metis snd_conv)
    with v1_protected_keeps [OF n] show ?thesis by (simp add: kept_for_def)
  qed (use assms(2,3) in \<open>auto simp: refused_def\<close>)
next
  case (Webhook_Call x headers body)
  obtain wr api where w: "clerk_webhook_handler wx x headers body (gs_api st) = (wr, api)" by (meson surj_pair)
  with Webhook_Call assms(1) have "gs_api st' = api" by auto
  with webhook_keeps(1) [OF w assms(2)] webhook_keeps(2) [OF w assms(3)] show ?thesis by simp
qed

text \<open>
  C17: The database of the API is sound at all times. From an empty database, after any sequence of requests and webhook
  deliveries with any answers of PostgreSQL, the key server and the clocks: the keys of every table are unique and every reference
  has its target, and every server has a configuration that reads back and whose upstream address passes the SSRF check.
\<close>

theorem api_database_sound:
  assumes "reach (\<lambda>s. ap_db (gs_api s) = \<lparr>t_users = [], t_servers = [], t_credentials = [], t_tokens = [], t_notices = []\<rparr>)
    (api_step ax cx gx wx) s"
  shows "db_ok (ap_db (gs_api s)) \<and> configs_ok ax (ap_db (gs_api s))"
  using assms
proof (rule reach_invariant)
  show "db_ok (ap_db (gs_api t)) \<and> configs_ok ax (ap_db (gs_api t))"
    if "ap_db (gs_api t) = \<lparr>t_users = [], t_servers = [], t_credentials = [], t_tokens = [], t_notices = []\<rparr>" for t
    using that by (simp add: db_ok_def users_ok_def servers_ok_def credentials_ok_def tokens_ok_def configs_ok_def)
qed (auto elim!: api_stepE dest: serve_keeps)

text \<open>
  C26: An account keeps its id and goes away only on request of the identity provider: a call that is served while the Clerk id \<open>c\<close> has an
  account leaves the account with its id, unless the call is a delivery with a valid signature that says \<open>user.deleted\<close> for \<open>c\<close>; and a
  user who is admitted with the Clerk id \<open>c\<close> acts under that id, also after a change of the email address.
\<close>

theorem accounts_stable:
  assumes "serve ax cx gx wx call st = (r, st')" "db_ok (ap_db (gs_api st))" "user_of c (ap_db (gs_api st)) = Some i"
  shows "(user_of c (ap_db (gs_api st')) = Some i \<or>
      (\<exists>x headers body user. call = Webhook_Call x headers body \<and> verified_event wx headers body [''user.deleted''] user \<and> cu_id user = Some c)) \<and>
    (\<forall>env header user db'. admitted gx env header (gs_jwks st') (ap_db (gs_api st)) user db' \<and> ru_clerk_id user = c \<longrightarrow> ru_id user = i)"
proof (rule conjI)
  have up: "user_of c db' = Some i" if "upsert_user_stmt x d e (ap_db (gs_api st)) = (Inr (j, e'), db')" for x d e j e' db'
    using upsert_user_of(1) [OF that] upsert_user_of(2) [OF that, of i] upsert_user_of(3) [OF that, of c] assms(3) by (cases "c = d") auto
  show "\<forall>env header user db'. admitted gx env header (gs_jwks st') (ap_db (gs_api st)) user db' \<and> ru_clerk_id user = c \<longrightarrow> ru_id user = i"
    using upsert_user_of(2) assms(3) unfolding admitted_def by metis
  show "user_of c (ap_db (gs_api st')) = Some i \<or>
      (\<exists>x headers body user. call = Webhook_Call x headers body \<and> verified_event wx headers body [''user.deleted''] user \<and> cu_id user = Some c)"
  proof (cases call)
    case (User_Call header env oe oper)
    from middleware_end [OF assms(1) [unfolded User_Call serve.simps]]
    have "gate_end gx env header (v1_protected ax cx oe oper) (gs_api st) r st'" by simp
    then have "user_of c (ap_db (gs_api st')) = Some i" unfolding gate_end_def
    proof (elim disjE exE conjE)
      fix user db' assume a: "admitted gx env header (gs_jwks st') (ap_db (gs_api st)) user db'"
        and n: "v1_protected ax cx oe oper user (api_audit (gx_mpsc gx) (auth_event AuthSuccess (Some (ru_id user)) True None)
          ((gs_api st)\<lparr>ap_db := db'\<rparr>)) = (r, gs_api st')"
      have "db_ok db'" "user_of c db' = Some i" using a assms(2) upsert_user_ok up unfolding admitted_def by (metis snd_conv)+
      with v1_protected_keeps [OF n] show ?thesis by (simp add: kept_for_def others_kept_def user_of_def)
    qed (use assms(3) in \<open>auto simp: refused_def\<close>)
    then show ?thesis ..
  next
    case (Webhook_Call x headers body)
    obtain wr api where w: "clerk_webhook_handler wx x headers body (gs_api st) = (wr, api)" by (meson surj_pair)
    with Webhook_Call assms(1) have "gs_api st' = api" by auto
    with webhook_db [OF w] Webhook_Call up assms(3) delete_user_of show ?thesis by (metis surj_pair)
  qed
qed

lemma deleted_user_db:
  assumes "db_ok db" "user_of c db = Some i" "sm_error x = None" "db' = snd (delete_user_stmt x c db)"
  shows "user_of c db' = None" "db' = drop_servers (\<lambda>s. sv_user_id s = i) (db\<lparr>t_users := filter (\<lambda>u. us_clerk_id u \<noteq> c) (t_users db)\<rparr>)"
proof -
  obtain u where u: "u \<in> set (t_users db)" "us_clerk_id u = c" "us_id u = i"
    using assms(2) unfolding user_of_def by (metis (mono_tags, lifting) find_Some_iff map_option_eq_Some nth_mem)
  have "inj_on us_clerk_id (set (t_users db))" using assms(1) by (simp add: db_ok_def users_ok_def distinct_map)
  then have "us_id ` set (filter (\<lambda>u. us_clerk_id u = c) (t_users db)) = {i}" using u by (auto dest: inj_onD)
  then show "db' = drop_servers (\<lambda>s. sv_user_id s = i) (db\<lparr>t_users := filter (\<lambda>u. us_clerk_id u \<noteq> c) (t_users db)\<rparr>)"
    using assms(3,4) by (simp add: delete_user_stmt_def run_stmt_def)
  then show "user_of c db' = None" by (auto simp: drop_servers_def Let_def user_of_def find_None_iff)
qed

lemma dropped_rows:
  assumes "db_ok db" "db' = drop_servers (\<lambda>s. sv_user_id s = i) (db\<lparr>t_users := us\<rparr>)"
  shows "servers_of i db' = []" "foreign_servers i db' = foreign_servers i db"
    "foreign_credentials i db' = foreign_credentials i db" "foreign_tokens i db' = foreign_tokens i db"
proof -
  show "servers_of i db' = []" by (simp add: assms(2) drop_servers_def Let_def servers_of_def)
  show f: "foreign_servers i db' = foreign_servers i db" by (simp add: assms(2) drop_servers_def Let_def foreign_servers_def)
  have own: "k \<notin> sv_id ` set (filter (\<lambda>s. sv_user_id s = i) (t_servers db))" if "k \<in> sv_id ` set (foreign_servers i db)" for k
  proof
    assume "k \<in> sv_id ` set (filter (\<lambda>s. sv_user_id s = i) (t_servers db))"
    then obtain s where s: "s \<in> set (t_servers db)" "sv_user_id s = i" "k = sv_id s" by auto
    from own_not_foreign [OF assms(1) s(1,2)] that show False unfolding s(3) ..
  qed
  show "foreign_credentials i db' = foreign_credentials i db"
    unfolding foreign_credentials_def f using own by (auto simp: assms(2) drop_servers_def Let_def intro!: filter_cong)
  show "foreign_tokens i db' = foreign_tokens i db"
    unfolding foreign_tokens_def f using own by (auto simp: assms(2) drop_servers_def Let_def intro!: filter_cong)
qed

text \<open>
  C24: Deletion is complete and touches nobody else: a delivery with a valid signature that says \<open>user.deleted\<close> for a user with an
  account removes the account, all servers of the user, and with them all credentials and tokens of these servers; it announces
  every removed server to the gateways, and the accounts, servers, credentials and tokens of all others are as before.
\<close>

theorem user_deletion_cascades:
  assumes "db_ok (ap_db st)" "verified_event wx headers body [''user.deleted''] user" "cu_id user = Some c"
    and "user_of c (ap_db st) = Some i" "sm_error x = None" "clerk_webhook_handler wx x headers body st = (r, st')"
  shows "r = Inr () \<and> db_ok (ap_db st') \<and> user_of c (ap_db st') = None \<and> servers_of i (ap_db st') = [] \<and>
    ce_server_id ` set (t_credentials (ap_db st')) \<subseteq> sv_id ` set (foreign_servers i (ap_db st')) \<and>
    tk_server_id ` set (t_tokens (ap_db st')) \<subseteq> sv_id ` set (foreign_servers i (ap_db st')) \<and>
    t_notices (ap_db st') = t_notices (ap_db st) @ map (\<lambda>s. Server_Changed (sv_id s) ''delete'' (sv_config_version s)) (servers_of i (ap_db st)) \<and>
    (\<forall>d. d \<noteq> c \<longrightarrow> user_of d (ap_db st') = user_of d (ap_db st)) \<and>
    foreign_servers i (ap_db st') = foreign_servers i (ap_db st) \<and>
    foreign_credentials i (ap_db st') = foreign_credentials i (ap_db st) \<and> foreign_tokens i (ap_db st') = foreign_tokens i (ap_db st)"
proof -
  let ?db = "ap_db st" and ?db' = "ap_db st'"
  obtain wh payload where p: "wx_new wx (wx_secret wx) = Some wh" "wx_verify wx wh body headers" "wx_from_slice wx body = Some payload"
    "wp_event_type payload = ''user.deleted''" "user_data_from (wp_data payload) = Some user"
    using assms(2) by (auto simp: verified_event_def)
  then have r: "r = Inr () \<and> ?db' = snd (delete_user_stmt x c ?db)"
    using assms(3,5,6) by (auto simp: clerk_webhook_handler_def handle_user_delete_def with_db_def delete_user_stmt_def run_stmt_def Let_def)
  note db = deleted_user_db [OF assms(1,4,5) conjunct2 [OF r]]
  have ok: "db_ok ?db'" using r delete_user_stmt_ok [OF assms(1)] by simp
  have "foreign_servers i ?db' = t_servers ?db'" by (simp add: db(2) drop_servers_def Let_def foreign_servers_def)
  then have "ce_server_id ` set (t_credentials ?db') \<subseteq> sv_id ` set (foreign_servers i ?db')"
    "tk_server_id ` set (t_tokens ?db') \<subseteq> sv_id ` set (foreign_servers i ?db')"
    using ok by (simp_all add: db_ok_def credentials_ok_def tokens_ok_def)
  moreover have "t_notices ?db' = t_notices ?db @ map (\<lambda>s. Server_Changed (sv_id s) ''delete'' (sv_config_version s)) (servers_of i ?db)"
    by (simp add: db(2) drop_servers_def Let_def servers_of_def)
  moreover have "\<forall>d. d \<noteq> c \<longrightarrow> user_of d ?db' = user_of d ?db" using r delete_user_of by auto
  ultimately show ?thesis using r ok db(1) dropped_rows [OF assms(1) db(2)] by blast
qed

text \<open>
  A user without a primary email address is stored with the empty address, so a second one is refused by the uniqueness of
  addresses.
\<close>

theorem second_user_without_email_refused:
  assumes "verified_event wx headers body [''user.created''] user" "cu_id user = Some c" "extract_primary_email user = None"
    and "sm_error x = None" "u \<in> set (t_users (ap_db st))" "us_email u = []" "us_clerk_id u \<noteq> c"
  shows "clerk_webhook_handler wx x headers body st = (Inl (InternalServerError ''Failed to upsert user record.''), st)"
  using assms by (auto simp: verified_event_def clerk_webhook_handler_def handle_user_upsert_def with_db_def upsert_user_stmt_def run_stmt_def)

section \<open>Examples\<close>

definition sample_jwks :: json where
  "sample_jwks = Object [(''keys'', Array [Object [(''e'', String ''AQAB''), (''kid'', String ''k1''), (''kty'', String ''RSA''), (''n'', String ''n'')]])]"

definition sample_gx :: "(string, nat \<times> audit_event list) gate_ext" where
  "sample_gx = \<lparr>gx_mpsc = queue_mpsc,
     gx_jwt = \<lparr>jw_decode_header = (\<lambda>_. Some (Some ''k1'')), jw_from_rsa_components = (\<lambda>n e. Some n),
       jw_decode = (\<lambda>now t k v. if t = ''t'' then Inr \<lparr>cc_sub = ''c'', cc_email = ''e''\<rparr> else Inl OtherJwtError)\<rparr>,
     gx_clerk_issuer = ''clerk''\<rparr>"

definition sample_genv :: gate_env where
  "sample_genv = \<lparr>ge_now = 5, ge_fetch = Fetched sample_jwks, ge_later = 6, ge_wall = 0, ge_upsert = sample_stmt 30\<rparr>"

definition sample_wx :: "(string, unit, nat \<times> audit_event list) webhook_ext" where
  "sample_wx = \<lparr>wx_mpsc = queue_mpsc, wx_new = Some, wx_verify = (\<lambda>w b h. b = [1]),
     wx_from_slice = (\<lambda>b. Some \<lparr>wp_event_type = ''user.deleted'', wp_data = Object [(''id'', String ''c'')]\<rparr>), wx_secret = ''s''\<rparr>"

definition sample_gate :: "(nat \<times> audit_event list, audit_row list) gate_state" where
  "sample_gate = \<lparr>gs_api = sample_api, gs_jwks = None\<rparr>"

lemmas gate_eval = clerk_jwt_middleware_def api_bearer_token_def get_key_def cached_key_def refresh_def find_decoding_key_def
  jwk_of_def str_field_def sample_jwks_def sample_gx_def sample_genv_def sample_gate_def upsert_user_def with_db_def
  upsert_user_stmt_def run_stmt_def sample_stmt_def sample_api_def sample_db_def api_audit_def strip_prefix_def starts_with_def
  me_handler_def select_user_created_def reading_def


definition empty_gate :: "(nat \<times> audit_event list, audit_row list) gate_state" where
  "empty_gate = \<lparr>gs_api = \<lparr>ap_db = \<lparr>t_users = [], t_servers = [], t_credentials = [], t_tokens = [], t_notices = []\<rparr>,
     ap_audit = audit_logger_new queue_mpsc []\<rparr>, gs_jwks = None\<rparr>"

theorem api_database_sound_witness:
  "db_ok (ap_db (gs_api (snd (serve sample_ax sample_cx sample_gx sample_wx (User_Call (Some (Some ''Bearer t'')) sample_genv sample_oenv
      (Create_Server \<lparr>cq_display_name = ''n'', cq_description = None, cq_config = \<lparr>cf_upstream_base_url = None\<rparr>\<rparr>)) empty_gate))))"
proof -
  let ?call = "User_Call (Some (Some ''Bearer t'')) sample_genv sample_oenv
      (Create_Server \<lparr>cq_display_name = ''n'', cq_description = None, cq_config = \<lparr>cf_upstream_base_url = None\<rparr>\<rparr>)"
  let ?init = "\<lambda>s. ap_db (gs_api s) = \<lparr>t_users = [], t_servers = [], t_credentials = [], t_tokens = [], t_notices = []\<rparr>"
  have "reach ?init (api_step sample_ax sample_cx sample_gx sample_wx) empty_gate"
    by (rule reach_init) (simp add: empty_gate_def)
  moreover have "api_step sample_ax sample_cx sample_gx sample_wx empty_gate (snd (serve sample_ax sample_cx sample_gx sample_wx ?call empty_gate))"
    by (rule Served) (rule surjective_pairing)
  ultimately have "reach ?init (api_step sample_ax sample_cx sample_gx sample_wx) (snd (serve sample_ax sample_cx sample_gx sample_wx ?call empty_gate))"
    by (rule reach_step)
  from api_database_sound [OF this] show ?thesis by simp
qed

theorem accounts_stable_witness:
  "\<exists>r st'. serve sample_ax sample_cx sample_gx sample_wx (User_Call (Some (Some ''Bearer t'')) sample_genv sample_oenv Get_Me) sample_gate = (r, st') \<and>
    user_of ''c'' (ap_db (gs_api st')) = Some 1"
proof -
  obtain r st' where s: "serve sample_ax sample_cx sample_gx sample_wx (User_Call (Some (Some ''Bearer t'')) sample_genv sample_oenv Get_Me)
      sample_gate = (r, st')" by (meson surj_pair)
  have "db_ok (ap_db (gs_api sample_gate))" by (simp add: sample_gate_def sample_api_def sample_db_ok)
  moreover have "user_of ''c'' (ap_db (gs_api sample_gate)) = Some 1" by (simp add: sample_gate_def sample_api_def sample_db_def user_of_def)
  ultimately show ?thesis using accounts_stable [OF s] s by auto
qed

theorem user_deletion_cascades_witness:
  "\<exists>st'. clerk_webhook_handler sample_wx (sample_stmt 30) () [1] sample_api = (Inr (), st') \<and> servers_of 1 (ap_db st') = [] \<and>
    user_of ''c'' (ap_db st') = None"
proof -
  let ?user = "\<lparr>cu_id = Some ''c'', cu_email_addresses = [], cu_primary_email_address_id = None\<rparr>"
  obtain r st' where w: "clerk_webhook_handler sample_wx (sample_stmt 30) () [1] sample_api = (r, st')" by (meson surj_pair)
  have "verified_event sample_wx () [1] [''user.deleted''] ?user" by (simp add: verified_event_def sample_wx_def user_data_of_def)
  moreover have "db_ok (ap_db sample_api)" "user_of ''c'' (ap_db sample_api) = Some 1" "sm_error (sample_stmt 30) = None"
    by (simp add: sample_api_def sample_db_ok, simp add: sample_api_def sample_db_def user_of_def, simp add: sample_stmt_def)
  ultimately show ?thesis using user_deletion_cascades [OF _ _ _ _ _ w] w by auto
qed

end
