(* ===== verification/Service_Config.thy ===== *)
theory Service_Config
  imports Crypto Ssrf
begin

text \<open>
  Reading the configuration from the environment: \<open>libs/common/src/config.rs\<close> and the \<open>from_env\<close> functions of the gateway,
  the platform API and the credential injector. The environment is a function from names to values (absent, or not Unicode, is
  \<open>None\<close>). The number, boolean and address parsers are those of the standard library; the hex decoder is a parameter.
\<close>

section \<open>Errors\<close>

type_synonym environment = "string \<Rightarrow> string option"

datatype config_error = MissingVar string | InvalidValue string string

fun config_error_text :: "config_error \<Rightarrow> string" where
  "config_error_text (MissingVar var) = ''missing required environment variable: '' @ var"
| "config_error_text (InvalidValue var reason) = ''invalid value for environment variable '' @ var @ '': '' @ reason"

type_synonym config_errors = "config_error list"

definition config_errors_text :: "config_errors \<Rightarrow> string" where
  "config_errors_text es =
     ''configuration errors ('' @ show_nat (length es) @ '' total):'' @ concat (map (\<lambda>e. CHR 0x0A # ''  - '' @ config_error_text e) es)"

section \<open>Parsers of the standard library\<close>

text \<open>\<open>FromStr\<close> of the unsigned integers.\<close>

fun parse_digits :: "nat \<Rightarrow> nat \<Rightarrow> string \<Rightarrow> string + nat" where
  "parse_digits bound acc [] = Inr acc"
| "parse_digits bound acc (c # cs) =
     (if \<not> is_ascii_digit c then Inl ''invalid digit found in string''
      else if bound < acc * 10 + (of_char c - 48) then Inl ''number too large to fit in target type''
      else parse_digits bound (acc * 10 + (of_char c - 48)) cs)"

definition parse_unsigned :: "string \<Rightarrow> string + 'a::len word" where
  "parse_unsigned s =
     (if s = [] then Inl ''cannot parse integer from empty string''
      else if s = ''+'' \<or> s = ''-'' then Inl ''invalid digit found in string''
      else and_then (parse_digits (2 ^ LENGTH('a) - 1) 0 (if hd s = CHR ''+'' then tl s else s)) (\<lambda>n. Inr (of_nat n)))"

definition parse_bool :: "string \<Rightarrow> string + bool" where
  "parse_bool s =
     (if s = ''true'' then Inr True else if s = ''false'' then Inr False
      else Inl (''provided string was not `true` or `false`''))"

text \<open>\<open>FromStr\<close> of \<open>IpAddr\<close>: a reader takes characters from the front and returns the rest.\<close>

definition to_digit :: "nat \<Rightarrow> char \<Rightarrow> nat option" where
  "to_digit radix c =
     (let n = of_char c in
      if 48 \<le> n \<and> n \<le> 57 then Some (n - 48)
      else if radix = 16 \<and> 97 \<le> n \<and> n \<le> 102 then Some (n - 87)
      else if radix = 16 \<and> 65 \<le> n \<and> n \<le> 70 then Some (n - 55)
      else None)"

definition digits_value :: "nat \<Rightarrow> string \<Rightarrow> nat" where
  "digits_value radix ds = fold (\<lambda>c n. n * radix + (case to_digit radix c of Some d \<Rightarrow> d | None \<Rightarrow> 0)) ds 0"

definition read_number :: "nat \<Rightarrow> nat \<Rightarrow> bool \<Rightarrow> nat \<Rightarrow> string \<Rightarrow> (nat \<times> string) option" where
  "read_number radix max_digits allow_zero_prefix bound s =
     (let ds = takeWhile (\<lambda>c. to_digit radix c \<noteq> None) s in
      if max_digits < length ds \<or> ds = [] then None
      else if \<not> allow_zero_prefix \<and> hd ds = CHR ''0'' \<and> 1 < length ds then None
      else if bound < digits_value radix ds then None
      else Some (digits_value radix ds, drop (length ds) s))"

definition read_separator :: "char \<Rightarrow> nat \<Rightarrow> (string \<Rightarrow> 'a option) \<Rightarrow> string \<Rightarrow> 'a option" where
  "read_separator sep i inner s =
     (if 0 < i then (case s of c # cs \<Rightarrow> if c = sep then inner cs else None | [] \<Rightarrow> None) else inner s)"

definition read_octet :: "nat \<Rightarrow> string \<Rightarrow> (nat \<times> string) option" where
  "read_octet i = read_separator (CHR ''.'') i (read_number 10 3 False 255)"

definition read_ipv4_addr :: "string \<Rightarrow> (nat \<times> string) option" where
  "read_ipv4_addr s0 =
     Option.bind (read_octet 0 s0) (\<lambda>(a, s1). Option.bind (read_octet 1 s1) (\<lambda>(b, s2).
     Option.bind (read_octet 2 s2) (\<lambda>(c, s3). Option.bind (read_octet 3 s3) (\<lambda>(d, s4).
     Some (((a * 256 + b) * 256 + c) * 256 + d, s4)))))"

text \<open>\<open>k\<close> groups are left; a dotted address needs two.\<close>

fun read_groups :: "nat \<Rightarrow> nat \<Rightarrow> string \<Rightarrow> nat list \<times> bool \<times> string" where
  "read_groups i 0 s = ([], False, s)"
| "read_groups i (Suc k) s =
     (case (if 0 < k then read_separator (CHR '':'') i read_ipv4_addr s else None) of
        Some (v4, s1) \<Rightarrow> ([v4 div 65536, v4 mod 65536], True, s1)
      | None \<Rightarrow>
          (case read_separator (CHR '':'') i (read_number 16 4 True 65535) s of
             None \<Rightarrow> ([], False, s)
           | Some (g, s1) \<Rightarrow> let (gs, v4, s2) = read_groups (Suc i) k s1 in (g # gs, v4, s2)))"

definition groups_value :: "nat list \<Rightarrow> nat" where
  "groups_value gs = fold (\<lambda>g n. n * 65536 + g) gs 0"

definition read_ipv6_addr :: "string \<Rightarrow> (nat \<times> string) option" where
  "read_ipv6_addr s =
     (let (head_groups, head_ipv4, s1) = read_groups 0 8 s in
      if length head_groups = 8 then Some (groups_value head_groups, s1)
      else if head_ipv4 then None
      else if starts_with ''::'' s1 then
        let (tail_groups, _, s2) = read_groups 0 (8 - (length head_groups + 1)) (drop 2 s1) in
        Some (groups_value (head_groups @ replicate (8 - length head_groups - length tail_groups) 0 @ tail_groups), s2)
      else None)"

definition parse_ip_addr :: "string \<Rightarrow> ip_addr option" where
  "parse_ip_addr s =
     (case (case read_ipv4_addr s of
              Some (v, s1) \<Rightarrow> Some (V4 (of_nat v), s1)
            | None \<Rightarrow> map_option (\<lambda>(v, s1). (V6 (of_nat v), s1)) (read_ipv6_addr s)) of
        Some (ip, []) \<Rightarrow> Some ip
      | _ \<Rightarrow> None)"

section \<open>Environment variables\<close>

definition env_required :: "environment \<Rightarrow> config_errors \<Rightarrow> string \<Rightarrow> string option \<times> config_errors" where
  "env_required env errors var = (case env var of Some v \<Rightarrow> (Some v, errors) | None \<Rightarrow> (None, errors @ [MissingVar var]))"

definition env_optional :: "environment \<Rightarrow> string \<Rightarrow> string \<Rightarrow> string" where
  "env_optional env var fallback = (case env var of Some v \<Rightarrow> v | None \<Rightarrow> fallback)"

definition env_optional_parsed ::
  "(string \<Rightarrow> string + 'a) \<Rightarrow> environment \<Rightarrow> config_errors \<Rightarrow> string \<Rightarrow> 'a \<Rightarrow> 'a \<times> config_errors" where
  "env_optional_parsed parse env errors var fallback =
     (case env var of
        None \<Rightarrow> (fallback, errors)
      | Some raw \<Rightarrow> (case parse raw of Inr v \<Rightarrow> (v, errors) | Inl e \<Rightarrow> (fallback, errors @ [InvalidValue var e])))"

definition load_encryption_key :: "(string \<Rightarrow> bytes option) \<Rightarrow> environment \<Rightarrow> config_error + bytes" where
  "load_encryption_key hex_decode env =
     and_then (ok_or (MissingVar ''ENCRYPTION_KEY'') (env ''ENCRYPTION_KEY'')) (\<lambda>hex_str.
     and_then (ok_or (InvalidValue ''ENCRYPTION_KEY'' ''value is not valid hexadecimal'') (hex_decode hex_str)) (\<lambda>bs.
     if length bs = 32 then Inr bs
     else Inl (InvalidValue ''ENCRYPTION_KEY''
       (''expected 32 bytes (64 hex chars) but decoded '' @ show_nat (length bs) @ '' bytes''))))"

section \<open>The gateway\<close>

record gateway_settings =
  gc_port :: u16
  gc_database_url :: string
  gc_injector_socket_path :: string
  gc_upstream_max_response_bytes :: u64
  gc_upstream_timeout_secs :: u64
  gc_calls_per_server :: u32
  gc_calls_per_user :: u32
  gc_redis_url :: string
  gc_rate_limit_enabled :: bool
  gc_log_level :: string
  gc_max_connections :: u64
  gc_metrics_token :: "string option"

definition gateway_from_env :: "environment \<Rightarrow> config_errors + gateway_settings" where
  "gateway_from_env env =
     (let (database_url, es) = env_required env [] ''DATABASE_URL'';
          (port, es) = env_optional_parsed parse_unsigned env es ''GATEWAY_PORT'' 3000;
          (max_bytes, es) = env_optional_parsed parse_unsigned env es ''UPSTREAM_MAX_RESPONSE_BYTES'' 102400;
          (timeout_secs, es) = env_optional_parsed parse_unsigned env es ''UPSTREAM_TIMEOUT_SECS'' 30;
          (per_server, es) = env_optional_parsed parse_unsigned env es ''RATE_LIMIT_CALLS_PER_MIN_PER_SERVER'' 100;
          (per_user, es) = env_optional_parsed parse_unsigned env es ''RATE_LIMIT_CALLS_PER_MIN_PER_USER'' 1000;
          socket_path = env_optional env ''INJECTOR_SOCKET_PATH'' ''/tmp/recast-injector.sock'';
          redis_url = env_optional env ''REDIS_URL'' ''redis://127.0.0.1:6379'';
          (enabled, es) = env_optional_parsed parse_bool env es ''FEATURE_RATE_LIMIT_ENABLED'' True;
          log_level = env_optional env ''LOG_LEVEL'' ''info'';
          (max_connections, es) = env_optional_parsed parse_unsigned env es ''GATEWAY_MAX_CONNECTIONS'' 10000;
          metrics_token = (case env ''METRICS_TOKEN'' of Some t \<Rightarrow> if t = [] then None else Some t | None \<Rightarrow> None)
      in if es \<noteq> [] then Inl es
         else case database_url of
           Some url \<Rightarrow> Inr \<lparr>gc_port = port, gc_database_url = url, gc_injector_socket_path = socket_path,
             gc_upstream_max_response_bytes = max_bytes, gc_upstream_timeout_secs = timeout_secs, gc_calls_per_server = per_server,
             gc_calls_per_user = per_user, gc_redis_url = redis_url, gc_rate_limit_enabled = enabled, gc_log_level = log_level,
             gc_max_connections = max_connections, gc_metrics_token = metrics_token\<rparr>
         | None \<Rightarrow> Inl es)"

section \<open>The platform API\<close>

record platform_config =
  pc_port :: u16
  pc_database_url :: string
  pc_clerk_secret_key :: string
  pc_clerk_jwks_url :: string
  pc_clerk_webhook_secret :: string
  pc_clerk_issuer :: string
  pc_encryption_key :: string
  pc_cors_origins :: "string list"
  pc_gateway_base_url :: string

definition platform_from_env :: "environment \<Rightarrow> config_errors + platform_config" where
  "platform_from_env env =
     (let (database_url, es) = env_required env [] ''DATABASE_URL'';
          (secret_key, es) = env_required env es ''CLERK_SECRET_KEY'';
          (jwks_url, es) = env_required env es ''CLERK_JWKS_URL'';
          (webhook_secret, es) = env_required env es ''CLERK_WEBHOOK_SECRET'';
          (encryption_key, es) = env_required env es ''MCP_ENCRYPTION_KEY'';
          (base_url, es) = env_required env es ''GATEWAY_BASE_URL'';
          (port, es) = env_optional_parsed parse_unsigned env es ''API_PORT'' 3001;
          issuer = env_optional env ''CLERK_ISSUER'' [];
          raw = env_optional env ''MCP_API_CORS_ORIGINS'' [];
          origins = (if raw = [] then [] else filter (\<lambda>s. s \<noteq> []) (map trim (split_on (CHR '','') raw)))
      in if es \<noteq> [] then Inl es
         else case (database_url, secret_key, jwks_url, webhook_secret, encryption_key, base_url) of
           (Some url, Some secret, Some jwks, Some webhook, Some key, Some base) \<Rightarrow>
             Inr \<lparr>pc_port = port, pc_database_url = url, pc_clerk_secret_key = secret, pc_clerk_jwks_url = jwks,
               pc_clerk_webhook_secret = webhook, pc_clerk_issuer = issuer, pc_encryption_key = key, pc_cors_origins = origins,
               pc_gateway_base_url = base\<rparr>
         | _ \<Rightarrow> Inl es)"

text \<open>\<open>build_cors\<close> of the API's router; \<open>header_value\<close> is the parser of header values.\<close>

datatype 'v cors_layer = Cors_Permissive | Cors_Allow "'v list"

definition build_cors :: "(string \<Rightarrow> 'v option) \<Rightarrow> string list \<Rightarrow> 'v cors_layer" where
  "build_cors header_value origins =
     (if origins = [] then Cors_Permissive
      else let allowed = List.map_filter header_value origins
           in if allowed = [] then Cors_Permissive else Cors_Allow allowed)"

section \<open>The credential injector\<close>

record injector_config =
  ic_port :: u16
  ic_database_url :: string
  ic_encryption_key :: bytes
  ic_shared_secret :: string
  ic_allowed_caller_ips :: "ip_addr list"
  ic_upstream_timeout_secs :: u64

definition localhost :: ip_addr where "localhost = V4 0x7F000001"

definition ip_error :: "string \<Rightarrow> config_error" where
  "ip_error part = InvalidValue ''MCP_INJECTOR_ALLOWED_CALLER_IPS'' ([CHR 0x27] @ part @ [CHR 0x27] @ '' is not a valid IP address'')"

text \<open>The loop over the parts of the list.\<close>

fun collect_ips :: "string list \<Rightarrow> ip_addr list \<times> config_errors \<Rightarrow> ip_addr list \<times> config_errors" where
  "collect_ips [] (ips, errors) = (ips, errors)"
| "collect_ips (part # parts) (ips, errors) =
     collect_ips parts (case parse_ip_addr (trim part) of
        Some ip \<Rightarrow> (ips @ [ip], errors)
      | None \<Rightarrow> (ips, errors @ [ip_error (trim part)]))"

definition parse_allowed_ips :: "environment \<Rightarrow> config_errors \<Rightarrow> ip_addr list \<times> config_errors" where
  "parse_allowed_ips env errors =
     (case env ''MCP_INJECTOR_ALLOWED_CALLER_IPS'' of
        None \<Rightarrow> ([localhost], errors)
      | Some val \<Rightarrow>
          let (ips, errors) = collect_ips (split_on (CHR '','') val) ([], errors)
          in (if ips = [] then [localhost] else ips, errors))"

definition injector_from_env :: "(string \<Rightarrow> bytes option) \<Rightarrow> environment \<Rightarrow> config_errors + injector_config" where
  "injector_from_env hex_decode env =
     (let (database_url, es) = env_required env [] ''DATABASE_URL'';
          (shared_secret, es) = env_required env es ''MCP_INJECTOR_SHARED_SECRET'';
          (encryption_key, es) = (case load_encryption_key hex_decode env of Inr k \<Rightarrow> (Some k, es) | Inl e \<Rightarrow> (None, es @ [e]));
          (port, es) = env_optional_parsed parse_unsigned env es ''INJECTOR_PORT'' 3002;
          (timeout_secs, es) = env_optional_parsed parse_unsigned env es ''MCP_INJECTOR_UPSTREAM_TIMEOUT_SECS'' 30;
          (ips, es) = parse_allowed_ips env es
      in if es \<noteq> [] then Inl es
         else case (database_url, encryption_key, shared_secret) of
           (Some url, Some key, Some secret) \<Rightarrow>
             Inr \<lparr>ic_port = port, ic_database_url = url, ic_encryption_key = key, ic_shared_secret = secret,
               ic_allowed_caller_ips = ips, ic_upstream_timeout_secs = timeout_secs\<rparr>
         | _ \<Rightarrow> Inl es)"

section \<open>Every problem is reported\<close>

definition var_missing :: "environment \<Rightarrow> string \<Rightarrow> config_errors" where
  "var_missing env var = (if env var = None then [MissingVar var] else [])"

definition var_malformed :: "(string \<Rightarrow> string + 'a) \<Rightarrow> environment \<Rightarrow> string \<Rightarrow> config_errors" where
  "var_malformed parse env var =
     (case env var of Some raw \<Rightarrow> (case parse raw of Inl e \<Rightarrow> [InvalidValue var e] | Inr _ \<Rightarrow> []) | None \<Rightarrow> [])"

definition setting :: "(string \<Rightarrow> string + 'a) \<Rightarrow> environment \<Rightarrow> string \<Rightarrow> 'a \<Rightarrow> 'a" where
  "setting parse env var fallback =
     (case env var of Some raw \<Rightarrow> (case parse raw of Inr v \<Rightarrow> v | Inl _ \<Rightarrow> fallback) | None \<Rightarrow> fallback)"

lemma env_required_eq [simp]: "env_required env es var = (env var, es @ var_missing env var)"
  by (simp add: env_required_def var_missing_def split: option.split)

lemma env_optional_parsed_eq [simp]:
  "env_optional_parsed parse env es var d = (setting parse env var d, es @ var_malformed parse env var)"
  by (simp add: env_optional_parsed_def setting_def var_malformed_def split: option.split sum.split)

lemma var_missing_Nil: "var_missing env var = [] \<longleftrightarrow> (\<exists>v. env var = Some v)"
  by (simp add: var_missing_def)

definition key_problems :: "(string \<Rightarrow> bytes option) \<Rightarrow> environment \<Rightarrow> config_errors" where
  "key_problems hex_decode env = (case load_encryption_key hex_decode env of Inl e \<Rightarrow> [e] | Inr _ \<Rightarrow> [])"

definition listed_ips :: "environment \<Rightarrow> string list" where
  "listed_ips env =
     (case env ''MCP_INJECTOR_ALLOWED_CALLER_IPS'' of Some val \<Rightarrow> map trim (split_on (CHR '','') val) | None \<Rightarrow> [])"

definition ip_problems :: "environment \<Rightarrow> config_errors" where
  "ip_problems env = map ip_error (filter (\<lambda>p. parse_ip_addr p = None) (listed_ips env))"

lemma collect_ips_eq:
  "collect_ips parts (ips, es) =
     (ips @ List.map_filter parse_ip_addr (map trim parts), es @ map ip_error (filter (\<lambda>p. parse_ip_addr p = None) (map trim parts)))"
  by (induction parts "(ips, es)" arbitrary: ips es rule: collect_ips.induct) (auto simp: List.map_filter_simps split: option.split)

lemma parse_allowed_ips_eq:
  "parse_allowed_ips env es =
     (let ips = List.map_filter parse_ip_addr (listed_ips env) in (if ips = [] then [localhost] else ips, es @ ip_problems env))"
  by (simp add: parse_allowed_ips_def collect_ips_eq ip_problems_def listed_ips_def List.map_filter_simps Let_def split: option.split)

definition gateway_problems :: "environment \<Rightarrow> config_errors" where
  "gateway_problems env =
     var_missing env ''DATABASE_URL'' @ var_malformed (parse_unsigned :: string \<Rightarrow> string + u16) env ''GATEWAY_PORT'' @
     var_malformed (parse_unsigned :: string \<Rightarrow> string + u64) env ''UPSTREAM_MAX_RESPONSE_BYTES'' @
     var_malformed (parse_unsigned :: string \<Rightarrow> string + u64) env ''UPSTREAM_TIMEOUT_SECS'' @
     var_malformed (parse_unsigned :: string \<Rightarrow> string + u32) env ''RATE_LIMIT_CALLS_PER_MIN_PER_SERVER'' @
     var_malformed (parse_unsigned :: string \<Rightarrow> string + u32) env ''RATE_LIMIT_CALLS_PER_MIN_PER_USER'' @
     var_malformed parse_bool env ''FEATURE_RATE_LIMIT_ENABLED'' @
     var_malformed (parse_unsigned :: string \<Rightarrow> string + u64) env ''GATEWAY_MAX_CONNECTIONS''"

definition platform_problems :: "environment \<Rightarrow> config_errors" where
  "platform_problems env =
     concat (map (var_missing env)
       [''DATABASE_URL'', ''CLERK_SECRET_KEY'', ''CLERK_JWKS_URL'', ''CLERK_WEBHOOK_SECRET'', ''MCP_ENCRYPTION_KEY'', ''GATEWAY_BASE_URL'']) @
     var_malformed (parse_unsigned :: string \<Rightarrow> string + u16) env ''API_PORT''"

definition injector_problems :: "(string \<Rightarrow> bytes option) \<Rightarrow> environment \<Rightarrow> config_errors" where
  "injector_problems hex_decode env =
     var_missing env ''DATABASE_URL'' @ var_missing env ''MCP_INJECTOR_SHARED_SECRET'' @ key_problems hex_decode env @
     var_malformed (parse_unsigned :: string \<Rightarrow> string + u16) env ''INJECTOR_PORT'' @
     var_malformed (parse_unsigned :: string \<Rightarrow> string + u64) env ''MCP_INJECTOR_UPSTREAM_TIMEOUT_SECS'' @ ip_problems env"

lemma gateway_from_env_cases:
  "gateway_from_env env = (if gateway_problems env \<noteq> [] then Inl (gateway_problems env) else
     Inr \<lparr>gc_port = setting parse_unsigned env ''GATEWAY_PORT'' 3000, gc_database_url = the (env ''DATABASE_URL''),
       gc_injector_socket_path = env_optional env ''INJECTOR_SOCKET_PATH'' ''/tmp/recast-injector.sock'',
       gc_upstream_max_response_bytes = setting parse_unsigned env ''UPSTREAM_MAX_RESPONSE_BYTES'' 102400,
       gc_upstream_timeout_secs = setting parse_unsigned env ''UPSTREAM_TIMEOUT_SECS'' 30,
       gc_calls_per_server = setting parse_unsigned env ''RATE_LIMIT_CALLS_PER_MIN_PER_SERVER'' 100,
       gc_calls_per_user = setting parse_unsigned env ''RATE_LIMIT_CALLS_PER_MIN_PER_USER'' 1000,
       gc_redis_url = env_optional env ''REDIS_URL'' ''redis://127.0.0.1:6379'',
       gc_rate_limit_enabled = setting parse_bool env ''FEATURE_RATE_LIMIT_ENABLED'' True,
       gc_log_level = env_optional env ''LOG_LEVEL'' ''info'',
       gc_max_connections = setting parse_unsigned env ''GATEWAY_MAX_CONNECTIONS'' 10000,
       gc_metrics_token = (if env ''METRICS_TOKEN'' = Some [] then None else env ''METRICS_TOKEN'')\<rparr>)"
proof (cases "gateway_problems env = []")
  case True
  then obtain url where "env ''DATABASE_URL'' = Some url" by (auto simp: gateway_problems_def var_missing_Nil)
  with True show ?thesis
    by (auto simp: gateway_from_env_def gateway_problems_def Let_def split: option.split)
qed (simp add: gateway_from_env_def gateway_problems_def Let_def)

lemma platform_from_env_cases:
  "platform_from_env env = (if platform_problems env \<noteq> [] then Inl (platform_problems env) else
     Inr \<lparr>pc_port = setting parse_unsigned env ''API_PORT'' 3001, pc_database_url = the (env ''DATABASE_URL''),
       pc_clerk_secret_key = the (env ''CLERK_SECRET_KEY''), pc_clerk_jwks_url = the (env ''CLERK_JWKS_URL''),
       pc_clerk_webhook_secret = the (env ''CLERK_WEBHOOK_SECRET''), pc_clerk_issuer = env_optional env ''CLERK_ISSUER'' [],
       pc_encryption_key = the (env ''MCP_ENCRYPTION_KEY''),
       pc_cors_origins = filter (\<lambda>s. s \<noteq> []) (map trim (split_on (CHR '','') (env_optional env ''MCP_API_CORS_ORIGINS'' []))),
       pc_gateway_base_url = the (env ''GATEWAY_BASE_URL'')\<rparr>)"
proof -
  have none: "filter (\<lambda>s. s \<noteq> []) (map trim (split_on (CHR '','') [])) = []" by (simp add: trim_def)
  show ?thesis
  proof (cases "platform_problems env = []")
    case True
    then obtain a b c d e f where "env ''DATABASE_URL'' = Some a" "env ''CLERK_SECRET_KEY'' = Some b" "env ''CLERK_JWKS_URL'' = Some c"
      "env ''CLERK_WEBHOOK_SECRET'' = Some d" "env ''MCP_ENCRYPTION_KEY'' = Some e" "env ''GATEWAY_BASE_URL'' = Some f"
      by (auto simp: platform_problems_def var_missing_Nil)
    with True none show ?thesis by (simp add: platform_from_env_def platform_problems_def Let_def)
  qed (simp add: platform_from_env_def platform_problems_def Let_def)
qed

lemma injector_from_env_cases:
  "injector_from_env hex_decode env = (if injector_problems hex_decode env \<noteq> [] then Inl (injector_problems hex_decode env) else
     Inr \<lparr>ic_port = setting parse_unsigned env ''INJECTOR_PORT'' 3002, ic_database_url = the (env ''DATABASE_URL''),
       ic_encryption_key = projr (load_encryption_key hex_decode env), ic_shared_secret = the (env ''MCP_INJECTOR_SHARED_SECRET''),
       ic_allowed_caller_ips =
         (let ips = List.map_filter parse_ip_addr (listed_ips env) in if ips = [] then [localhost] else ips),
       ic_upstream_timeout_secs = setting parse_unsigned env ''MCP_INJECTOR_UPSTREAM_TIMEOUT_SECS'' 30\<rparr>)"
proof (cases "injector_problems hex_decode env = []")
  case True
  then obtain a b c where "env ''DATABASE_URL'' = Some a" "env ''MCP_INJECTOR_SHARED_SECRET'' = Some b" "load_encryption_key hex_decode env = Inr c"
    by (auto simp: injector_problems_def var_missing_Nil key_problems_def split: sum.splits)
  with True show ?thesis by (simp add: injector_from_env_def injector_problems_def Let_def parse_allowed_ips_eq key_problems_def)
next
  case False
  then show ?thesis
    by (cases "load_encryption_key hex_decode env")
      (auto simp: injector_from_env_def injector_problems_def Let_def parse_allowed_ips_eq key_problems_def)
qed


lemma load_key_Inr:
  "load_encryption_key hex_decode env = Inr k \<longleftrightarrow>
    (\<exists>h. env ''ENCRYPTION_KEY'' = Some h \<and> hex_decode h = Some k \<and> length k = 32)"
  by (auto simp: load_encryption_key_def and_then_eq_Inr ok_or_eq_Inr)

lemma split_on_not_Nil: "split_on c s \<noteq> []"
  by (induction s) (auto split: list.split)

lemma map_filter_all: "(\<And>x. x \<in> set xs \<Longrightarrow> f x \<noteq> None) \<Longrightarrow> map Some (List.map_filter f xs) = map f xs"
  by (induction xs) (auto simp: List.map_filter_simps split: option.split)

text \<open>
  An injector that has started has a secret from its environment, a key of 32 bytes, and admits exactly the addresses that are
  listed, each of which is well-formed; without a list it admits only 127.0.0.1.
\<close>

theorem injector_start_exact:
  assumes "injector_from_env hex_decode env = Inr cfg"
  shows "env ''MCP_INJECTOR_SHARED_SECRET'' = Some (ic_shared_secret cfg) \<and> length (ic_encryption_key cfg) = 32 \<and>
    Option.bind (env ''ENCRYPTION_KEY'') hex_decode = Some (ic_encryption_key cfg) \<and>
    (if env ''MCP_INJECTOR_ALLOWED_CALLER_IPS'' = None then ic_allowed_caller_ips cfg = [localhost]
     else map parse_ip_addr (listed_ips env) = map Some (ic_allowed_caller_ips cfg))"
proof -
  have np: "injector_problems hex_decode env = []" using assms by (auto simp: injector_from_env_cases split: if_splits)
  then obtain s k where s: "env ''MCP_INJECTOR_SHARED_SECRET'' = Some s" "load_encryption_key hex_decode env = Inr k"
    by (auto simp: injector_problems_def var_missing_Nil key_problems_def split: sum.splits)
  have cfg: "ic_shared_secret cfg = s" "ic_encryption_key cfg = k"
    "ic_allowed_caller_ips cfg = (let ips = List.map_filter parse_ip_addr (listed_ips env) in if ips = [] then [localhost] else ips)"
    using assms np s by (auto simp: injector_from_env_cases)
  have "parse_ip_addr p \<noteq> None" if "p \<in> set (listed_ips env)" for p
    using np that by (auto simp: injector_problems_def ip_problems_def filter_empty_conv)
  then have all: "map Some (List.map_filter parse_ip_addr (listed_ips env)) = map parse_ip_addr (listed_ips env)"
    by (rule map_filter_all)
  have "if env ''MCP_INJECTOR_ALLOWED_CALLER_IPS'' = None then ic_allowed_caller_ips cfg = [localhost]
     else map parse_ip_addr (listed_ips env) = map Some (ic_allowed_caller_ips cfg)"
  proof (cases "env ''MCP_INJECTOR_ALLOWED_CALLER_IPS''")
    case None
    then show ?thesis by (simp add: cfg listed_ips_def List.map_filter_simps Let_def)
  next
    case (Some v)
    then have "listed_ips env \<noteq> []" by (simp add: listed_ips_def split_on_not_Nil)
    then have "List.map_filter parse_ip_addr (listed_ips env) \<noteq> []" using all by (metis list.map_disc_iff)
    with Some all show ?thesis by (simp add: cfg Let_def)
  qed
  with s cfg show ?thesis by (auto simp: load_key_Inr)
qed

text \<open>
  The API and the injector work with the same key when their two variables have the same text: the key that the API derives
  from \<open>MCP_ENCRYPTION_KEY\<close> is the key that the injector loads from \<open>ENCRYPTION_KEY\<close>.
\<close>

theorem services_share_key:
  assumes "env ''MCP_ENCRYPTION_KEY'' = env ''ENCRYPTION_KEY''" "platform_from_env env = Inr pc"
    and "injector_from_env hex_decode env = Inr ic"
  shows "key_from_hex hex_decode (pc_encryption_key pc) = Inr (key_from_bytes (ic_encryption_key ic))"
proof -
  have "pc_encryption_key pc = the (env ''ENCRYPTION_KEY'')" using assms(1,2) by (auto simp: platform_from_env_cases split: if_splits)
  moreover obtain k where "load_encryption_key hex_decode env = Inr k" "ic_encryption_key ic = k"
    using assms(3) by (auto simp: injector_from_env_cases injector_problems_def key_problems_def split: if_splits sum.splits)
  ultimately show ?thesis by (auto simp: load_key_Inr key_from_hex_def key_from_bytes_def ok_or_def and_then_def)
qed

text \<open>
  A list of origins none of which is a header value opens the API to every origin.
\<close>

theorem malformed_origins_open_cors:
  assumes "\<And>origin. origin \<in> set (pc_cors_origins pc) \<Longrightarrow> header_value origin = None"
  shows "build_cors header_value (pc_cors_origins pc) = Cors_Permissive"
proof -
  have "List.map_filter header_value xs = []" if "\<And>origin. origin \<in> set xs \<Longrightarrow> header_value origin = None" for xs
    using that by (induction xs) (auto simp: List.map_filter_simps)
  with assms show ?thesis by (simp add: build_cors_def)
qed

section \<open>Addresses\<close>

text \<open>\<open>Display\<close> of \<open>Ipv4Addr\<close>.\<close>

definition ipv4_text :: "u32 \<Rightarrow> string" where
  "ipv4_text ip =
     (let n = unat ip in join ''.'' (map show_nat [n div 16777216, n div 65536 mod 256, n div 256 mod 256, n mod 256]))"

lemma digit_char: "d < 10 \<Longrightarrow> to_digit 10 (char_of (48 + d)) = Some d"
  by (simp add: to_digit_def)

lemma show_small:
  "n < 10 \<Longrightarrow> show_nat n = [char_of (48 + n)]"
  "10 \<le> n \<Longrightarrow> n < 100 \<Longrightarrow> show_nat n = [char_of (48 + n div 10), char_of (48 + n mod 10)]"
  "100 \<le> n \<Longrightarrow> n < 1000 \<Longrightarrow> show_nat n = [char_of (48 + n div 100), char_of (48 + n div 10 mod 10), char_of (48 + n mod 10)]"
proof -
  show one: "show_nat n = [char_of (48 + n)]" if "n < 10" for n using that by (simp add: show_nat.simps)
  show two: "show_nat n = [char_of (48 + n div 10), char_of (48 + n mod 10)]" if "10 \<le> n" "n < 100" for n
  proof -
    have "n div 10 < 10" using that(2) by (intro less_mult_imp_div_less) simp
    with that(1) show ?thesis by (simp add: show_nat.simps [of n] one)
  qed
  show "show_nat n = [char_of (48 + n div 100), char_of (48 + n div 10 mod 10), char_of (48 + n mod 10)]" if "100 \<le> n" "n < 1000"
  proof -
    have "10 \<le> n div 10" "n div 10 < 100" using that by (auto intro: less_mult_imp_div_less)
    from two [OF this] that(1) show ?thesis by (simp add: show_nat.simps [of n] div_mult2_eq [symmetric])
  qed
qed

lemma not_zero_char:
  assumes "0 < d" "d < (10 :: nat)"
  shows "char_of (48 + d) \<noteq> CHR ''0''"
proof
  assume "char_of (48 + d) = CHR ''0''"
  then have "(of_char (char_of (48 + d)) :: nat) = of_char (CHR ''0'')" by simp
  with assms show False by simp
qed

lemma read_octet_text:
  assumes "n < 256" "rest = [] \<or> to_digit 10 (hd rest) = None"
  shows "read_number 10 3 False 255 (show_nat n @ rest) = Some (n, rest)"
proof -
  have stop: "takeWhile (\<lambda>c. to_digit 10 c \<noteq> None) rest = []" using assms(2) by (cases rest) auto
  have d: "to_digit 10 (char_of (48 + n mod 10)) = Some (n mod 10)" "to_digit 10 (char_of (48 + n div 10 mod 10)) = Some (n div 10 mod 10)"
    by (simp_all add: digit_char)
  consider "n < 10" | "10 \<le> n" "n < 100" | "100 \<le> n" "n < 1000" using assms(1) by linarith
  then show ?thesis
  proof cases
    case 1
    then show ?thesis using stop assms(1) by (simp add: show_small read_number_def digits_value_def digit_char)
  next
    case 2
    then have "to_digit 10 (char_of (48 + n div 10)) = Some (n div 10)" "char_of (48 + n div 10) \<noteq> CHR ''0''"
      using not_zero_char [of "n div 10"] by (auto intro!: digit_char less_mult_imp_div_less)
    with 2 stop d assms(1) show ?thesis by (simp add: show_small read_number_def digits_value_def)
  next
    case 3
    then have "to_digit 10 (char_of (48 + n div 100)) = Some (n div 100)" "char_of (48 + n div 100) \<noteq> CHR ''0''"
      using not_zero_char [of "n div 100"] by (auto intro!: digit_char less_mult_imp_div_less)
    moreover have "(n div 100 * 10 + n div 10 mod 10) * 10 + n mod 10 = n"
      using div_mult_mod_eq [of n 10] div_mult_mod_eq [of "n div 10" 10] by (simp add: div_mult2_eq [symmetric])
    ultimately show ?thesis using 3 stop d assms(1) by (simp add: show_small read_number_def digits_value_def)
  qed
qed

text \<open>
  An address is recognised by its text: the dotted text of every IPv4 address parses back to that address.
\<close>

theorem ipv4_text_roundtrip: "parse_ip_addr (ipv4_text ip) = Some (V4 ip)"
proof -
  let ?n = "unat ip"
  have n: "?n < 4294967296" using unsigned_less [of ip] by simp
  have parts: "?n div 16777216 < 256" "?n div 65536 mod 256 < 256" "?n div 256 mod 256 < 256" "?n mod 256 < 256" using n by auto
  have dot: "to_digit 10 (CHR ''.'') = None" by (simp add: to_digit_def)
  have sum: "((?n div 16777216 * 256 + ?n div 65536 mod 256) * 256 + ?n div 256 mod 256) * 256 + ?n mod 256 = ?n"
    using div_mult_mod_eq [of ?n 256] div_mult_mod_eq [of "?n div 256" 256] div_mult_mod_eq [of "?n div 65536" 256]
    by (simp add: div_mult2_eq [symmetric])
  have "read_ipv4_addr (ipv4_text ip) = Some (?n, [])"
    using sum unfolding ipv4_text_def Let_def read_ipv4_addr_def
    by (simp add: read_octet_def read_separator_def read_octet_text [OF parts(1)] read_octet_text [OF parts(2)]
        read_octet_text [OF parts(3)] read_octet_text [OF parts(4), of "[]", simplified] dot)
  then show ?thesis by (simp add: parse_ip_addr_def)
qed

section \<open>Examples\<close>

definition sample_environment :: environment where
  "sample_environment = map_of [(''DATABASE_URL'', ''db''), (''MCP_INJECTOR_SHARED_SECRET'', ''s''), (''ENCRYPTION_KEY'', ''k''),
     (''MCP_ENCRYPTION_KEY'', ''k''), (''CLERK_SECRET_KEY'', ''c''), (''CLERK_JWKS_URL'', ''u''), (''CLERK_WEBHOOK_SECRET'', ''w''),
     (''GATEWAY_BASE_URL'', ''g'')]"

lemma sample_injector_starts:
  "\<exists>cfg. injector_from_env (\<lambda>_. Some (replicate 32 7)) sample_environment = Inr cfg \<and> ic_allowed_caller_ips cfg = [localhost]"
  by (simp add: injector_from_env_def sample_environment_def var_missing_def var_malformed_def load_encryption_key_def parse_allowed_ips_def
      and_then_def ok_or_def)

theorem injector_start_exact_witness:
  "\<exists>cfg. injector_from_env (\<lambda>_. Some (replicate 32 7)) sample_environment = Inr cfg \<and> length (ic_encryption_key cfg) = 32 \<and>
    ic_allowed_caller_ips cfg = [localhost]"
  using sample_injector_starts injector_start_exact [of "\<lambda>_. Some (replicate 32 7)" sample_environment] by blast

theorem services_share_key_witness:
  "\<exists>pc ic. platform_from_env sample_environment = Inr pc \<and> injector_from_env (\<lambda>_. Some (replicate 32 7)) sample_environment = Inr ic \<and>
    key_from_hex (\<lambda>_. Some (replicate 32 7)) (pc_encryption_key pc) = Inr (key_from_bytes (ic_encryption_key ic))"
proof -
  obtain ic where ic: "injector_from_env (\<lambda>_. Some (replicate 32 7)) sample_environment = Inr ic" using sample_injector_starts by blast
  obtain pc where pc: "platform_from_env sample_environment = Inr pc"
    by (simp add: platform_from_env_def sample_environment_def var_missing_def var_malformed_def Let_def)
  have "sample_environment ''MCP_ENCRYPTION_KEY'' = sample_environment ''ENCRYPTION_KEY''" by (simp add: sample_environment_def)
  from services_share_key [OF this pc ic] pc ic show ?thesis by blast
qed

end
