(* ===== verification/Gateway_Ops.thy ===== *)
theory Gateway_Ops
  imports Transport
begin

text \<open>
  How a service is operated: the probes of \<open>libs/common/src/health.rs\<close> and \<open>services/gateway/src/health.rs\<close>, the request ids of
  \<open>libs/common/src/middleware.rs\<close>, and the graceful shutdown of \<open>services/gateway/src/shutdown.rs\<close> and \<open>main.rs\<close> as a step
  relation over the connection tracker and the request logger. Instants are nanoseconds. axum's server is represented by what it
  documents of a graceful shutdown: it returns when all its connections are closed.
\<close>

section \<open>Probes\<close>

text \<open>The outcome of a database check under its time limit of 500 ms.\<close>

datatype db_check = Check_Passed | Check_Failed string | Check_Timed_Out

record health_state =
  hl_service :: string
  hl_version :: string

definition live_handler :: "health_state \<Rightarrow> nat \<times> json" where
  "live_handler st = (200, json_obj [(''status'', String ''ok''), (''service'', String (hl_service st)), (''version'', String (hl_version st))])"

definition ready_handler :: "db_check \<Rightarrow> nat \<times> json" where
  "ready_handler db_result =
     (let (db_status, db_message) =
            (case db_result of
               Check_Passed \<Rightarrow> (''ok'', None)
             | Check_Failed e \<Rightarrow> (''error'', Some e)
             | Check_Timed_Out \<Rightarrow> (''error'', Some ''timed out after 500ms''));
          check = json_obj ((''status'', String db_status) # (case db_message of Some m \<Rightarrow> [(''message'', String m)] | None \<Rightarrow> []));
          overall_status = (if db_status = ''ok'' then ''ok'' else ''degraded'');
          http_status = (if overall_status = ''ok'' then 200 else 503)
      in (http_status, json_obj [(''status'', String overall_status), (''checks'', json_obj [(''database'', check)])]))"

text \<open>\<open>make_shutdown_db_checker\<close> around the outcome of the inner check.\<close>

definition make_shutdown_db_checker :: "bool \<Rightarrow> db_check \<Rightarrow> db_check" where
  "make_shutdown_db_checker is_shutting_down inner =
     (if is_shutting_down then Check_Failed ''gateway is shutting down'' else inner)"

record gateway_health_state =
  gh_instance_id :: string
  gh_cache :: config_cache
  gh_listen_connected :: bool
  gh_metrics_token :: "string option"

definition gateway_live_handler :: "gateway_health_state \<Rightarrow> nat \<times> json" where
  "gateway_live_handler st = (200, json_obj [(''status'', String ''ok''), (''instance_id'', String (gh_instance_id st))])"

definition not_ready :: "gateway_health_state \<Rightarrow> string \<Rightarrow> nat \<times> json" where
  "not_ready st reason =
     (503, json_obj [(''status'', String ''not_ready''), (''instance_id'', String (gh_instance_id st)), (''reason'', String reason)])"

text \<open>\<open>sidecar_healthy\<close> is the outcome of the probe of the sidecar's socket.\<close>

definition gateway_ready_handler :: "bool \<Rightarrow> gateway_health_state \<Rightarrow> nat \<times> json" where
  "gateway_ready_handler sidecar_healthy st =
     (if \<not> is_loaded (gh_cache st) then not_ready st ''config cache not yet loaded''
      else if \<not> gh_listen_connected st then not_ready st ''PostgreSQL LISTEN connection not established''
      else if \<not> sidecar_healthy then not_ready st ''sidecar socket unreachable''
      else (200, json_obj [(''status'', String ''ready''), (''instance_id'', String (gh_instance_id st)),
        (''cache_entries'', json_int (int (unat (entry_count (gh_cache st)))))]))"

text \<open>The header \<open>Authorization\<close>: absent, not visible ASCII, or a text; \<open>rendered\<close> is the text of the Prometheus library.\<close>

definition gateway_metrics_handler :: "string \<Rightarrow> string option option \<Rightarrow> gateway_health_state \<Rightarrow> nat \<times> string" where
  "gateway_metrics_handler rendered header st =
     (let refuse =
        (case gh_metrics_token st of
           Some expected \<Rightarrow> Option.bind (Option.bind header (\<lambda>v. v)) (strip_prefix ''Bearer '') \<noteq> Some expected
         | None \<Rightarrow> False)
      in if refuse then (401, ''Unauthorized'') else (200, rendered))"

section \<open>Request ids\<close>

text \<open>\<open>request_id\<close> is the fresh ULID, \<open>header_ok\<close> whether it is a valid header value.\<close>

definition request_id_middleware ::
  "(string \<Rightarrow> bool) \<Rightarrow> string \<Rightarrow> (string \<Rightarrow> (string \<times> string) list \<times> 'b) \<Rightarrow> (string \<times> string) list \<times> 'b" where
  "request_id_middleware header_ok request_id next_run =
     (let (headers, body) = next_run request_id in
      if \<not> list_ex (\<lambda>(k, _). k = ''x-request-id'') headers \<and> header_ok request_id
      then (headers @ [(''x-request-id'', request_id)], body) else (headers, body))"

section \<open>Shutdown\<close>

definition LB_DRAIN :: nat where "LB_DRAIN = 5 * 10 ^ 9"
definition DRAIN_LIMIT :: nat where "DRAIN_LIMIT = 30 * 10 ^ 9"

text \<open>
  Where \<open>main\<close> is: serving; in the window after the signal; waiting for the server to finish its connections; in \<open>drain\<close>
  under its time limit; waiting for the acknowledgement of the flush; returned.
\<close>

datatype shutdown_phase = Serving | Lb_Drain nat | Closing | Draining nat | Flushing nat | Exited

record ('s, 'c) shutdown_sys =
  sd_phase :: shutdown_phase
  sd_now :: nat
  sd_is_shutting_down :: bool
  sd_sync_running :: bool
  sd_conn :: "'s conn_sys"
  sd_log :: "'c log_sys"
  sd_signalled_at :: "nat option"
  sd_forcibly_dropped :: "u64 option"
  sd_flushed :: bool

definition is_draining :: "shutdown_phase \<Rightarrow> bool" where
  "is_draining p = (case p of Draining _ \<Rightarrow> True | _ \<Rightarrow> False)"

text \<open>The end of \<open>drain\<close>, by return or by time-out: the hot-reload task is aborted and the flush is called.\<close>

definition begin_flush :: "nat \<Rightarrow> u64 option \<Rightarrow> ('s, 'c) shutdown_sys \<Rightarrow> ('s, 'c) shutdown_sys" where
  "begin_flush i forced s =
     s\<lparr>sd_phase := Flushing i, sd_sync_running := False, sd_forcibly_dropped := forced,
       sd_log := (sd_log s)\<lparr>sy_called := (i, records_of (sy_accepted (sd_log s))) # sy_called (sd_log s)\<rparr>\<rparr>"

text \<open>
  A step of a handler on the tracker: once the flag is set, no handler that has not passed its check gets to the tracker; the
  steps of \<open>drain\<close> are those of the draining phase.
\<close>

inductive shutdown_step ::
  "'s semaphore_api \<Rightarrow> (uuid \<Rightarrow> u32) \<Rightarrow> (log_msg, 'c) mpsc_api \<Rightarrow> (log_record \<Rightarrow> string option)
   \<Rightarrow> ('s, 'c) shutdown_sys \<Rightarrow> ('s, 'c) shutdown_sys \<Rightarrow> bool" for api limit mp to_string where
  Tick: "shutdown_step api limit mp to_string s (s\<lparr>sd_now := sd_now s + d\<rparr>)"
| Handler: "conn_step api limit (sd_conn s) c \<Longrightarrow> sd_phase s \<noteq> Exited \<Longrightarrow>
    (sd_is_shutting_down s \<longrightarrow> (\<forall>i < length (cs_tasks c). cs_tasks (sd_conn s) ! i = T_Idle \<longrightarrow> cs_tasks c ! i = T_Idle)) \<Longrightarrow>
    (\<not> is_draining (sd_phase s) \<longrightarrow> cs_drain c = cs_drain (sd_conn s)) \<Longrightarrow>
    shutdown_step api limit mp to_string s (s\<lparr>sd_conn := c\<rparr>)"
| Logger: "logger_step mp to_string (sd_log s) l \<Longrightarrow> sd_phase s \<noteq> Exited \<Longrightarrow>
    shutdown_step api limit mp to_string s (s\<lparr>sd_log := l\<rparr>)"
| Signal: "sd_phase s = Serving \<Longrightarrow>
    shutdown_step api limit mp to_string s
      (s\<lparr>sd_phase := Lb_Drain (sd_now s), sd_is_shutting_down := True, sd_signalled_at := Some (sd_now s)\<rparr>)"
| Window_Over: "sd_phase s = Lb_Drain t \<Longrightarrow> t + LB_DRAIN \<le> sd_now s \<Longrightarrow>
    shutdown_step api limit mp to_string s (s\<lparr>sd_phase := Closing\<rparr>)"
| Server_Returned: "sd_phase s = Closing \<Longrightarrow> list_all (\<lambda>p. p = T_Idle) (cs_tasks (sd_conn s)) \<Longrightarrow>
    shutdown_step api limit mp to_string s (s\<lparr>sd_phase := Draining (sd_now s)\<rparr>)"
| Drained: "sd_phase s = Draining t \<Longrightarrow> cs_drain (sd_conn s) = D_Returned \<Longrightarrow> i \<notin> fst ` set (sy_called (sd_log s)) \<Longrightarrow>
    shutdown_step api limit mp to_string s (begin_flush i None s)"
| Drain_Timed_Out: "sd_phase s = Draining t \<Longrightarrow> t + DRAIN_LIMIT \<le> sd_now s \<Longrightarrow> cs_drain (sd_conn s) \<noteq> D_Returned \<Longrightarrow>
    i \<notin> fst ` set (sy_called (sd_log s)) \<Longrightarrow>
    shutdown_step api limit mp to_string s (begin_flush i (Some (global_active (cs_tracker (sd_conn s)))) s)"
| Acknowledged: "sd_phase s = Flushing i \<Longrightarrow> i \<in> set (ls_acks (sy_state (sd_log s))) \<Longrightarrow>
    shutdown_step api limit mp to_string s (s\<lparr>sd_phase := Exited, sd_flushed := True\<rparr>)"
| Writer_Gone: "sd_phase s = Flushing i \<Longrightarrow> flush mp i (sy_state (sd_log s)) = Some (False, l) \<Longrightarrow>
    shutdown_step api limit mp to_string s (s\<lparr>sd_phase := Exited\<rparr>)"

inductive_cases shutdown_stepE: "shutdown_step api limit mp to_string s t"

definition shutdown_init :: "'s semaphore_api \<Rightarrow> u64 \<Rightarrow> nat \<Rightarrow> (log_msg, 'c) mpsc_api \<Rightarrow> ('s, 'c) shutdown_sys \<Rightarrow> bool" where
  "shutdown_init api gm n mp s \<longleftrightarrow> sd_phase s = Serving \<and> \<not> sd_is_shutting_down s \<and> sd_sync_running s \<and>
     sd_conn s = conn_start api gm n \<and> log_sys_init mp (sd_log s) \<and> sd_signalled_at s = None \<and> sd_forcibly_dropped s = None \<and>
     \<not> sd_flushed s"

section \<open>The shutdown is orderly\<close>

lemma reach_called:
  "reach (log_sys_init mp) (logger_step mp to_string) l \<Longrightarrow> i \<notin> fst ` set (sy_called l) \<Longrightarrow>
    reach (log_sys_init mp) (logger_step mp to_string) (l\<lparr>sy_called := (i, records_of (sy_accepted l)) # sy_called l\<rparr>)"
  by (erule reach_step) (rule Call_Flush)

lemma shutdown_projections:
  assumes "reach (shutdown_init api gm n mp) (shutdown_step api limit mp to_string) s"
  shows "reach (\<lambda>c. c = conn_start api gm n) (conn_step api limit) (sd_conn s)"
    and "reach (log_sys_init mp) (logger_step mp to_string) (sd_log s)"
proof -
  show "reach (\<lambda>c. c = conn_start api gm n) (conn_step api limit) (sd_conn s)"
    using assms
  proof (rule reach_invariant)
    show "reach (\<lambda>c. c = conn_start api gm n) (conn_step api limit) (sd_conn s)" if "shutdown_init api gm n mp s" for s
      using that by (intro reach_init) (simp add: shutdown_init_def)
  qed (auto elim!: shutdown_stepE simp: begin_flush_def intro: reach_step)
  show "reach (log_sys_init mp) (logger_step mp to_string) (sd_log s)"
    using assms
  proof (rule reach_invariant)
    show "reach (log_sys_init mp) (logger_step mp to_string) (sd_log s)" if "shutdown_init api gm n mp s" for s
      using that by (intro reach_init) (simp add: shutdown_init_def)
  qed (auto elim!: shutdown_stepE simp: begin_flush_def intro: reach_step reach_called)
qed

text \<open>What holds from a phase on.\<close>

fun phase_rank :: "shutdown_phase \<Rightarrow> nat" where
  "phase_rank Serving = 0"
| "phase_rank (Lb_Drain _) = 1"
| "phase_rank Closing = 2"
| "phase_rank (Draining _) = 3"
| "phase_rank (Flushing _) = 4"
| "phase_rank Exited = 5"

definition shutdown_inv :: "('s, 'c) shutdown_sys \<Rightarrow> bool" where
  "shutdown_inv s \<longleftrightarrow>
     (sd_is_shutting_down s \<longleftrightarrow> sd_phase s \<noteq> Serving) \<and>
     (case sd_phase s of
        Serving \<Rightarrow> True
      | Lb_Drain t \<Rightarrow> sd_signalled_at s = Some t \<and> t \<le> sd_now s
      | _ \<Rightarrow> \<exists>t. sd_signalled_at s = Some t \<and> t + LB_DRAIN \<le> sd_now s) \<and>
     (3 \<le> phase_rank (sd_phase s) \<longrightarrow> list_all (\<lambda>p. p = T_Idle) (cs_tasks (sd_conn s))) \<and>
     (4 \<le> phase_rank (sd_phase s) \<longrightarrow> \<not> sd_sync_running s) \<and>
     (case sd_phase s of Flushing i \<Rightarrow> i \<in> fst ` set (sy_called (sd_log s)) | _ \<Rightarrow> True) \<and>
     (sd_flushed s \<longrightarrow> sd_phase s = Exited \<and> (\<exists>i \<in> set (ls_acks (sy_state (sd_log s))). i \<in> fst ` set (sy_called (sd_log s))))"

lemma idle_stays:
  assumes "conn_step api limit c c'" "list_all (\<lambda>p. p = T_Idle) (cs_tasks c)"
    and "\<forall>i < length (cs_tasks c'). cs_tasks c ! i = T_Idle \<longrightarrow> cs_tasks c' ! i = T_Idle"
  shows "list_all (\<lambda>p. p = T_Idle) (cs_tasks c')"
proof -
  have "length (cs_tasks c') = length (cs_tasks c)" using assms(1) by cases (simp_all add: set_task_def)
  with assms(2,3) show ?thesis by (simp add: list_all_length)
qed

lemma logger_step_grows:
  assumes "logger_step mp to_string l l'"
  shows "set (sy_called l) \<subseteq> set (sy_called l')" "set (ls_acks (sy_state l)) \<subseteq> set (ls_acks (sy_state l'))"
  using assms
  by (auto elim!: logger_stepE simp: log_def flush_def run_writer_turn_def write_msg_def
      split: sum.splits option.splits try_send_error.splits log_msg.splits)

lemma shutdown_step_inv:
  assumes "shutdown_step api limit mp to_string s t" "shutdown_inv s"
  shows "shutdown_inv t"
  using assms(1)
proof cases
  case (Handler c)
  have "list_all (\<lambda>p. p = T_Idle) (cs_tasks c)" if "3 \<le> phase_rank (sd_phase s)"
  proof -
    have "sd_is_shutting_down s" "list_all (\<lambda>p. p = T_Idle) (cs_tasks (sd_conn s))"
      using assms(2) that by (auto simp: shutdown_inv_def)
    with Handler idle_stays show ?thesis by blast
  qed
  with assms(2) Handler(1) show ?thesis by (auto simp: shutdown_inv_def split: shutdown_phase.splits)
next
  case (Logger l)
  note grow = logger_step_grows [OF Logger(2)]
  have "fst ` set (sy_called (sd_log s)) \<subseteq> fst ` set (sy_called l)" using grow(1) by (rule image_mono)
  with grow(2) assms(2) Logger(1,3) show ?thesis
    unfolding shutdown_inv_def by (cases "sd_phase s") (auto simp: Let_def)
qed (use assms(2) in \<open>auto simp: shutdown_inv_def begin_flush_def LB_DRAIN_def split: shutdown_phase.splits\<close>)


section \<open>Probes say what they check\<close>

lemma json_status_distinct: "fst (not_ready st reason) = 503"
  by (simp add: not_ready_def)


lemma has_header: "list_ex (\<lambda>(k, _). k = key) headers \<longleftrightarrow> map_of headers key \<noteq> None"
  by (induction headers) auto

lemma request_id_once:
  assumes "header_ok request_id" "next_run request_id = (headers, body)"
  shows "map_of (fst (request_id_middleware header_ok request_id next_run)) ''x-request-id'' =
    (case map_of headers ''x-request-id'' of Some v \<Rightarrow> Some v | None \<Rightarrow> Some request_id)"
  using assms by (auto simp: request_id_middleware_def has_header map_add_def split: option.split)

section \<open>Examples\<close>

definition sample_shutdown :: "(nat, nat \<times> log_msg list) shutdown_sys" where
  "sample_shutdown =
     \<lparr>sd_phase = Serving, sd_now = 0, sd_is_shutting_down = False, sd_sync_running = True, sd_conn = conn_start nat_semaphore 1 0,
      sd_log = sample_sys, sd_signalled_at = None, sd_forcibly_dropped = None, sd_flushed = False\<rparr>"


end
