(* ===== verification/Spec2Isabelle.thy ===== *)
theory Spec2Isabelle
  imports Breaker_Race Hot_Reload Sse Rate_Limit Api_Auth Service_Config Gateway_Ops
begin

text \<open>
  A verification library for Recast MCP, a platform that turns REST APIs into MCP servers.

  \<^bold>\<open>The program.\<close> Three services share two libraries. The \<^emph>\<open>platform API\<close> (\<open>services/api\<close>) keeps users, server configurations, encrypted
  credentials and tokens in PostgreSQL; users come in with Clerk tokens, Clerk reports deleted users through a webhook. The
  \<^emph>\<open>gateway\<close> (\<open>services/gateway\<close>) holds the configurations in a cache that notifications of PostgreSQL keep current, authenticates MCP
  clients, speaks JSON-RPC with them over streamable HTTP or SSE, turns a tool call into an upstream request, executes it behind a circuit
  breaker, transforms the answer and logs the request. A call that needs a credential goes over a socket to the \<^emph>\<open>credential injector\<close>
  (\<open>services/credential-injector\<close>), which decrypts the credential, checks the target and sends the request. \<open>libs/common\<close> has errors,
  the audit log, SSRF checks, rate limits, configuration and probes; \<open>libs/mcp-crypto\<close> has the encryption.

  \<^bold>\<open>Theories and sources.\<close> A definition has the name of the function, type or constant it translates, with a prefix where names
  would clash; \<open>PROJECT.json\<close> gives the lines.
  \<^item> \<open>Prelude\<close>: machine words, results, strings as UTF-8 bytes, reachable states, rewrite collections. \<open>Json\<close>: serde's values and maps.
    \<open>Float64\<close>, \<open>Float64_Exact\<close>: \<open>f64\<close> as 64-bit patterns, and when its arithmetic is exact.
  \<^item> \<open>Circuit_Breaker\<close>, \<open>Breaker_Race\<close> (\<open>circuit_breaker.rs\<close>): the methods on a record of their atomics, their refinement of a
    three-state machine, and the same methods access by access under concurrent callers.
  \<^item> \<open>Connections\<close> (\<open>connections.rs\<close>): admission, the guard and \<open>drain\<close>, sequentially and access by access.
  \<^item> \<open>Config_Cache\<close> (\<open>cache.rs\<close>), \<open>Hot_Reload\<close> (\<open>hot_reload.rs\<close>): the cache with its slug index; notifications, batches and reconnects
    as a step relation against a changing table, and the supervisor of the task.
  \<^item> \<open>Template\<close> (\<open>util/template.rs\<close>), \<open>Upstream\<close> (\<open>upstream.rs\<close>), \<open>Tool_Schema\<close> (\<open>tool_schema.rs\<close>), \<open>Transform\<close> (\<open>transform.rs\<close>),
    \<open>Sidecar\<close> (\<open>sidecar.rs\<close>): building, executing and transforming a tool call.
  \<^item> \<open>Json_Rpc\<close> (\<open>protocol/jsonrpc.rs\<close>, \<open>libs/mcp-protocol\<close>), \<open>Logging\<close> (\<open>logging.rs\<close>), \<open>Router\<close> (\<open>router.rs\<close>), \<open>Auth\<close> (\<open>auth.rs\<close>),
    \<open>Transport\<close> (\<open>transport.rs\<close>), \<open>Sse\<close> (\<open>sse.rs\<close>): messages, log records and their writer, dispatch, token validation and the two transports,
    each composed from the theories before it the way the code calls them.
  \<^item> \<open>App_Error\<close> (\<open>error.rs\<close>), \<open>Ssrf\<close> (\<open>ssrf.rs\<close>), \<open>Audit_Log\<close> (\<open>audit.rs\<close>), \<open>Rate_Limit\<close> (\<open>rate_limit/mod.rs\<close>): the common library.
  \<^item> \<open>Crypto\<close> (\<open>mcp-crypto\<close>), \<open>Injector\<close> (\<open>inject.rs\<close>, \<open>cache.rs\<close>, \<open>notify.rs\<close>): the credential path.
  \<^item> \<open>Api_Tables\<close> (the migrations and every SQL statement of the API), \<open>Api_Servers\<close> (\<open>servers.rs\<close>, \<open>handlers/servers\<close>),
    \<open>Api_Credentials\<close> (\<open>credentials.rs\<close>, \<open>handlers/credentials.rs\<close>, \<open>handlers/tokens.rs\<close>), \<open>Api_Routes\<close> (the protected routes of \<open>router.rs\<close>,
    \<open>handlers/users.rs\<close>), \<open>Api_Auth\<close> (\<open>auth.rs\<close>, \<open>handlers/webhooks.rs\<close>): the platform API.
  \<^item> \<open>Service_Config\<close> (the four \<open>config.rs\<close>), \<open>Gateway_Ops\<close> (\<open>health.rs\<close>, \<open>shutdown.rs\<close>, \<open>middleware.rs\<close>, the end of the gateway's \<open>main\<close>): operation.

  \<^bold>\<open>How code is translated.\<close> A struct is a record, an enum a datatype, an integer a word of its width, \<open>Result\<close> a sum with the error on
  the left, a dictionary a map or an association list in the order of the source. A method on shared state takes and returns the state. What
  waits for another party (a permit, a full channel) returns \<open>None\<close> while it waits. Where several tasks work on shared state, the accesses are
  steps of an inductive relation, one per atomic access or per stretch between two \<open>await\<close>s, and the properties are proved for all reachable
  states. What comes from outside in one call (clock, random bytes, answers of PostgreSQL or of an HTTP peer) is an argument.

  \<^bold>\<open>What is proved.\<close>
  \<^item> Access: a request is dispatched, and a session opened, only for a token that was verified against the server's hash; a protected
    route of the API runs only for a token verified under a fresh key; a credential leaves the injector only for an authenticated caller and a
    checked target.
  \<^item> Tenants: the API keeps the rows of other users under every request; reads are not influenced by other users; deletion of a user is
    complete; the database stays consistent in all reachable states. The contract \<open>tenants\<close> is interpreted on the protected routes.
  \<^item> Resources: connection limits hold under every interleaving, each connection is given back on every path of both transports, the
    pool of the sidecar is restored, the rate limiter admits no more than it says.
  \<^item> Refinement: the breaker (contract \<open>breaker_contract\<close>) and the executor follow the abstract breaker machine; path
    interpolation is simultaneous substitution; the two transports give the same answers; the cache (contract \<open>config_store\<close>) and serde's map
    (contract \<open>string_map\<close>) meet their specifications.
  \<^item> Delivery: hot reload converges to the table, SSE answers arrive in order at their session, log and audit records are conserved and
    flushed, the writers and \<open>drain\<close> are not stuck, a shutdown is orderly.
  \<^item> Errors and encodings: the error codes of every branch of a tool call, the parse errors, what error responses disclose; framing,
    encryption, credentials, addresses and queries survive a round trip; the blocked address ranges are exact.
  Findings (places where the code does not do what it or its comments say) are listed in \<open>PROJECT.json\<close>, with the theorem that shows it where one does.

  \<^bold>\<open>Bounds and fuel.\<close> Recursions that are not structural have termination proofs (\<open>replace_str\<close>, \<open>utf8_chars\<close>, \<open>from_utf8_lossy\<close>, the template
  scanner). Loops that end only when a queue is empty take a number of turns, and the theorems say how many suffice (the length of the
  queue, plus the phases of a shutdown). A caller of the breaker makes at most seven accesses, five slugs are tried, as in the code.

  \<^bold>\<open>Third-party code\<close> is a parameter (a record of functions), and what is relied on is a named hypothesis with its documented
  behaviour: \<open>semaphore_ok\<close>, \<open>mpsc_ok\<close> (tokio), \<open>postgres_ok\<close>, \<open>gcm_ok\<close> (AES-GCM); argon2, jsonwebtoken, Svix, reqwest, the url,
  ipnetwork, percent-encoding, jsonpath and chrono crates, serde's text parser and printers, Unicode tables, Redis. Each hypothesis holds of a
  concrete instance that the examples use.

  \<^bold>\<open>Not modelled.\<close> The set-up of tracing, OpenTelemetry and Prometheus and their counters, the wiring in the \<open>main\<close> functions and signal
  registration have no state of the program. The tower and axum layers (compression, time limits, CORS headers, extractors, the route table itself) are library
  code. The Lua script is run by Redis: its reply is a parameter. The socket probe of the sidecar is pure I/O. The platform API takes its requests one at a time, as its statements are single SQL statements; the one
  place where two statements of a request belong together and are not in a transaction is shown to lose an update. The test support of
  \<open>libs/common\<close> is not part of the services.
\<close>

end
